(* ===== verification/Prelude.thy ===== *)
theory Prelude
  imports Complex_Main "HOL-Library.Word" "HOL-Library.Signed_Division" "HOL-Library.Multiset"
begin

text \<open>
  Shared vocabulary of the development: the machine integer types of the C++ code, its signed
  64-bit arithmetic, the exceptions it throws, and the parts of the standard library
  (\<^verbatim>\<open>std::min_element\<close>, \<^verbatim>\<open>std::sort\<close>, \<^verbatim>\<open>std::llabs\<close>) several components use.

  Unsigned integers are words of their width. A signed 64-bit integer is an \<^typ>\<open>int\<close>, and every
  addition, subtraction and multiplication the code performs at type \<^verbatim>\<open>int64_t\<close> is followed by
  \<open>s64\<close>, the reduction to two's complement. Overflow is undefined in C++; the wrapped result is what
  the compiled code computes on the supported hosts, and the range lemmas of the components show where
  it cannot happen.
\<close>

type_synonym u8 = "8 word"
type_synonym u16 = "16 word"
type_synonym u32 = "32 word"
type_synonym u64 = "64 word"
type_synonym i64 = int

named_theorems model_defs \<open>definitions of the model that are unfolded to evaluate it\<close>
named_theorems i64_simps \<open>facts that discharge 64-bit range conditions\<close>

subsection \<open>Signed 64-bit arithmetic\<close>

definition in_i64 :: "int \<Rightarrow> bool" where
  "in_i64 x \<longleftrightarrow> - (2 ^ 63) \<le> x \<and> x < 2 ^ 63"

definition s64 :: "int \<Rightarrow> i64" where
  "s64 x = (x + 2 ^ 63) mod 2 ^ 64 - 2 ^ 63"

definition i64_max :: i64 where
  "i64_max = 2 ^ 63 - 1"

definition i64_min :: i64 where
  "i64_min = - (2 ^ 63)"

lemma in_i64_numeric:
  "in_i64 x \<longleftrightarrow> - 9223372036854775808 \<le> x \<and> x < 9223372036854775808"
  by (simp add: in_i64_def)

lemma s64_numeric:
  "s64 x = (x + 9223372036854775808) mod 18446744073709551616 - 9223372036854775808"
  by (simp add: s64_def)

lemma s64_id [i64_simps]: "in_i64 x \<Longrightarrow> s64 x = x"
  by (simp add: in_i64_numeric s64_numeric)

lemma s64_in_i64 [simp, i64_simps]: "in_i64 (s64 x)"
proof -
  have "0 \<le> (x + 9223372036854775808) mod 18446744073709551616"
    and "(x + 9223372036854775808) mod 18446744073709551616 < 18446744073709551616"
    by simp_all
  then show ?thesis by (simp add: in_i64_numeric s64_numeric)
qed

lemma s64_idem [simp]: "s64 (s64 x) = s64 x"
  by (rule s64_id) simp

lemma s64_eq_iff: "s64 x = x \<longleftrightarrow> in_i64 x"
  by (metis s64_id s64_in_i64)

lemma s64_small [simp]:
  "s64 0 = 0" "s64 1 = 1" "s64 (- 1) = - 1"
  by (simp_all add: s64_numeric)

text \<open>Truncating division, the \<^verbatim>\<open>/\<close> of C++ on signed operands, by a positive constant.\<close>

lemma sdiv_nonneg: "0 \<le> (a::int) \<Longrightarrow> 0 < b \<Longrightarrow> a sdiv b = a div b"
  by (simp add: signed_divide_int_def sgn_if)

lemma sdiv_neg: "(a::int) < 0 \<Longrightarrow> 0 < b \<Longrightarrow> a sdiv b = - ((- a) div b)"
  by (simp add: signed_divide_int_def sgn_if)

lemma sdiv_mono: "(a::int) \<le> b \<Longrightarrow> 0 < c \<Longrightarrow> a sdiv c \<le> b sdiv c"
proof (cases "0 \<le> a")
  case True
  assume "a \<le> b" "0 < c"
  with True show ?thesis by (simp add: sdiv_nonneg zdiv_mono1)
next
  case False
  assume le: "a \<le> b" and c: "0 < c"
  from False c have a: "a sdiv c = - ((- a) div c)" "0 \<le> (- a) div c"
    by (simp_all add: sdiv_neg pos_imp_zdiv_nonneg_iff)
  show ?thesis
  proof (cases "0 \<le> b")
    case True
    with c have "0 \<le> b sdiv c" by (simp add: sdiv_nonneg pos_imp_zdiv_nonneg_iff)
    with a show ?thesis by simp
  next
    case False
    with le c have "(- b) div c \<le> (- a) div c" by (simp add: zdiv_mono1)
    with False a c show ?thesis by (simp add: sdiv_neg)
  qed
qed

lemma int_div_le_self: "0 \<le> (a::int) \<Longrightarrow> 0 < c \<Longrightarrow> a div c \<le> a"
  using zdiv_mono2 [of a 1 c] by simp

lemma sdiv_abs_le: "0 < c \<Longrightarrow> \<bar>(a::int) sdiv c\<bar> \<le> \<bar>a\<bar>"
  by (cases "0 \<le> a")
    (auto simp: sdiv_nonneg sdiv_neg pos_imp_zdiv_nonneg_iff int_div_le_self)

text \<open>\<^verbatim>\<open>std::llabs\<close> (of \<^verbatim>\<open>INT64_MIN\<close> it wraps to itself).\<close>

definition llabs :: "i64 \<Rightarrow> i64" where
  "llabs x = s64 \<bar>x\<bar>"

lemma llabs_abs [i64_simps]: "in_i64 x \<Longrightarrow> x \<noteq> i64_min \<Longrightarrow> llabs x = \<bar>x\<bar>"
  by (auto simp: llabs_def i64_min_def in_i64_numeric intro!: s64_id)

lemma llabs_min: "llabs i64_min = i64_min"
  by (simp add: llabs_def i64_min_def s64_numeric)

text \<open>\<^verbatim>\<open>static_cast<int>\<close> of a size, at 32 bits.\<close>

definition s32 :: "int \<Rightarrow> int" where
  "s32 x = (x + 2 ^ 31) mod 2 ^ 32 - 2 ^ 31"

lemma s32_id [i64_simps]: "- (2 ^ 31) \<le> x \<Longrightarrow> x < 2 ^ 31 \<Longrightarrow> s32 x = x"
  by (simp add: s32_def)

subsection \<open>Exceptions\<close>

text \<open>
  The exceptions the code throws, with their message. A call that may throw returns a sum, the
  exception on the left.
\<close>

datatype exn =
    runtime_error string
  | invalid_argument string
  | out_of_range string
  | length_error string
  | bad_alloc

type_synonym 'a outcome = "exn + 'a"

text \<open>Continue with the value of a stateful call, or pass its exception on.\<close>

definition and_then :: "'a outcome \<times> 'w \<Rightarrow> ('a \<Rightarrow> 'w \<Rightarrow> 'b outcome \<times> 'w) \<Rightarrow> 'b outcome \<times> 'w" where
  "and_then r k = (case r of (Inl e, w) \<Rightarrow> (Inl e, w) | (Inr a, w) \<Rightarrow> k a w)"

lemma and_then_simps [simp]:
  "and_then (Inl e, w) k = (Inl e, w)"
  "and_then (Inr a, w) k = k a w"
  by (simp_all add: and_then_def)

lemma and_then_Inr_iff:
  "and_then r k = (Inr b, w') \<longleftrightarrow> (\<exists>a w. r = (Inr a, w) \<and> k a w = (Inr b, w'))"
  by (auto simp: and_then_def split: prod.splits sum.splits)

subsection \<open>\<^verbatim>\<open>std::min_element\<close>\<close>

text \<open>The first element of least key; \<^verbatim>\<open>end()\<close> of an empty range is \<^const>\<open>None\<close>.\<close>

definition min_element :: "('a \<Rightarrow> int) \<Rightarrow> 'a list \<Rightarrow> 'a option" where
  "min_element k xs = (case xs of [] \<Rightarrow> None
     | y # ys \<Rightarrow> Some (foldl (\<lambda>best x. if k x < k best then x else best) y ys))"

lemma min_fold_spec:
  "foldl (\<lambda>best x. if k x < (k best :: int) then x else best) y ys \<in> insert y (set ys) \<and>
   (\<forall>x \<in> insert y (set ys). k (foldl (\<lambda>best x. if k x < k best then x else best) y ys) \<le> k x)"
proof (induction ys arbitrary: y)
  case (Cons a ys)
  show ?case using Cons [of "if k a < k y then a else y"] by (auto split: if_splits)
qed simp

lemma min_element_Some:
  assumes "min_element k xs = Some x"
  shows "x \<in> set xs" "\<And>y. y \<in> set xs \<Longrightarrow> k x \<le> k y"
  using assms min_fold_spec [of k "hd xs" "tl xs"]
  by (auto simp: min_element_def split: list.splits)

lemma min_fold_first:
  "\<exists>as bs. y # ys = as @ foldl (\<lambda>best x. if k x < (k best :: int) then x else best) y ys # bs \<and>
    (\<forall>a \<in> set as. k (foldl (\<lambda>best x. if k x < k best then x else best) y ys) < k a) \<and>
    (\<forall>b \<in> set bs. k (foldl (\<lambda>best x. if k x < k best then x else best) y ys) \<le> k b)"
  (is "\<exists>as bs. ?P ys as bs")
proof (induction ys rule: rev_induct)
  case Nil
  show ?case by (intro exI [of _ "[]"]) simp
next
  case (snoc x ys)
  let ?m = "foldl (\<lambda>best x. if k x < k best then x else best) y ys"
  obtain as bs where ab: "y # ys = as @ ?m # bs" "\<forall>a \<in> set as. k ?m < k a" "\<forall>b \<in> set bs. k ?m \<le> k b"
    using snoc by blast
  show ?case
  proof (cases "k x < k ?m")
    case True
    have "\<forall>a \<in> set (y # ys). k x < k a"
      unfolding ab(1) using ab(2,3) True by force
    with True show ?thesis by (intro exI [of _ "y # ys"] exI [of _ "[]"]) simp
  next
    case False
    with ab show ?thesis by (intro exI [of _ as] exI [of _ "bs @ [x]"]) auto
  qed
qed

lemma min_element_first:
  assumes "min_element k xs = Some x"
  shows "\<exists>as bs. xs = as @ x # bs \<and> (\<forall>a \<in> set as. k x < k a) \<and> (\<forall>b \<in> set bs. k x \<le> k b)"
proof (cases xs)
  case (Cons y ys)
  with assms have "x = foldl (\<lambda>best x. if k x < k best then x else best) y ys" by (simp add: min_element_def)
  with min_fold_first [of y ys k] Cons show ?thesis by (simp only:)
qed (use assms in \<open>simp add: min_element_def\<close>)

lemma min_element_ne: "xs \<noteq> [] \<Longrightarrow> \<exists>x. min_element k xs = Some x"
  by (auto simp: min_element_def split: list.splits)

lemma min_element_None [simp]: "min_element k xs = None \<longleftrightarrow> xs = []"
  by (auto simp: min_element_def split: list.splits)

subsection \<open>\<^verbatim>\<open>std::sort\<close>\<close>

text \<open>
  The standard leaves the order of elements with equal keys open, so a sort is a parameter of the
  operations that use one. Its contract is the locale below: a permutation, ascending in the key.
\<close>

type_synonym 'a sorter = "('a \<Rightarrow> int) \<Rightarrow> 'a list \<Rightarrow> 'a list"

locale std_sort =
  fixes srt :: "'a sorter"
  assumes mset_srt: "mset (srt k xs) = mset xs"
    and sorted_srt: "sorted (map k (srt k xs))"
begin

lemma set_srt [simp]: "set (srt k xs) = set xs"
  using mset_srt [of k xs] by (metis set_mset_mset)

lemma length_srt [simp]: "length (srt k xs) = length xs"
  using mset_srt [of k xs] by (metis size_mset)

lemma srt_Nil_iff [simp]: "srt k xs = [] \<longleftrightarrow> xs = []"
  using length_srt [of k xs] by (metis length_0_conv)

text \<open>What a cut-off prefix of the sorted list keeps: everything it drops is no smaller.\<close>

lemma take_srt_least:
  assumes "x \<in> set (take n (srt k xs))" "y \<in> set (drop n (srt k xs))"
  shows "k x \<le> k y"
proof -
  have "sorted (map k (take n (srt k xs)) @ map k (drop n (srt k xs)))"
    using sorted_srt [of k xs] by (simp flip: map_append)
  with assms show ?thesis by (auto simp: sorted_append)
qed

lemma take_drop_srt: "mset (take n (srt k xs)) + mset (drop n (srt k xs)) = mset xs"
  by (metis append_take_drop_id mset_append mset_srt)

lemma srt_last:
  assumes "xs \<noteq> []" "x \<in> set xs"
  shows "k x \<le> k (last (srt k xs))"
proof -
  have "srt k xs \<noteq> []" using assms by simp
  then obtain ys y where e: "srt k xs = ys @ [y]" by (metis rev_exhaust)
  with assms sorted_srt [of k xs] have "x \<in> insert y (set ys)" "\<forall>z \<in> set ys. k z \<le> k y"
    by (auto simp: sorted_append simp flip: set_srt [of k xs])
  then show ?thesis using e by auto
qed

end

text \<open>
  The stable sort meets the contract. It is also what libstdc++ computes for up to sixteen elements,
  where \<^verbatim>\<open>std::sort\<close> is a single insertion sort.
\<close>

interpretation stable: std_sort "\<lambda>k xs. sort_key k xs"
  by unfold_locales auto

end
