(* ===== verification/Nfp_Api.thy ===== *)
theory Nfp_Api
  imports Prelude
begin

text \<open>
  The interface to the Netronome SDK (\<^verbatim>\<open>libnfp\<close>), which is not part of the repository: a record of
  the calls the program makes, on an unspecified device state \<open>'w\<close>. Every definition that touches the
  device takes such a record; nothing is assumed of it unless a theorem says so.

  The second half holds the little-endian decoding of the bytes a read returns (the structs of the code
  are filled by the read itself), and a ghost log: \<open>traced api\<close> behaves as \<open>api\<close> and records each call,
  and \<open>areas_of\<close> reads off a log which areas are open and whether the calls were in a legal order.
\<close>

type_synonym nfp_cpp = nat
type_synonym area = nat

record nfp_rtsym =
  sym_name :: string
  sym_addr :: u64
  sym_size :: u64
  sym_domain :: int
  sym_target :: int
  sym_type :: int

record 'w nfp_api =
  island_id :: "int \<Rightarrow> int \<Rightarrow> int \<Rightarrow> int \<Rightarrow> u32"
  area_alloc :: "nfp_cpp \<Rightarrow> u32 \<Rightarrow> u64 \<Rightarrow> nat \<Rightarrow> 'w \<Rightarrow> area option \<times> 'w"
  area_acquire :: "area \<Rightarrow> 'w \<Rightarrow> int \<times> 'w"
  area_read :: "area \<Rightarrow> nat \<Rightarrow> nat \<Rightarrow> 'w \<Rightarrow> (int \<times> u8 list) \<times> 'w"
  area_write :: "area \<Rightarrow> nat \<Rightarrow> u8 list \<Rightarrow> 'w \<Rightarrow> int \<times> 'w"
  area_fill :: "area \<Rightarrow> nat \<Rightarrow> u32 \<Rightarrow> nat \<Rightarrow> 'w \<Rightarrow> int \<times> 'w"
  area_free :: "area \<Rightarrow> 'w \<Rightarrow> 'w"
  area_release_free :: "area \<Rightarrow> 'w \<Rightarrow> 'w"
  sleep_ms :: "nat \<Rightarrow> 'w \<Rightarrow> 'w"

definition kCppTargetMem :: int where "kCppTargetMem = 7"
definition kCppActionReadWrite :: int where "kCppActionReadWrite = 32"

subsection \<open>The call patterns of the readers\<close>

text \<open>
  Allocate an area and acquire it: no area if the allocation fails, and an area that cannot be acquired
  is freed again.
\<close>

definition open_area ::
  "'w nfp_api \<Rightarrow> nfp_cpp \<Rightarrow> u32 \<Rightarrow> u64 \<Rightarrow> nat \<Rightarrow> 'w \<Rightarrow> area option \<times> 'w" where
  "open_area api cpp cppId addr n w =
    (case area_alloc api cpp cppId addr n w of
       (None, w) \<Rightarrow> (None, w)
     | (Some a, w) \<Rightarrow>
        (case area_acquire api a w of (rc, w) \<Rightarrow>
          if rc < 0 then (None, area_free api a w) else (Some a, w)))"

text \<open>A read whose byte count is compared with the size asked for.\<close>

definition read_exact ::
  "'w nfp_api \<Rightarrow> area \<Rightarrow> nat \<Rightarrow> nat \<Rightarrow> 'w \<Rightarrow> u8 list option \<times> 'w" where
  "read_exact api a off n w =
    (case area_read api a off n w of ((got, bytes), w) \<Rightarrow>
       (if got \<noteq> s32 (int n) then None else Some bytes, w))"

subsection \<open>Little-endian fields\<close>

text \<open>
  The buffers are zero before a read, so bytes a read does not deliver count as zero.
\<close>

fun le_nat :: "u8 list \<Rightarrow> nat" where
  "le_nat [] = 0"
| "le_nat (b # bs) = unat b + 256 * le_nat bs"

fun le_bytes :: "nat \<Rightarrow> nat \<Rightarrow> u8 list" where
  "le_bytes 0 k = []"
| "le_bytes (Suc n) k = of_nat (k mod 256) # le_bytes n (k div 256)"

definition le_field :: "u8 list \<Rightarrow> nat \<Rightarrow> nat \<Rightarrow> nat" where
  "le_field bs off n = le_nat (take n (drop off bs))"

lemma length_le_bytes [simp]: "length (le_bytes n k) = n"
  by (induction n k rule: le_bytes.induct) auto

lemma le_bytes_add: "le_bytes (m + n) k = le_bytes m k @ le_bytes n (k div 256 ^ m)"
  by (induction m arbitrary: k) (auto simp: div_mult2_eq)

lemma le_nat_bytes: "le_nat (le_bytes n k) = k mod 256 ^ n"
proof (induction n arbitrary: k)
  case (Suc n)
  have "unat (of_nat (k mod 256) :: u8) = k mod 256"
    by (simp add: unat_of_nat)
  with Suc show ?case by (simp add: mod_mult2_eq)
qed simp

lemma le_nat_less: "le_nat bs < 256 ^ length bs"
proof (induction bs)
  case (Cons b bs)
  have "unat b < 256" using unsigned_less [of b, where ?'a = nat] by simp
  with Cons show ?case by simp
qed simp

lemma le_bytes_nat: "le_bytes (length bs) (le_nat bs) = bs"
proof (induction bs)
  case (Cons b bs)
  have "unat b < 256" using unsigned_less [of b, where ?'a = nat] by simp
  with Cons show ?case by simp
qed simp

lemma le_field_less: "le_field bs off n < 256 ^ n"
proof -
  have "le_field bs off n < 256 ^ length (take n (drop off bs))"
    unfolding le_field_def by (rule le_nat_less)
  also have "\<dots> \<le> 256 ^ n" by (intro power_increasing) auto
  finally show ?thesis .
qed

lemma le_field_here: "le_field (le_bytes n k @ bs) 0 n = k mod 256 ^ n"
  by (simp add: le_field_def le_nat_bytes)

lemma le_field_skip: "m \<le> off \<Longrightarrow> le_field (le_bytes m k @ bs) off n = le_field bs (off - m) n"
  by (simp add: le_field_def)

lemma le_field_here_end: "le_field (le_bytes n k) 0 n = k mod 256 ^ n"
  using le_field_here [of n k "[]"] by simp

lemma le_field_split:
  "le_field bs off (m + n) = le_field bs off m + 256 ^ m * le_field bs (off + m) n"
  if "off + m \<le> length bs"
proof -
  have app: "le_nat (xs @ ys) = le_nat xs + 256 ^ length xs * le_nat ys" for xs ys
    by (induction xs) (auto simp: algebra_simps)
  have "take (m + n) (drop off bs) = take m (drop off bs) @ take n (drop (off + m) bs)"
    by (simp add: take_add add.commute)
  with that show ?thesis by (simp add: le_field_def app)
qed

definition readLe16 :: "u8 list \<Rightarrow> nat \<Rightarrow> u16" where
  "readLe16 bytes offset = of_nat (le_field bytes offset 2)"

definition readLe32 :: "u8 list \<Rightarrow> nat \<Rightarrow> u32" where
  "readLe32 bytes offset = of_nat (le_field bytes offset 4)"

definition readLe64 :: "u8 list \<Rightarrow> nat \<Rightarrow> u64" where
  "readLe64 bytes offset = of_nat (le_field bytes offset 8)"

text \<open>The same decoding over binary integers, for evaluation.\<close>

fun le_int :: "u8 list \<Rightarrow> int" where
  "le_int [] = 0"
| "le_int (b # bs) = uint b + 256 * le_int bs"

lemma int_le_nat: "int (le_nat bs) = le_int bs"
  by (induction bs) simp_all

lemma readLe_code [code]:
  "readLe16 bytes offset = word_of_int (le_int (take 2 (drop offset bytes)))"
  "readLe32 bytes offset = word_of_int (le_int (take 4 (drop offset bytes)))"
  "readLe64 bytes offset = word_of_int (le_int (take 8 (drop offset bytes)))"
  by (simp_all only: readLe16_def readLe32_def readLe64_def le_field_def of_int_of_nat_eq flip: int_le_nat)

lemmas readLe_defs = readLe16_def readLe32_def readLe64_def

subsection \<open>The ghost log\<close>

datatype call =
    CAlloc u32 u64 nat "area option"
  | CAcquire area int
  | CRead area nat nat
  | CWrite area nat "u8 list"
  | CFill area nat u32 nat
  | CFree area
  | CRelease area

text \<open>The log has the latest call first.\<close>

definition traced :: "'w nfp_api \<Rightarrow> ('w \<times> call list) nfp_api" where
  "traced api =
    \<lparr> island_id = island_id api,
      area_alloc = (\<lambda>cpp i ad n (w, l). case area_alloc api cpp i ad n w of
        (r, w) \<Rightarrow> (r, (w, CAlloc i ad n r # l))),
      area_acquire = (\<lambda>a (w, l). case area_acquire api a w of (r, w) \<Rightarrow> (r, (w, CAcquire a r # l))),
      area_read = (\<lambda>a off n (w, l). case area_read api a off n w of
        (r, w) \<Rightarrow> (r, (w, CRead a off n # l))),
      area_write = (\<lambda>a off bs (w, l). case area_write api a off bs w of
        (r, w) \<Rightarrow> (r, (w, CWrite a off bs # l))),
      area_fill = (\<lambda>a off v n (w, l). case area_fill api a off v n w of
        (r, w) \<Rightarrow> (r, (w, CFill a off v n # l))),
      area_free = (\<lambda>a (w, l). (area_free api a w, CFree a # l)),
      area_release_free = (\<lambda>a (w, l). (area_release_free api a w, CRelease a # l)),
      sleep_ms = (\<lambda>n (w, l). (sleep_ms api n w, l)) \<rparr>"

text \<open>
  Areas in use after a log: allocated but not acquired, and acquired. A call outside the order the SDK
  asks for (a read of an area that is not acquired, a second release) makes the result \<^const>\<open>None\<close>.
\<close>

type_synonym areas = "area multiset \<times> area multiset"

fun area_step :: "call \<Rightarrow> areas \<Rightarrow> areas option" where
  "area_step (CAlloc _ _ _ None) (A, B) = Some (A, B)"
| "area_step (CAlloc _ _ _ (Some a)) (A, B) = Some (add_mset a A, B)"
| "area_step (CAcquire a rc) (A, B) =
    (if a \<in># A then Some (if rc < 0 then (A, B) else (A - {#a#}, add_mset a B)) else None)"
| "area_step (CRead a _ _) (A, B) = (if a \<in># B then Some (A, B) else None)"
| "area_step (CWrite a _ _) (A, B) = (if a \<in># B then Some (A, B) else None)"
| "area_step (CFill a _ _ _) (A, B) = (if a \<in># B then Some (A, B) else None)"
| "area_step (CFree a) (A, B) = (if a \<in># A then Some (A - {#a#}, B) else None)"
| "area_step (CRelease a) (A, B) = (if a \<in># B then Some (A, B - {#a#}) else None)"

fun areas_of :: "call list \<Rightarrow> areas option" where
  "areas_of [] = Some ({#}, {#})"
| "areas_of (c # l) = Option.bind (areas_of l) (area_step c)"

lemma traced_simps [simp]:
  "island_id (traced api) = island_id api"
  "area_alloc (traced api) cpp i ad n (w, l) =
    (fst (area_alloc api cpp i ad n w),
     (snd (area_alloc api cpp i ad n w), CAlloc i ad n (fst (area_alloc api cpp i ad n w)) # l))"
  "area_acquire (traced api) a (w, l) =
    (fst (area_acquire api a w), (snd (area_acquire api a w), CAcquire a (fst (area_acquire api a w)) # l))"
  "area_read (traced api) a off n (w, l) =
    (fst (area_read api a off n w), (snd (area_read api a off n w), CRead a off n # l))"
  "area_write (traced api) a off bs (w, l) =
    (fst (area_write api a off bs w), (snd (area_write api a off bs w), CWrite a off bs # l))"
  "area_fill (traced api) a off v n (w, l) =
    (fst (area_fill api a off v n w), (snd (area_fill api a off v n w), CFill a off v n # l))"
  "area_free (traced api) a (w, l) = (area_free api a w, CFree a # l)"
  "area_release_free (traced api) a (w, l) = (area_release_free api a w, CRelease a # l)"
  "sleep_ms (traced api) n (w, l) = (sleep_ms api n w, l)"
  by (simp_all add: traced_def split: prod.splits)

text \<open>The area discipline of the two call patterns.\<close>

definition holds :: "area multiset \<Rightarrow> 'w \<times> call list \<Rightarrow> bool" where
  "holds B w \<longleftrightarrow> areas_of (snd w) = Some ({#}, B)"

lemma open_area_holds:
  assumes "open_area (traced api) cpp i ad n w = (r, w')" "holds B w"
  shows "holds (case r of None \<Rightarrow> B | Some a \<Rightarrow> add_mset a B) w'"
  using assms by (cases w) (auto simp: open_area_def holds_def split: prod.splits option.splits if_splits)

lemma read_exact_holds:
  assumes "read_exact (traced api) a off n w = (r, w')" "holds B w" "a \<in># B"
  shows "holds B w'"
  using assms by (cases w) (auto simp: read_exact_def holds_def split: prod.splits if_splits)

lemma area_read_holds:
  assumes "area_read (traced api) a off n w = (r, w')" "holds B w" "a \<in># B"
  shows "holds B w'"
  using assms by (cases w) (auto simp: holds_def)

lemma area_write_holds:
  assumes "area_write (traced api) a off bs w = (r, w')" "holds B w" "a \<in># B"
  shows "holds B w'"
  using assms by (cases w) (auto simp: holds_def)

lemma area_fill_holds:
  assumes "area_fill (traced api) a off v n w = (r, w')" "holds B w" "a \<in># B"
  shows "holds B w'"
  using assms by (cases w) (auto simp: holds_def)

lemma sleep_holds: "holds B (sleep_ms (traced api) n w) = holds B w"
  by (cases w) (simp add: holds_def)

lemma release_holds:
  assumes "holds (add_mset a B) w"
  shows "holds B (area_release_free (traced api) a w)"
  using assms by (cases w) (simp add: holds_def)

end
