(* ===== verification/Mem_Device.thy ===== *)
theory Mem_Device
  imports Nfp_Api
begin

text \<open>
  Device memory behind the SDK calls, shared with the firmware. The locale \<open>nfp_memory\<close> states what the SDK
  documents of a device on which no call fails: an acquired area gives access to the bytes of one island
  from one address on; reads, writes and fills act on them. The firmware runs at the same time: what it may
  do to the memory between any two accesses is a rely condition, a reflexive and transitive relation.
  Only an aligned word is read or written in one access; the bytes of a longer read may stem from different
  moments, and the firmware may act between the stores of a fill. \<open>nic_api\<close> is such a device with a firmware
  of one's choice, on which the models can be run.
\<close>

type_synonym mem = "u32 \<Rightarrow> u64 \<Rightarrow> u8"

text \<open>
  The memory, and the banks that firmware threads have chosen from an earlier value of the state word and
  have not begun to write yet.
\<close>

type_synonym dev_state = "mem \<times> nat set"

definition in_range :: "u64 \<Rightarrow> nat \<Rightarrow> nat \<Rightarrow> u64 \<Rightarrow> bool" where
  "in_range base off n x \<longleftrightarrow> unat (x - (base + of_nat off)) < n"

definition mem_bytes :: "(u64 \<Rightarrow> u8) \<Rightarrow> u64 \<Rightarrow> nat \<Rightarrow> nat \<Rightarrow> u8 list" where
  "mem_bytes c base off n = map (\<lambda>k. c (base + of_nat off + of_nat k)) [0..<n]"

definition mem_store :: "(u64 \<Rightarrow> u8) \<Rightarrow> u64 \<Rightarrow> nat \<Rightarrow> u8 list \<Rightarrow> u64 \<Rightarrow> u8" where
  "mem_store c base off bs = (\<lambda>x. if in_range base off (length bs) x
     then bs ! unat (x - (base + of_nat off)) else c x)"

definition store_word :: "u32 \<Rightarrow> u64 \<Rightarrow> nat \<Rightarrow> mem \<Rightarrow> mem" where
  "store_word i ad k c = c(i := mem_store (c i) ad 0 (le_bytes 4 k))"

definition put :: "u32 \<Rightarrow> u64 \<Rightarrow> u8 \<Rightarrow> mem \<Rightarrow> mem" where
  "put i x v c = c(i := (c i)(x := v))"

definition region :: "u32 \<Rightarrow> u64 \<Rightarrow> nat \<Rightarrow> (u32 \<times> u64) set" where
  "region i ad n = {(j, x). j = i \<and> in_range ad 0 n x}"

lemma region_iff [simp]: "(j, x) \<in> region i ad n \<longleftrightarrow> j = i \<and> in_range ad 0 n x"
  by (simp add: region_def)

lemma in_range_offset:
  assumes "k < n" "n < 2 ^ 64"
  shows "in_range ad 0 n (ad + of_nat k)"
  using assms by (simp add: in_range_def unat_of_nat)

lemma in_range_nth: "in_range ad 0 n x \<Longrightarrow> \<exists>k<n. x = ad + of_nat k"
  by (intro exI [of _ "unat (x - ad)"]) (simp add: in_range_def)

lemma mem_bytes_cong:
  assumes "\<And>x. in_range ad 0 N x \<Longrightarrow> c x = d x" "off + n \<le> N" "N < 2 ^ 64"
  shows "mem_bytes c ad off n = mem_bytes d ad off n"
  unfolding mem_bytes_def
proof (rule map_cong [OF refl])
  fix k
  assume "k \<in> set [0..<n]"
  then have "in_range ad 0 N (ad + of_nat (off + k))" using assms(2,3) by (intro in_range_offset) auto
  from assms(1) [OF this] show "c (ad + of_nat off + of_nat k) = d (ad + of_nat off + of_nat k)"
    by (simp add: add.assoc)
qed

lemma length_mem_bytes [simp]: "length (mem_bytes c ad off n) = n"
  by (simp add: mem_bytes_def)

lemma mem_bytes_store:
  assumes "length bs < 2 ^ 64"
  shows "mem_bytes (mem_store c ad 0 bs) ad 0 (length bs) = bs"
  using assms by (intro nth_equalityI) (simp_all add: mem_bytes_def mem_store_def in_range_def unat_of_nat)

subsection \<open>Interference\<close>

text \<open>A list of stores in its order, with the firmware acting before, between and after them.\<close>

fun amid :: "(dev_state \<Rightarrow> dev_state \<Rightarrow> bool) \<Rightarrow> (mem \<Rightarrow> mem) list \<Rightarrow> dev_state \<Rightarrow> dev_state \<Rightarrow> bool" where
  "amid rely [] s s' = rely s s'"
| "amid rely (u # us) s s' = (\<exists>c L. rely s (c, L) \<and> amid rely us (u c, L) s')"

text \<open>The places the firmware can change at all.\<close>

definition volatile :: "(dev_state \<Rightarrow> dev_state \<Rightarrow> bool) \<Rightarrow> (u32 \<times> u64) set" where
  "volatile rely = {(i, x). \<exists>s s'. rely s s' \<and> fst s' i x \<noteq> fst s i x}"

definition agree_off :: "(u32 \<times> u64) set \<Rightarrow> mem \<Rightarrow> mem \<Rightarrow> bool" where
  "agree_off S c d \<longleftrightarrow> (\<forall>i x. (i, x) \<notin> S \<longrightarrow> c i x = d i x)"

lemma agree_off_refl [simp]: "agree_off S c c"
  by (simp add: agree_off_def)

lemma agree_off_trans: "agree_off S c d \<Longrightarrow> agree_off S' d e \<Longrightarrow> agree_off (S \<union> S') c e"
  by (simp add: agree_off_def)

lemma agree_off_mono: "agree_off S c d \<Longrightarrow> S \<subseteq> S' \<Longrightarrow> agree_off S' c d"
  by (auto simp: agree_off_def)

lemma rely_agree: "rely s s' \<Longrightarrow> agree_off (volatile rely) (fst s') (fst s)"
  unfolding agree_off_def volatile_def by (cases s, cases s') fastforce

lemma agree_off_bytes:
  assumes "agree_off S c d" "S \<inter> region i ad N = {}" "off + n \<le> N" "N < 2 ^ 64"
  shows "mem_bytes (c i) ad off n = mem_bytes (d i) ad off n"
proof (rule mem_bytes_cong [OF _ assms(3,4)])
  fix x
  assume "in_range ad 0 N x"
  then have "(i, x) \<in> region i ad N" by simp
  with assms(2) have "(i, x) \<notin> S" by blast
  with assms(1) show "c i x = d i x" by (simp add: agree_off_def)
qed

lemma put_apply: "put i x v c j y = (if j = i \<and> y = x then v else c j y)"
  by (simp add: put_def)

lemma put_agree: "agree_off {(i, x)} (put i x v c) c"
  by (simp add: agree_off_def put_apply)

lemma store_agree: "agree_off (region i ad 4) (store_word i ad k c) c"
  by (auto simp: agree_off_def store_word_def mem_store_def)

locale nfp_memory =
  fixes api :: "'w nfp_api"
    and dev :: "'w \<Rightarrow> dev_state"
    and place :: "'w \<Rightarrow> area \<Rightarrow> (u32 \<times> u64) option"
    and rely :: "dev_state \<Rightarrow> dev_state \<Rightarrow> bool"
  assumes rely_refl: "rely s s"
    and rely_trans: "rely s s' \<Longrightarrow> rely s' s'' \<Longrightarrow> rely s s''"
    and alloc_law: "area_alloc api cpp i ad n w = (oa, w') \<Longrightarrow>
      \<exists>a. oa = Some a \<and> place w a = None \<and> place w' = (place w)(a \<mapsto> (i, ad)) \<and> rely (dev w) (dev w')"
    and acquire_law: "area_acquire api a w = (rc, w') \<Longrightarrow>
      0 \<le> rc \<and> rely (dev w) (dev w') \<and> place w' = place w"
    and read_law: "place w a = Some (i, ad) \<Longrightarrow> area_read api a off n w = (r, w') \<Longrightarrow>
      fst r = int n \<and> length (snd r) = n \<and> place w' = place w \<and> rely (dev w) (dev w') \<and>
      (\<forall>k<n. \<exists>s. rely (dev w) s \<and> rely s (dev w') \<and> snd r ! k = fst s i (ad + of_nat off + of_nat k))"
    and word_law: "place w a = Some (i, ad) \<Longrightarrow> 4 dvd unat ad + off \<Longrightarrow> area_read api a off 4 w = (r, w') \<Longrightarrow>
      \<exists>s. rely (dev w) s \<and> rely s (dev w') \<and> snd r = mem_bytes (fst s i) ad off 4"
    and write_law: "place w a = Some (i, ad) \<Longrightarrow> 4 dvd unat ad \<Longrightarrow> area_write api a 0 (le_bytes 4 k) w = (rc, w') \<Longrightarrow>
      rc = 4 \<and> amid rely [store_word i ad k] (dev w) (dev w') \<and> place w' = place w"
    and fill_law: "place w a = Some (i, ad) \<Longrightarrow> 4 dvd n \<Longrightarrow> area_fill api a 0 0 n w = (rc, w') \<Longrightarrow>
      (\<exists>ks. set ks = {..<n} \<and> amid rely (map (\<lambda>k. put i (ad + of_nat k) 0) ks) (dev w) (dev w')) \<and>
      place w' = place w"
    and release_law: "rely (dev w) (dev (area_release_free api a w)) \<and>
      (\<forall>b. b \<noteq> a \<longrightarrow> place (area_release_free api a w) b = place w b)"
    and sleep_law: "rely (dev w) (dev (sleep_ms api t w)) \<and> place (sleep_ms api t w) = place w"
begin

lemma open_law:
  "\<exists>a w'. open_area api cpp i ad n w = (Some a, w') \<and> place w a = None \<and>
    place w' = (place w)(a \<mapsto> (i, ad)) \<and> rely (dev w) (dev w')"
proof -
  obtain r w1 where al: "area_alloc api cpp i ad n w = (r, w1)" by fastforce
  from alloc_law [OF al] obtain a where a: "r = Some a" "place w a = None"
    "place w1 = (place w)(a \<mapsto> (i, ad))" "rely (dev w) (dev w1)" by blast
  obtain rc w2 where ac: "area_acquire api a w1 = (rc, w2)" by fastforce
  from acquire_law [OF ac] a show ?thesis by (auto simp: open_area_def al ac intro: rely_trans)
qed

lemma read_exact_law:
  assumes "place w a = Some (i, ad)" "n < 2 ^ 31"
  shows "\<exists>bs w'. read_exact api a off n w = (Some bs, w') \<and> place w' = place w \<and> rely (dev w) (dev w') \<and>
    length bs = n \<and>
    (\<forall>k<n. \<exists>s. rely (dev w) s \<and> rely s (dev w') \<and> bs ! k = fst s i (ad + of_nat off + of_nat k))"
proof -
  obtain r w' where rd: "area_read api a off n w = (r, w')" by fastforce
  from read_law [OF assms(1) rd] assms(2) show ?thesis
    by (cases r) (auto simp: read_exact_def rd s32_id)
qed

lemma read_word_law:
  assumes "place w a = Some (i, ad)" "4 dvd unat ad + off"
  shows "\<exists>s w'. read_exact api a off 4 w = (Some (mem_bytes (fst s i) ad off 4), w') \<and> place w' = place w \<and>
    rely (dev w) s \<and> rely s (dev w')"
proof -
  obtain r w' where rd: "area_read api a off 4 w = (r, w')" by fastforce
  from word_law [OF assms rd] read_law [OF assms(1) rd] show ?thesis
    by (cases r) (auto simp: read_exact_def rd s32_id)
qed

end

subsection \<open>A memory device\<close>

record mem_world =
  cells :: mem
  table :: "(u32 \<times> u64 \<times> nat) list"
  chosen :: "nat set"

definition fill_words :: "u32 \<Rightarrow> nat \<Rightarrow> u8 list" where
  "fill_words v n = concat (replicate (n div 4) (le_bytes 4 (unat v)))"

definition mem_dev :: "mem_world \<Rightarrow> dev_state" where
  "mem_dev w = (cells w, chosen w)"

text \<open>The firmware takes one step whenever the program sleeps.\<close>

definition nic_api :: "(dev_state \<Rightarrow> dev_state) \<Rightarrow> mem_world nfp_api" where
  "nic_api fw =
    \<lparr> island_id = (\<lambda>_ _ _ i. of_int i),
      area_alloc = (\<lambda>_ i ad n w. (Some (length (table w)), w\<lparr> table := table w @ [(i, ad, n)] \<rparr>)),
      area_acquire = (\<lambda>a w. (0, w)),
      area_read = (\<lambda>a off n w. case table w ! a of (i, ad, _) \<Rightarrow>
        ((int n, mem_bytes (cells w i) ad off n), w)),
      area_write = (\<lambda>a off bs w. case table w ! a of (i, ad, _) \<Rightarrow>
        (int (length bs), w\<lparr> cells := (cells w)(i := mem_store (cells w i) ad off bs) \<rparr>)),
      area_fill = (\<lambda>a off v n w. case table w ! a of (i, ad, _) \<Rightarrow>
        (int n, w\<lparr> cells := (cells w)(i := mem_store (cells w i) ad off (fill_words v n)) \<rparr>)),
      area_free = (\<lambda>a w. w),
      area_release_free = (\<lambda>a w. w),
      sleep_ms = (\<lambda>_ w. case fw (mem_dev w) of (c, L) \<Rightarrow> w\<lparr> cells := c, chosen := L \<rparr>) \<rparr>"

definition runs :: "(dev_state \<Rightarrow> dev_state) \<Rightarrow> dev_state \<Rightarrow> dev_state \<Rightarrow> bool" where
  "runs fw s t \<longleftrightarrow> (\<exists>n. t = (fw ^^ n) s)"

lemma runs_refl: "runs fw s s"
  unfolding runs_def by (rule exI [of _ 0]) simp

lemma runs_step: "runs fw s (fw s)"
  unfolding runs_def by (rule exI [of _ 1]) simp

lemma runs_trans: "runs fw s t \<Longrightarrow> runs fw t u \<Longrightarrow> runs fw s u"
  unfolding runs_def by (metis comp_apply funpow_add)

lemma runs_inv:
  assumes "runs fw s t" "P s" "\<And>s. P s \<Longrightarrow> P (fw s)"
  shows "P t"
proof -
  obtain n where "t = (fw ^^ n) s" using assms(1) by (auto simp: runs_def)
  moreover have "P ((fw ^^ n) s)" for n by (induction n) (use assms(2,3) in auto)
  ultimately show ?thesis by simp
qed

definition mem_place :: "mem_world \<Rightarrow> area \<Rightarrow> (u32 \<times> u64) option" where
  "mem_place w a = (if a < length (table w) then case table w ! a of (i, ad, _) \<Rightarrow> Some (i, ad) else None)"

lemma le_bytes_zero: "le_bytes n 0 = replicate n 0"
  by (induction n) simp_all

lemma concat_zeros: "concat (replicate k (replicate m x)) = replicate (k * m) x"
  by (induction k) (simp_all add: replicate_add)

lemma fill_words_0: "4 dvd n \<Longrightarrow> fill_words 0 n = replicate n 0"
  by (simp add: fill_words_def le_bytes_zero concat_zeros)

lemma mem_place_Some:
  "mem_place w a = Some (i, ad) \<longleftrightarrow> a < length (table w) \<and> (\<exists>n. table w ! a = (i, ad, n))"
  by (auto simp: mem_place_def split: prod.splits)

lemma mem_place_table: "table w' = table w \<Longrightarrow> mem_place w' = mem_place w"
  by (simp add: mem_place_def fun_eq_iff)

text \<open>A fill is its byte stores in ascending order.\<close>

lemma puts_fill:
  "fold (\<lambda>k c. put i (ad + of_nat k) 0 c) [0..<n] c =
    c(i := mem_store (c i) ad 0 (replicate n 0))"
proof -
  have puts: "fold (\<lambda>k c. put i (ad + of_nat k) 0 c) ks c j x =
      (if j = i \<and> (\<exists>k \<in> set ks. x = ad + of_nat k) then 0 else c j x)" for ks c j x
    by (induction ks arbitrary: c) (auto simp: put_apply)
  have "in_range ad 0 n (ad + of_nat k)" if "k < n" for k
    using that by (simp add: in_range_def unat_of_nat)
  then have "(\<exists>k \<in> set [0..<n]. x = ad + of_nat k) \<longleftrightarrow> in_range ad 0 n x" for x
    using in_range_nth [of ad n x] by (metis atLeast0LessThan lessThan_iff set_upt)
  then show ?thesis unfolding fun_eq_iff puts by (auto simp: mem_store_def in_range_def)
qed

lemma amid_fold: "amid (runs fw) us (c, L) (fold (\<lambda>u. u) us c, L)"
  by (induction us arbitrary: c) (auto intro: runs_refl)

lemma nic_memory: "nfp_memory (nic_api fw) mem_dev mem_place (runs fw)"
proof (unfold_locales, goal_cases)
  case (1 s)
  show ?case by (rule runs_refl)
next
  case (2 s s' s'')
  then show ?case by (rule runs_trans)
next
  case (3 cpp i ad n w oa w')
  then have "oa = Some (length (table w))" "w' = w\<lparr> table := table w @ [(i, ad, n)] \<rparr>"
    by (simp_all add: nic_api_def)
  moreover have "mem_place (w\<lparr> table := table w @ [(i, ad, n)] \<rparr>) =
      (mem_place w)(length (table w) \<mapsto> (i, ad))"
    by (rule ext) (simp add: mem_place_def nth_append)
  ultimately show ?case by (simp add: mem_place_def mem_dev_def runs_refl)
next
  case (5 w a i ad off n r w')
  then show ?case
    by (auto simp: nic_api_def mem_place_Some mem_dev_def mem_bytes_def intro: runs_refl
      intro!: exI [of _ "cells w"] exI [of _ "chosen w"])
next
  case (6 w a i ad off r w')
  then show ?case
    by (auto simp: nic_api_def mem_place_Some mem_dev_def intro: runs_refl
      intro!: exI [of _ "cells w"] exI [of _ "chosen w"])
next
  case (7 w a i ad k rc w')
  then show ?case
    using amid_fold [of fw "[store_word i ad k]" "cells w" "chosen w"]
    by (auto simp: nic_api_def mem_place_Some mem_dev_def store_word_def simp del: amid.simps
      intro!: mem_place_table)
next
  case (8 w a i ad n rc w')
  let ?us = "map (\<lambda>k. put i (ad + of_nat k) 0) [0..<n]"
  have "fold (\<lambda>u. u) ?us (cells w) = (cells w)(i := mem_store (cells w i) ad 0 (replicate n 0))"
    using puts_fill [of i ad n "cells w"] by (simp add: fold_map comp_def)
  with amid_fold [of fw ?us "cells w" "chosen w"] 8 show ?case
    by (auto simp: nic_api_def mem_place_Some mem_dev_def fill_words_0 intro!: mem_place_table exI [of _ "[0..<n]"])
next
  case (10 w t)
  then show ?case
    using runs_step [of fw "mem_dev w"]
    by (auto simp: nic_api_def mem_dev_def intro!: mem_place_table split: prod.splits)
qed (simp_all add: nic_api_def runs_refl)

text \<open>A firmware that leaves the memory alone; what its threads had chosen is settled in a step.\<close>

definition idle_firmware :: "dev_state \<Rightarrow> dev_state" where
  "idle_firmware s = (fst s, {})"

definition mem_api :: "mem_world nfp_api" where
  "mem_api = nic_api idle_firmware"

lemma island_id_nic [simp]: "island_id (nic_api fw) = (\<lambda>_ _ _ i. of_int i)"
  by (simp add: nic_api_def)

interpretation quiet_nic: nfp_memory mem_api mem_dev mem_place "runs idle_firmware"
  unfolding mem_api_def by (rule nic_memory)

text \<open>Memory that holds a list of bytes at an address of one island, and zero elsewhere.\<close>

definition mem_at :: "(u32 \<times> u64 \<times> u8 list) list \<Rightarrow> mem_world" where
  "mem_at blocks = \<lparr> cells = foldr (\<lambda>(i, ad, bs) c. c(i := mem_store (c i) ad 0 bs)) blocks (\<lambda>_ _. 0),
     table = [], chosen = {} \<rparr>"

end
