(* ===== verification/Bank_Protocol.thy ===== *)
theory Bank_Protocol
  imports Mem_Device
begin

text \<open>
  What the flow reader and the counter reader share: the two banks the SmartNIC firmware writes in turn,
  the wait for the retired bank to fall idle, and the semaphore words that say which of its slots hold
  a record. A loop that may never end is \<^const>\<open>None\<close>.
\<close>

definition kSemUnlockValue :: u32 where "kSemUnlockValue = 0"
definition kDataClearValue :: u32 where "kDataClearValue = 0"
definition kSemDataReady :: u32 where "kSemDataReady = 3"

text \<open>The two-element arrays of the readers.\<close>

definition bank :: "'a \<times> 'a \<Rightarrow> nat \<Rightarrow> 'a" where
  "bank p i = (if i = 0 then fst p else snd p)"

lemma bank_simps [simp]: "bank (x, y) 0 = x" "bank (x, y) (Suc 0) = y"
  by (simp_all add: bank_def)

subsection \<open>The wait for an idle bank\<close>

text \<open>\<^const>\<open>True\<close> when the count of the bank is zero, \<^const>\<open>False\<close> after a short read.\<close>

partial_function (option) await_idle ::
  "'w nfp_api \<Rightarrow> area \<Rightarrow> nat \<Rightarrow> 'w \<Rightarrow> (bool \<times> 'w) option" where
  "await_idle api proArea off w =
    (case read_exact api proArea off 4 w of
       (None, w) \<Rightarrow> Some (False, w)
     | (Some proValue, w) \<Rightarrow>
         if readLe32 proValue 0 = 0 then Some (True, w)
         else await_idle api proArea off (sleep_ms api 1 w))"

declare await_idle.simps [code]

definition wait_quiescent ::
  "'w nfp_api \<Rightarrow> nfp_cpp \<Rightarrow> u32 \<Rightarrow> u64 \<Rightarrow> nat \<Rightarrow> 'w \<Rightarrow> (bool \<times> 'w) option" where
  "wait_quiescent api cpp proCppId proAddr bufferState w =
    (case open_area api cpp proCppId proAddr 8 w of
       (None, w) \<Rightarrow> Some (False, w)
     | (Some proArea, w) \<Rightarrow>
        (case await_idle api proArea (bufferState * 4) w of
           None \<Rightarrow> None
         | Some (idle, w) \<Rightarrow> Some (idle, area_release_free api proArea w)))"

subsection \<open>The semaphores\<close>

definition ready_slots :: "nat \<Rightarrow> u8 list \<Rightarrow> nat list" where
  "ready_slots slotCount semaphores =
    filter (\<lambda>i. readLe32 semaphores (i * 4) = kSemDataReady) [0..<slotCount]"

definition open_semaphores ::
  "'w nfp_api \<Rightarrow> nfp_cpp \<Rightarrow> u32 \<Rightarrow> u64 \<Rightarrow> nat \<Rightarrow> nat \<Rightarrow> 'w \<Rightarrow> (area \<times> nat list) option \<times> 'w" where
  "open_semaphores api cpp semCppId semAddr slotCount semSize w =
    (case open_area api cpp semCppId semAddr semSize w of
       (None, w) \<Rightarrow> (None, w)
     | (Some semArea, w) \<Rightarrow>
        (case read_exact api semArea 0 semSize w of
           (None, w) \<Rightarrow> (None, area_release_free api semArea w)
         | (Some semaphores, w) \<Rightarrow> (Some (semArea, ready_slots slotCount semaphores), w)))"

text \<open>The loop over the ready slots; a slot that cannot be read is skipped.\<close>

fun read_slots :: "(nat \<Rightarrow> 'w \<Rightarrow> 'e option \<times> 'w) \<Rightarrow> nat list \<Rightarrow> 'w \<Rightarrow> 'e list \<times> 'w" where
  "read_slots rd [] w = ([], w)"
| "read_slots rd (i # is) w =
    (case rd i w of (entry, w) \<Rightarrow>
     case read_slots rd is w of (es, w) \<Rightarrow>
       ((case entry of None \<Rightarrow> es | Some e \<Rightarrow> e # es), w))"

subsection \<open>When the wait ends\<close>

text \<open>One of the first \<open>n + 1\<close> polls finds a count of zero or fails.\<close>

fun idle_after :: "'w nfp_api \<Rightarrow> area \<Rightarrow> nat \<Rightarrow> nat \<Rightarrow> 'w \<Rightarrow> bool" where
  "idle_after api a off 0 w = (case read_exact api a off 4 w of
     (None, w) \<Rightarrow> True | (Some proValue, w) \<Rightarrow> readLe32 proValue 0 = 0)"
| "idle_after api a off (Suc n) w = (idle_after api a off 0 w \<or>
     idle_after api a off n (sleep_ms api 1 (snd (read_exact api a off 4 w))))"

lemma idle_after_returns: "idle_after api a off n w \<Longrightarrow> \<exists>res. await_idle api a off w = Some res"
proof (induction n arbitrary: w)
  case 0
  then show ?case by (subst await_idle.simps) (auto split: prod.splits option.splits)
next
  case (Suc n)
  obtain r w1 where r: "read_exact api a off 4 w = (r, w1)" by (rule prod.exhaust)
  show ?case
  proof (cases "idle_after api a off 0 w")
    case True
    with r show ?thesis by (subst await_idle.simps) (auto split: option.splits)
  next
    case False
    with Suc.prems r have "idle_after api a off n (sleep_ms api 1 w1)" by simp
    from Suc.IH [OF this] obtain res where "await_idle api a off (sleep_ms api 1 w1) = Some res" ..
    with r show ?thesis by (subst await_idle.simps) (auto split: option.splits)
  qed
qed

lemma returns_idle_after:
  assumes "await_idle api a off w = Some res"
  shows "\<exists>n. idle_after api a off n w"
proof -
  define P where "P = (\<lambda>(api' :: 'a nfp_api) a' off' w (res :: bool \<times> 'a). \<exists>n. idle_after api' a' off' n w)"
  have "P api a off w res"
  proof (rule await_idle.raw_induct [OF _ assms], goal_cases)
    case (1 loop api' a' off' w res)
    obtain r w1 where r: "read_exact api' a' off' 4 w = (r, w1)" by (rule prod.exhaust)
    show ?case
    proof (cases "idle_after api' a' off' 0 w")
      case True
      then show ?thesis unfolding P_def by blast
    next
      case False
      with 1(2) r have "loop api' a' off' (sleep_ms api' 1 w1) = Some res"
        by (auto split: option.splits if_splits)
      from 1(1) [OF this] obtain n where "idle_after api' a' off' n (sleep_ms api' 1 w1)"
        unfolding P_def by blast
      with r have "idle_after api' a' off' (Suc n) w" by simp
      then show ?thesis unfolding P_def by blast
    qed
  qed
  then show ?thesis by (simp add: P_def)
qed

text \<open>
  The wait for an idle bank has no bound of its own: it returns exactly when some poll finds the firmware's
  count at zero or fails.
\<close>

lemma await_idle_returns:
  "await_idle api proArea off w \<noteq> None \<longleftrightarrow> (\<exists>n. idle_after api proArea off n w)"
  using idle_after_returns returns_idle_after by (metis not_Some_eq)

subsection \<open>Areas\<close>

text \<open>The wait ends with a read, of a zero or cut short, from a state it reaches.\<close>

lemma await_idle_result:
  assumes rd: "\<And>w r w'. I w \<Longrightarrow> read_exact api a off 4 w = (r, w') \<Longrightarrow> I w'"
    and sl: "\<And>w. I w \<Longrightarrow> I (sleep_ms api 1 w)"
    and run: "await_idle api a off w = Some (b, w')" and "I w"
  shows "\<exists>v r. I v \<and> read_exact api a off 4 v = (r, w') \<and> b = (r \<noteq> None) \<and>
    (\<forall>bytes. r = Some bytes \<longrightarrow> readLe32 bytes 0 = 0)"
proof -
  define P where "P = (\<lambda>(api' :: 'a nfp_api) a' off' w (res :: bool \<times> 'a).
    api' = api \<longrightarrow> a' = a \<longrightarrow> off' = off \<longrightarrow> I w \<longrightarrow>
    (\<exists>v r. I v \<and> read_exact api a off 4 v = (r, snd res) \<and> fst res = (r \<noteq> None) \<and>
      (\<forall>bytes. r = Some bytes \<longrightarrow> readLe32 bytes 0 = 0)))"
  have "P api a off w (b, w')"
  proof (rule await_idle.raw_induct [OF _ run], goal_cases)
    case (1 loop api' a' off' w res)
    show ?case
      unfolding P_def
    proof (intro impI)
      assume e: "api' = api" "a' = a" "off' = off" and i: "I w"
      obtain r w1 where r: "read_exact api a off 4 w = (r, w1)" by (rule prod.exhaust)
      have i1: "I w1" by (rule rd [OF i r])
      show "\<exists>v r. I v \<and> read_exact api a off 4 v = (r, snd res) \<and> fst res = (r \<noteq> None) \<and>
        (\<forall>bytes. r = Some bytes \<longrightarrow> readLe32 bytes 0 = 0)"
      proof (cases "\<forall>bytes. r = Some bytes \<longrightarrow> readLe32 bytes 0 = 0")
        case True
        then have "res = (r \<noteq> None, w1)" using 1(2) e r by (cases r) auto
        with i r True show ?thesis by (intro exI [of _ w] exI [of _ r]) simp
      next
        case False
        with 1(2) e r have "loop api a off (sleep_ms api 1 w1) = Some res" by auto
        from 1(1) [OF this] sl [OF i1] show ?thesis by (simp add: P_def)
      qed
    qed
  qed
  with \<open>I w\<close> show ?thesis by (simp add: P_def)
qed

lemma await_idle_inv:
  assumes rd: "\<And>w r w'. I w \<Longrightarrow> read_exact api a off 4 w = (r, w') \<Longrightarrow> I w'"
    and sl: "\<And>w. I w \<Longrightarrow> I (sleep_ms api 1 w)"
    and run: "await_idle api a off w = Some (b, w')" and "I w"
  shows "I w'"
proof -
  have "\<exists>v r. I v \<and> read_exact api a off 4 v = (r, w') \<and> b = (r \<noteq> None) \<and>
      (\<forall>bytes. r = Some bytes \<longrightarrow> readLe32 bytes 0 = 0)"
    by (rule await_idle_result [where I = I]) (fact rd, fact sl, fact run, fact \<open>I w\<close>)
  then obtain v r where "I v" "read_exact api a off 4 v = (r, w')" by blast
  then show ?thesis by (rule rd)
qed

lemma wait_quiescent_holds:
  assumes "wait_quiescent (traced api) cpp i ad b w = Some (idle, w')" "holds B w"
  shows "holds B w'"
proof -
  obtain r w1 where op: "open_area (traced api) cpp i ad 8 w = (r, w1)" by (rule prod.exhaust)
  note h1 = open_area_holds [OF op assms(2)]
  show ?thesis
  proof (cases r)
    case None
    with assms(1) op h1 show ?thesis by (simp add: wait_quiescent_def)
  next
    case (Some a)
    with assms(1) op obtain w2 where aw: "await_idle (traced api) a (b * 4) w1 = Some (idle, w2)"
      and w': "w' = area_release_free (traced api) a w2"
      by (auto simp: wait_quiescent_def split: option.splits)
    have "holds (add_mset a B) w2"
      by (rule await_idle_inv [OF _ _ aw]) (use h1 Some in \<open>auto simp: sleep_holds intro: read_exact_holds\<close>)
    then show ?thesis unfolding w' by (rule release_holds)
  qed
qed

lemma open_semaphores_holds:
  assumes "open_semaphores (traced api) cpp i ad n k w = (r, w')" "holds B w"
  shows "holds (case r of None \<Rightarrow> B | Some (a, is) \<Rightarrow> add_mset a B) w'"
proof -
  obtain r1 w1 where op: "open_area (traced api) cpp i ad k w = (r1, w1)" by (rule prod.exhaust)
  note h1 = open_area_holds [OF op assms(2)]
  show ?thesis
  proof (cases r1)
    case None
    with assms(1) op h1 show ?thesis by (auto simp: open_semaphores_def)
  next
    case (Some a)
    obtain r2 w2 where rd: "read_exact (traced api) a 0 k w1 = (r2, w2)" by (rule prod.exhaust)
    have h2: "holds (add_mset a B) w2" using read_exact_holds [OF rd] h1 Some by simp
    with assms(1) op rd Some show ?thesis
      by (cases r2) (auto simp: open_semaphores_def intro: release_holds)
  qed
qed

lemma read_slots_inv:
  assumes "\<And>i w e w'. I w \<Longrightarrow> rd i w = (e, w') \<Longrightarrow> I w'"
    and "read_slots rd is w = (es, w')" "I w"
  shows "I w'"
  using assms(2,3)
proof (induction "is" arbitrary: w es)
  case (Cons i "is")
  obtain e w1 where e: "rd i w = (e, w1)" by (rule prod.exhaust)
  obtain es1 w2 where es: "read_slots rd is w1 = (es1, w2)" by (rule prod.exhaust)
  have "w2 = w'" using Cons.prems(1) e es by simp
  with es have "read_slots rd is w1 = (es1, w')" by simp
  from Cons.IH [OF this assms(1) [OF Cons.prems(2) e]] show ?case .
qed simp

subsection \<open>Logs without fills\<close>

fun is_fill :: "call \<Rightarrow> bool" where
  "is_fill (CFill _ _ _ _) = True"
| "is_fill _ = False"

text \<open>\<open>w'\<close> continues the log of \<open>w\<close> without a fill.\<close>

definition quiet :: "'w \<times> call list \<Rightarrow> 'w \<times> call list \<Rightarrow> bool" where
  "quiet w w' \<longleftrightarrow> (\<exists>new. snd w' = new @ snd w \<and> (\<forall>c \<in> set new. \<not> is_fill c))"

lemma quiet_refl [simp]: "quiet w w"
  by (simp add: quiet_def)

lemma quiet_trans: "quiet w1 w2 \<Longrightarrow> quiet w2 w3 \<Longrightarrow> quiet w1 w3"
  unfolding quiet_def by (metis (no_types, lifting) Un_iff append_assoc set_append)

lemma quiet_cons: "snd w' = c # snd w \<Longrightarrow> \<not> is_fill c \<Longrightarrow> quiet w w'"
  unfolding quiet_def by (intro exI [of _ "[c]"]) simp

lemma quiet_calls:
  "area_alloc (traced api) cpp i ad n w = (oa, w') \<Longrightarrow> quiet w w'"
  "area_acquire (traced api) a w = (rc, w') \<Longrightarrow> quiet w w'"
  "area_read (traced api) a off n w = (rr, w') \<Longrightarrow> quiet w w'"
  "area_write (traced api) a off bs w = (rc, w') \<Longrightarrow> quiet w w'"
  "quiet w (area_free (traced api) a w)"
  "quiet w (area_release_free (traced api) a w)"
  "quiet w (sleep_ms (traced api) t w)"
  by (cases w, auto intro!: quiet_cons simp: quiet_def)+

lemma open_area_quiet:
  assumes "open_area (traced api) cpp i ad n w = (r, w')"
  shows "quiet w w'"
proof -
  obtain oa w1 where al: "area_alloc (traced api) cpp i ad n w = (oa, w1)" by (rule prod.exhaust)
  note q = quiet_calls(1) [OF al]
  show ?thesis
  proof (cases oa)
    case None
    with assms al q show ?thesis by (simp add: open_area_def)
  next
    case (Some a)
    obtain rc w2 where ac: "area_acquire (traced api) a w1 = (rc, w2)" by (rule prod.exhaust)
    have "quiet w w2" by (rule quiet_trans [OF q quiet_calls(2) [OF ac]])
    moreover have "w' = w2 \<or> w' = area_free (traced api) a w2"
      using assms al ac Some by (auto simp: open_area_def split: if_splits)
    ultimately show ?thesis using quiet_trans [OF _ quiet_calls(5)] by metis
  qed
qed

lemma read_exact_quiet:
  assumes "read_exact (traced api) a off n w = (r, w')"
  shows "quiet w w'"
proof -
  obtain rr w1 where rd: "area_read (traced api) a off n w = (rr, w1)" by (rule prod.exhaust)
  with assms have "w' = w1" by (auto simp: read_exact_def split: prod.splits if_splits)
  with quiet_calls(3) [OF rd] show ?thesis by simp
qed

lemma wait_quiescent_quiet:
  assumes "wait_quiescent (traced api) cpp i ad b w = Some (idle, w')"
  shows "quiet w w'"
proof -
  obtain r w1 where op: "open_area (traced api) cpp i ad 8 w = (r, w1)" by (rule prod.exhaust)
  note h1 = open_area_quiet [OF op]
  show ?thesis
  proof (cases r)
    case None
    with assms(1) op h1 show ?thesis by (simp add: wait_quiescent_def)
  next
    case (Some a)
    with assms(1) op obtain w2 where aw: "await_idle (traced api) a (b * 4) w1 = Some (idle, w2)"
      and w': "w' = area_release_free (traced api) a w2"
      by (auto simp: wait_quiescent_def split: option.splits)
    have "quiet w w2"
    proof (rule await_idle_inv [OF _ _ aw])
      show "quiet w v'" if "quiet w v" "read_exact (traced api) a (b * 4) 4 v = (r, v')" for v r v'
        by (rule quiet_trans [OF that(1) read_exact_quiet [OF that(2)]])
      show "quiet w (sleep_ms (traced api) 1 v)" if "quiet w v" for v
        by (rule quiet_trans [OF that quiet_calls(7)])
    qed (rule h1)
    then show ?thesis unfolding w' by (rule quiet_trans [OF _ quiet_calls(6)])
  qed
qed

lemma open_semaphores_quiet:
  assumes "open_semaphores (traced api) cpp i ad n k w = (r, w')"
  shows "quiet w w'"
proof -
  obtain r1 w1 where op: "open_area (traced api) cpp i ad k w = (r1, w1)" by (rule prod.exhaust)
  note h1 = open_area_quiet [OF op]
  show ?thesis
  proof (cases r1)
    case None
    with assms(1) op h1 show ?thesis by (auto simp: open_semaphores_def)
  next
    case (Some a)
    obtain r2 w2 where rd: "read_exact (traced api) a 0 k w1 = (r2, w2)" by (rule prod.exhaust)
    have h2: "quiet w w2" by (rule quiet_trans [OF h1 read_exact_quiet [OF rd]])
    with assms(1) op rd Some quiet_trans [OF h2 quiet_calls(6)] show ?thesis
      by (cases r2) (auto simp: open_semaphores_def)
  qed
qed

subsection \<open>Against device memory\<close>

definition word_at :: "(u64 \<Rightarrow> u8) \<Rightarrow> u64 \<Rightarrow> u32" where
  "word_at c ad = readLe32 (mem_bytes c ad 0 4) 0"

lemma word_in_block:
  assumes "i < n"
  shows "readLe32 (mem_bytes c ad 0 (n * 4)) (i * 4) = word_at c (ad + of_nat (i * 4))"
proof -
  have "take 4 (drop (i * 4) [0..<n * 4]) = map (\<lambda>k. i * 4 + k) [0..<4]"
    using assms by (intro nth_equalityI) auto
  then have "take 4 (drop (i * 4) (mem_bytes c ad 0 (n * 4))) = mem_bytes c (ad + of_nat (i * 4)) 0 4"
    unfolding mem_bytes_def take_map drop_map by (simp add: algebra_simps)
  then show ?thesis by (simp add: word_at_def readLe32_def le_field_def)
qed

lemma readLe32_le_bytes4: "k < 2 ^ 32 \<Longrightarrow> readLe32 (le_bytes 4 k) 0 = of_nat k"
  by (simp add: readLe32_def le_field_here_end)

lemma word_at_stored: "k < 2 ^ 32 \<Longrightarrow> word_at (store_word i ad k c i) ad = of_nat k"
  using mem_bytes_store [of "le_bytes 4 k" "c i" ad]
  by (simp add: word_at_def store_word_def readLe32_le_bytes4)

lemma word_at_agree:
  assumes "agree_off S c d" "S \<inter> region i ad 4 = {}"
  shows "word_at (c i) ad = word_at (d i) ad"
  unfolding word_at_def agree_off_bytes [OF assms, of 0 4, simplified] ..

text \<open>
  The words the two sides share, each given by its island and address: the active bank is the last bit of
  the state word, and each bank has a count of the firmware threads that work in it. A bank is at rest when it is not the active one, no thread has
  chosen it earlier, and its count is zero.
\<close>

definition active_of :: "u32 \<times> u64 \<Rightarrow> mem \<Rightarrow> nat" where
  "active_of sta c = unat (word_at (c (fst sta)) (snd sta)) mod 2"

definition count_of :: "u32 \<times> u64 \<Rightarrow> mem \<Rightarrow> nat \<Rightarrow> u32" where
  "count_of pro c b = readLe32 (mem_bytes (c (fst pro)) (snd pro) (b * 4) 4) 0"

definition at_rest :: "u32 \<times> u64 \<Rightarrow> u32 \<times> u64 \<Rightarrow> nat \<Rightarrow> dev_state \<Rightarrow> bool" where
  "at_rest sta pro b s \<longleftrightarrow> active_of sta (fst s) \<noteq> b \<and> b \<notin> snd s \<and> count_of pro (fst s) b = 0"

definition words_apart :: "u32 \<times> u64 \<Rightarrow> u32 \<times> u64 \<Rightarrow> (u32 \<times> u64) set \<Rightarrow> bool" where
  "words_apart sta pro S \<longleftrightarrow> region (fst sta) (snd sta) 4 \<inter> S = {} \<and> region (fst pro) (snd pro) 8 \<inter> S = {} \<and>
     region (fst sta) (snd sta) 4 \<inter> region (fst pro) (snd pro) 8 = {}"

lemma words_apart_subset: "words_apart sta pro S \<Longrightarrow> S' \<subseteq> S \<Longrightarrow> words_apart sta pro S'"
  by (auto simp: words_apart_def)

lemma active_of_agree:
  "agree_off S c d \<Longrightarrow> S \<inter> region (fst sta) (snd sta) 4 = {} \<Longrightarrow> active_of sta c = active_of sta d"
  by (simp add: active_of_def word_at_agree)

lemma count_of_agree:
  assumes "agree_off S c d" "S \<inter> region (fst pro) (snd pro) 8 = {}" "b < 2"
  shows "count_of pro c b = count_of pro d b"
  unfolding count_of_def by (subst agree_off_bytes [OF assms(1,2)]) (use assms(3) in simp_all)

lemma active_of_less: "active_of sta c < 2"
  by (simp add: active_of_def)

lemma active_of_stored:
  "k < 2 \<Longrightarrow> active_of sta (store_word (fst sta) (snd sta) k c) = k"
  by (simp add: active_of_def word_at_stored unat_of_nat)

text \<open>
  The firmware's side of the protocol, over the memory \<open>bnk b\<close> of each bank. It never writes the state
  word; a thread chooses the bank that is active at that moment, and has begun (or dropped its choice) before the
  program has slept a millisecond; a bank at rest is left alone.
\<close>

locale nfp_firmware = nfp_memory +
  fixes sta pro :: "u32 \<times> u64"
    and bnk :: "nat \<Rightarrow> (u32 \<times> u64) set"
  assumes aligned: "4 dvd unat (snd sta)" "4 dvd unat (snd pro)"
    and state_law: "rely s s' \<Longrightarrow> word_at (fst s' (fst sta)) (snd sta) = word_at (fst s (fst sta)) (snd sta)"
    and choice_law: "rely s s' \<Longrightarrow> snd s' \<subseteq> insert (active_of sta (fst s)) (snd s)"
    and settle_law: "0 < t \<Longrightarrow> snd (dev (sleep_ms api t w)) \<subseteq> {active_of sta (fst (dev w))}"
    and rest_law: "rely s s' \<Longrightarrow> b < 2 \<Longrightarrow> at_rest sta pro b s \<Longrightarrow> (i, x) \<in> bnk b \<Longrightarrow> fst s' i x = fst s i x"
    and count_law: "rely s s' \<Longrightarrow> b < 2 \<Longrightarrow> at_rest sta pro b s \<Longrightarrow> count_of pro (fst s') b = 0"

context nfp_memory
begin

text \<open>The wait ends with a full read, and the word it polls was zero at a moment of that read.\<close>

lemma await_idle_law:
  assumes "await_idle api a off w = Some (idle, w')" "place w a = Some (i, ad)"
  shows "idle \<and> rely (dev w) (dev w') \<and>
    (4 dvd unat ad + off \<longrightarrow>
      (\<exists>s. rely (dev w) s \<and> rely s (dev w') \<and> readLe32 (mem_bytes (fst s i) ad off 4) 0 = 0))"
proof -
  let ?I = "\<lambda>v. place v = place w \<and> rely (dev w) (dev v)"
  have rd: "?I v' \<and> r \<noteq> None" if v: "?I v" and r: "read_exact api a off 4 v = (r, v')" for v r v'
    using read_exact_law [of v a i ad 4 off] v r assms(2) rely_trans [of "dev w" "dev v" "dev v'"] by auto
  have sl: "?I (sleep_ms api 1 v)" if "?I v" for v
    using sleep_law [of v 1] that rely_trans [of "dev w" "dev v" "dev (sleep_ms api 1 v)"] by simp
  have "\<exists>v r. ?I v \<and> read_exact api a off 4 v = (r, w') \<and> idle = (r \<noteq> None) \<and>
      (\<forall>bytes. r = Some bytes \<longrightarrow> readLe32 bytes 0 = 0)"
  proof (rule await_idle_result [OF _ _ assms(1)])
    show "?I v'" if "?I v" "read_exact api a off 4 v = (r, v')" for v r v' using rd [OF that] by simp
    show "?I (sleep_ms api 1 v)" if "?I v" for v by (rule sl [OF that])
  qed (simp add: rely_refl)
  then obtain v r where v: "?I v" "read_exact api a off 4 v = (r, w')" "idle = (r \<noteq> None)"
    "\<forall>bytes. r = Some bytes \<longrightarrow> readLe32 bytes 0 = 0" by blast
  have "\<exists>s. rely (dev w) s \<and> rely s (dev w') \<and> readLe32 (mem_bytes (fst s i) ad off 4) 0 = 0"
    if "4 dvd unat ad + off"
  proof -
    have "place v a = Some (i, ad)" using v(1) assms(2) by simp
    from read_word_law [OF this that] v(2) obtain s where
      s: "r = Some (mem_bytes (fst s i) ad off 4)" "rely (dev v) s" "rely s (dev w')" by auto
    have "rely (dev w) s" by (rule rely_trans [OF conjunct2 [OF v(1)] s(2)])
    with s v(4) show ?thesis by blast
  qed
  with rd [OF v(1,2)] v(3) show ?thesis by blast
qed

lemma wait_quiescent_law:
  assumes "wait_quiescent api cpp i ad b w = Some (idle, w')"
  shows "idle \<and> rely (dev w) (dev w') \<and>
    (4 dvd unat ad \<longrightarrow> (\<exists>s. rely (dev w) s \<and> rely s (dev w') \<and> count_of (i, ad) (fst s) b = 0))"
proof -
  obtain a w1 where op: "open_area api cpp i ad 8 w = (Some a, w1)" "place w1 = (place w)(a \<mapsto> (i, ad))"
      "rely (dev w) (dev w1)"
    using open_law by blast
  with assms obtain w2 where aw: "await_idle api a (b * 4) w1 = Some (idle, w2)"
    and w': "w' = area_release_free api a w2"
    by (auto simp: wait_quiescent_def split: option.splits)
  have "place w1 a = Some (i, ad)" using op(2) by simp
  note A = await_idle_law [OF aw this]
  have rel: "rely (dev w2) (dev w')" using release_law by (simp add: w')
  have "\<exists>s. rely (dev w) s \<and> rely s (dev w') \<and> count_of (i, ad) (fst s) b = 0" if "4 dvd unat ad"
  proof -
    from A that obtain s where s: "rely (dev w1) s" "rely s (dev w2)" "count_of (i, ad) (fst s) b = 0"
      by (auto simp: count_of_def)
    from rely_trans [OF s(2) rel] rely_trans [OF op(3) s(1)] s(3) show ?thesis by blast
  qed
  with A rely_trans [OF rely_trans [OF op(3)] rel] show ?thesis by blast
qed

end

context nfp_firmware
begin

text \<open>A bank at rest stays at rest and keeps its memory, until the program itself clears it.\<close>

lemma active_stays: "rely s s' \<Longrightarrow> active_of sta (fst s') = active_of sta (fst s)"
  by (simp add: active_of_def state_law)

definition kept :: "nat \<Rightarrow> dev_state \<Rightarrow> dev_state \<Rightarrow> bool" where
  "kept b s s' \<longleftrightarrow> at_rest sta pro b s' \<and> (\<forall>i x. (i, x) \<in> bnk b \<longrightarrow> fst s' i x = fst s i x)"

lemma kept_trans: "kept b s s' \<Longrightarrow> kept b s' s'' \<Longrightarrow> kept b s s''"
  by (simp add: kept_def)

lemma rest_kept:
  assumes "rely s s'" "b < 2" "at_rest sta pro b s"
  shows "kept b s s'"
proof -
  have "b \<notin> snd s'" using choice_law [OF assms(1)] assms(3) by (auto simp: at_rest_def)
  then have "at_rest sta pro b s'"
    using count_law [OF assms] active_stays [OF assms(1)] assms(3) by (simp add: at_rest_def)
  with rest_law [OF assms] show ?thesis by (simp add: kept_def)
qed

lemma kept_rely: "kept b s s' \<Longrightarrow> rely s' s'' \<Longrightarrow> b < 2 \<Longrightarrow> kept b s s''"
  by (rule kept_trans [OF _ rest_kept]) (auto simp: kept_def)

lemma env_agree: "rely s s' \<Longrightarrow> agree_off (volatile rely) (fst s') (fst s)"
  by (rule rely_agree [of rely])

lemma put_rest:
  assumes "at_rest sta pro b (c, L)" "words_apart sta pro (bnk b)" "(i, x) \<in> bnk b" "b < 2"
  shows "at_rest sta pro b (put i x v c, L)"
proof -
  note ag = put_agree [of i x v c]
  have "{(i, x)} \<inter> region (fst sta) (snd sta) 4 = {}" "{(i, x)} \<inter> region (fst pro) (snd pro) 8 = {}"
    using assms(2,3) unfolding words_apart_def by blast+
  from active_of_agree [OF ag this(1)] count_of_agree [OF ag this(2) assms(4)] assms(1)
  show ?thesis by (simp add: at_rest_def)
qed

lemma zeros_law:
  assumes "amid rely (map (\<lambda>k. put i (ad + of_nat k) 0) ks) s s'" "at_rest sta pro b s" "b < 2"
    and "words_apart sta pro (bnk b)" "\<And>k. k \<in> set ks \<Longrightarrow> (i, ad + of_nat k) \<in> bnk b"
  shows "at_rest sta pro b s' \<and>
    (\<forall>j x. (j, x) \<in> bnk b \<longrightarrow> fst s' j x = (if j = i \<and> (\<exists>k \<in> set ks. x = ad + of_nat k) then 0 else fst s j x)) \<and>
    agree_off (volatile rely \<union> bnk b) (fst s') (fst s)"
  using assms(1,2,5)
proof (induction ks arbitrary: s)
  case Nil
  then have "rely s s'" by simp
  with rest_kept [OF this assms(3) Nil(2)] env_agree [OF this] show ?case
    by (auto simp: kept_def intro: agree_off_mono)
next
  case (Cons k ks)
  obtain c L where env: "rely s (c, L)" and
    tl: "amid rely (map (\<lambda>k. put i (ad + of_nat k) 0) ks) (put i (ad + of_nat k) 0 c, L) s'"
    using Cons.prems(1) by auto
  note K = rest_kept [OF env assms(3) Cons.prems(2)]
  let ?s = "(put i (ad + of_nat k) 0 c, L)"
  have rest: "at_rest sta pro b ?s"
    by (rule put_rest [OF _ assms(4) _ assms(3)]) (use K Cons.prems(3) in \<open>simp_all add: kept_def\<close>)
  note IH = Cons.IH [OF tl rest Cons.prems(3) [OF list.set_intros(2)]]
  have "agree_off (bnk b) (put i (ad + of_nat k) 0 c) c"
    by (rule agree_off_mono [OF put_agree]) (use Cons.prems(3) in simp)
  from agree_off_trans [OF this env_agree [OF env, unfolded fst_conv]] IH
  have "agree_off (volatile rely \<union> bnk b \<union> (bnk b \<union> volatile rely)) (fst s') (fst s)"
    using agree_off_trans by fastforce
  then have "agree_off (volatile rely \<union> bnk b) (fst s') (fst s)" by (rule agree_off_mono) blast
  with IH K show ?case by (auto simp: kept_def put_apply)
qed

lemma fill_rest:
  assumes "area_fill api a 0 0 n w = (rc, w')" "place w a = Some (i, ad)" "4 dvd n" "n < 2 ^ 64"
    and "at_rest sta pro b (dev w)" "b < 2" "words_apart sta pro (bnk b)" "region i ad n \<subseteq> bnk b"
  shows "place w' = place w \<and> at_rest sta pro b (dev w') \<and>
    (\<forall>j x. (j, x) \<in> bnk b \<longrightarrow> fst (dev w') j x = (if (j, x) \<in> region i ad n then 0 else fst (dev w) j x)) \<and>
    agree_off (volatile rely \<union> bnk b) (fst (dev w')) (fst (dev w))"
proof -
  obtain ks where ks: "set ks = {..<n}" "amid rely (map (\<lambda>k. put i (ad + of_nat k) 0) ks) (dev w) (dev w')"
    and pl: "place w' = place w" using fill_law [OF assms(2,3,1)] by blast
  have sub: "(i, ad + of_nat k) \<in> bnk b" if "k \<in> set ks" for k
    using that ks(1) assms(8) in_range_offset [OF _ assms(4), of k ad] by (auto simp: subset_eq)
  have "(\<exists>k \<in> set ks. x = ad + of_nat k) \<longleftrightarrow> in_range ad 0 n x" for x
    using in_range_nth [of ad n x] in_range_offset [OF _ assms(4), of _ ad] by (auto simp: ks(1))
  with zeros_law [OF ks(2) assms(5,6,7) sub] pl show ?thesis by simp
qed

text \<open>At rest a read of any length is as good as one access.\<close>

lemma read_rest:
  assumes "place w a = Some (i, ad)" "n < 2 ^ 31" "off + n \<le> N" "N < 2 ^ 64" "region i ad N \<subseteq> bnk b"
    and "kept b m (dev w)" "b < 2"
  shows "\<exists>w'. read_exact api a off n w = (Some (mem_bytes (fst m i) ad off n), w') \<and> place w' = place w \<and>
    rely (dev w) (dev w') \<and> kept b m (dev w')"
proof -
  obtain bs w' where r: "read_exact api a off n w = (Some bs, w')" "place w' = place w" "rely (dev w) (dev w')"
    "length bs = n" and bs: "\<And>k. k < n \<Longrightarrow> \<exists>s. rely (dev w) s \<and> rely s (dev w') \<and> bs ! k = fst s i (ad + of_nat off + of_nat k)"
    using read_exact_law [OF assms(1,2), of off] by blast
  have "bs = mem_bytes (fst m i) ad off n"
  proof (rule nth_equalityI)
    fix k assume "k < length bs"
    then have k: "k < n" by (simp add: r(4))
    from bs [OF k] obtain s where s: "rely (dev w) s" "bs ! k = fst s i (ad + of_nat off + of_nat k)" by blast
    have "in_range ad 0 N (ad + of_nat (off + k))" using k assms(3,4) by (intro in_range_offset) auto
    then have "(i, ad + of_nat off + of_nat k) \<in> bnk b" using assms(5) by (auto simp: subset_eq add.assoc)
    with kept_rely [OF assms(6) s(1) assms(7)] s(2) k show "bs ! k = mem_bytes (fst m i) ad off n ! k"
      by (simp add: kept_def mem_bytes_def)
  qed (simp add: r(4))
  with r kept_rely [OF assms(6) r(3) assms(7)] show ?thesis by (intro exI [of _ w']) simp
qed

lemma open_semaphores_rest:
  assumes "k < 2 ^ 31" "region i ad k \<subseteq> bnk b" "kept b m (dev w)" "b < 2"
  shows "\<exists>a w'. open_semaphores api cpp i ad n k w =
      (Some (a, ready_slots n (mem_bytes (fst m i) ad 0 k)), w') \<and> place w' a = Some (i, ad) \<and>
    rely (dev w) (dev w') \<and> kept b m (dev w')"
proof -
  obtain a w1 where op: "open_area api cpp i ad k w = (Some a, w1)" "place w1 = (place w)(a \<mapsto> (i, ad))"
      "rely (dev w) (dev w1)"
    using open_law by blast
  then have pl: "place w1 a = Some (i, ad)" by simp
  have k1: "kept b m (dev w1)" by (rule kept_rely [OF assms(3) op(3) assms(4)])
  obtain w2 where rd: "read_exact api a 0 k w1 = (Some (mem_bytes (fst m i) ad 0 k), w2)" "place w2 = place w1"
    "rely (dev w1) (dev w2)" "kept b m (dev w2)"
    using read_rest [OF pl assms(1) _ _ assms(2) k1 assms(4), of 0] assms(1) by auto
  with op(1) pl rely_trans [OF op(3) rd(3)] show ?thesis by (simp add: open_semaphores_def)
qed

end

subsection \<open>The idle firmware keeps the protocol\<close>

lemma runs_idle: "runs idle_firmware s s' \<Longrightarrow> s' = s \<or> s' = (fst s, {})"
  by (rule runs_inv [where fw = idle_firmware and s = s]) (auto simp: idle_firmware_def)

lemma idle_protocol:
  assumes "4 dvd unat (snd sta)" "4 dvd unat (snd pro)"
  shows "nfp_firmware mem_api mem_dev mem_place (runs idle_firmware) sta pro bnk"
proof (unfold_locales, goal_cases)
  case (5 t w)
  show ?case by (simp add: mem_api_def nic_api_def mem_dev_def idle_firmware_def)
qed (use assms in \<open>auto dest!: runs_idle simp: at_rest_def\<close>)

interpretation quiet_banks: nfp_firmware mem_api mem_dev mem_place "runs idle_firmware" "(1, 0)" "(1, 16)" "\<lambda>_. {}"
  by (rule idle_protocol) simp_all

end
