(* ===== verification/Flow_Reader.thy ===== *)
theory Flow_Reader
  imports Bank_Protocol
begin

text \<open>
  \<^verbatim>\<open>SmartNicReader\<close> (\<^verbatim>\<open>src/Reader.cpp\<close>): switches the firmware to the other bank, waits for the retired
  bank to fall idle, reads the flow records of its ready slots and clears it.
\<close>

subsection \<open>The records on the wire\<close>

record stored_flow_key =
  src_ip :: u32
  dst_ip :: u32
  sampling_rate :: u32
  agent_ip :: u32
  in_if :: u16
  out_if :: u16
  src_port :: u16
  dst_port :: u16
  protocol :: u32
  tcp_flag :: u32

record mac_time_data =
  sec :: u32
  nsec :: u32

record stored_flow_data =
  byte_cnt :: u64
  packet_cnt :: u64
  start_time :: mac_time_data
  end_time :: mac_time_data

record flow_data =
  fd_key :: stored_flow_key
  fd_data :: stored_flow_data
  fd_index :: u32

definition sizeof_stored_flow_key :: nat where "sizeof_stored_flow_key = 32"
definition sizeof_stored_flow_data :: nat where "sizeof_stored_flow_data = 32"

definition decode_flow_key :: "u8 list \<Rightarrow> stored_flow_key" where
  "decode_flow_key bs = \<lparr> src_ip = readLe32 bs 0, dst_ip = readLe32 bs 4, sampling_rate = readLe32 bs 8,
     agent_ip = readLe32 bs 12, in_if = readLe16 bs 16, out_if = readLe16 bs 18, src_port = readLe16 bs 20,
     dst_port = readLe16 bs 22, protocol = readLe32 bs 24, tcp_flag = readLe32 bs 28 \<rparr>"

definition decode_mac_time :: "u8 list \<Rightarrow> nat \<Rightarrow> mac_time_data" where
  "decode_mac_time bs off = \<lparr> sec = readLe32 bs off, nsec = readLe32 bs (off + 4) \<rparr>"

definition decode_flow_data :: "u8 list \<Rightarrow> stored_flow_data" where
  "decode_flow_data bs = \<lparr> byte_cnt = readLe64 bs 0, packet_cnt = readLe64 bs 8,
     start_time = decode_mac_time bs 16, end_time = decode_mac_time bs 24 \<rparr>"

subsection \<open>State\<close>

record SmartNicReader =
  sr_cpp :: "nfp_cpp option"
  sr_semAddr :: "u64 \<times> u64"
  sr_keyAddr :: "u64 \<times> u64"
  sr_dataAddr :: "u64 \<times> u64"
  sr_semCppId :: "u32 \<times> u32"
  sr_keyCppId :: "u32 \<times> u32"
  sr_dataCppId :: "u32 \<times> u32"
  sr_staAddr :: u64
  sr_proAddr :: u64
  sr_staCppId :: u32
  sr_proCppId :: u32
  sr_semSize :: nat
  sr_keySize :: nat
  sr_dataSize :: nat
  sr_slotCount :: nat
  sr_bufferState :: nat

definition new_SmartNicReader ::
  "'w nfp_api \<Rightarrow> nfp_cpp option \<Rightarrow> u64 \<Rightarrow> u64 \<Rightarrow> u64 \<Rightarrow> u64 \<Rightarrow> u64 \<Rightarrow> u64 \<Rightarrow> u64 \<Rightarrow> u64 \<Rightarrow> u64 \<Rightarrow> u64 \<Rightarrow>
    u32 \<Rightarrow> u32 \<Rightarrow> u32 \<Rightarrow> u32 \<Rightarrow> u32 \<Rightarrow> u32 \<Rightarrow> nat \<Rightarrow> SmartNicReader" where
  "new_SmartNicReader api cpp staAddr staIsland proAddr proIsland semAddr0 semAddr1 keyAddr0 keyAddr1
      dataAddr0 dataAddr1 semIsland0 keyIsland0 dataIsland0 semIsland1 keyIsland1 dataIsland1 slotCount =
    (let cid = (\<lambda>island. island_id api kCppTargetMem kCppActionReadWrite 0 island) in
     \<lparr> sr_cpp = cpp, sr_semAddr = (semAddr0, semAddr1), sr_keyAddr = (keyAddr0, keyAddr1),
       sr_dataAddr = (dataAddr0, dataAddr1),
       sr_semCppId = (cid (uint semIsland0), cid (uint semIsland1)),
       sr_keyCppId = (cid (uint keyIsland0), cid (uint keyIsland1)),
       sr_dataCppId = (cid (uint dataIsland0), cid (uint dataIsland1)),
       sr_staAddr = staAddr, sr_proAddr = proAddr,
       sr_staCppId = cid (uint staIsland), sr_proCppId = cid (uint proIsland),
       sr_semSize = slotCount * 4, sr_keySize = slotCount * sizeof_stored_flow_key,
       sr_dataSize = slotCount * sizeof_stored_flow_data,
       sr_slotCount = slotCount, sr_bufferState = 0 \<rparr>)"

subsection \<open>Reading\<close>

text \<open>
  Steps 1 and 2: read the active bank, publish the other one. The result is the bank to read, \<^const>\<open>None\<close>
  for an early return.
\<close>

definition switch_bank ::
  "'w nfp_api \<Rightarrow> nfp_cpp \<Rightarrow> SmartNicReader \<Rightarrow> 'w \<Rightarrow> nat option \<times> 'w" where
  "switch_bank api cpp r w =
    (case open_area api cpp (sr_staCppId r) (sr_staAddr r) 4 w of
       (None, w) \<Rightarrow> (None, w)
     | (Some staArea, w) \<Rightarrow>
    (case read_exact api staArea 0 4 w of
       (None, w) \<Rightarrow> (None, area_release_free api staArea w)
     | (Some staValue, w) \<Rightarrow>
    (let ori_bufferState = unat (readLe32 staValue 0) mod 2;
         next_bufferState = 1 - ori_bufferState
     in case area_write api staArea 0 (le_bytes 4 next_bufferState) w of (staBytesWritten, w) \<Rightarrow>
        let w = area_release_free api staArea w in
        if staBytesWritten \<noteq> 4 then (None, w) else (Some ori_bufferState, w))))"

definition read_flow_entry ::
  "'w nfp_api \<Rightarrow> area \<Rightarrow> area \<Rightarrow> nat \<Rightarrow> 'w \<Rightarrow> flow_data option \<times> 'w" where
  "read_flow_entry api keyArea dataArea i w =
    (case read_exact api keyArea (i * sizeof_stored_flow_key) sizeof_stored_flow_key w of
       (None, w) \<Rightarrow> (None, w)
     | (Some key, w) \<Rightarrow>
    (case read_exact api dataArea (i * sizeof_stored_flow_data) sizeof_stored_flow_data w of
       (None, w) \<Rightarrow> (None, w)
     | (Some data, w) \<Rightarrow>
        (Some \<lparr> fd_key = decode_flow_key key, fd_data = decode_flow_data data, fd_index = of_nat i \<rparr>, w)))"

text \<open>Reading the ready slots, then the three fills and the releases.\<close>

definition drain_flow_slots ::
  "'w nfp_api \<Rightarrow> SmartNicReader \<Rightarrow> area \<Rightarrow> area \<Rightarrow> area \<Rightarrow> nat list \<Rightarrow> 'w \<Rightarrow> flow_data list \<times> 'w" where
  "drain_flow_slots api r semArea keyArea dataArea haveData w =
    (case read_slots (read_flow_entry api keyArea dataArea) haveData w of (result, w) \<Rightarrow>
     case area_fill api keyArea 0 kDataClearValue (sr_keySize r) w of (_, w) \<Rightarrow>
     case area_fill api dataArea 0 kDataClearValue (sr_dataSize r) w of (_, w) \<Rightarrow>
     case area_fill api semArea 0 kSemUnlockValue (sr_semSize r) w of (_, w) \<Rightarrow>
       (result, area_release_free api semArea (area_release_free api dataArea
          (area_release_free api keyArea w))))"

text \<open>Steps 4 and 5, from the open semaphore area on.\<close>

definition drain_flow_bank ::
  "'w nfp_api \<Rightarrow> nfp_cpp \<Rightarrow> SmartNicReader \<Rightarrow> nat \<Rightarrow> area \<Rightarrow> nat list \<Rightarrow> 'w \<Rightarrow> flow_data list \<times> 'w" where
  "drain_flow_bank api cpp r b semArea haveData w =
    (case open_area api cpp (bank (sr_keyCppId r) b) (bank (sr_keyAddr r) b) (sr_keySize r) w of
       (None, w) \<Rightarrow> ([], area_release_free api semArea w)
     | (Some keyArea, w) \<Rightarrow>
    (case open_area api cpp (bank (sr_dataCppId r) b) (bank (sr_dataAddr r) b) (sr_dataSize r) w of
       (None, w) \<Rightarrow> ([], area_release_free api semArea (area_release_free api keyArea w))
     | (Some dataArea, w) \<Rightarrow> drain_flow_slots api r semArea keyArea dataArea haveData w))"

definition readFlowData ::
  "'w nfp_api \<Rightarrow> SmartNicReader \<Rightarrow> 'w \<Rightarrow> ((flow_data list \<times> SmartNicReader) \<times> 'w) option" where
  "readFlowData api r w =
    (case sr_cpp r of
       None \<Rightarrow> Some (([], r), w)
     | Some cpp \<Rightarrow> if sr_slotCount r = 0 then Some (([], r), w) else
    (case switch_bank api cpp r w of
       (None, w) \<Rightarrow> Some (([], r), w)
     | (Some b, w) \<Rightarrow>
       let r = r\<lparr> sr_bufferState := 1 - b \<rparr> in
    (case wait_quiescent api cpp (sr_proCppId r) (sr_proAddr r) b (sleep_ms api 1 w) of
       None \<Rightarrow> None
     | Some (False, w) \<Rightarrow> Some (([], r), w)
     | Some (True, w) \<Rightarrow>
    (case open_semaphores api cpp (bank (sr_semCppId r) b) (bank (sr_semAddr r) b) (sr_slotCount r)
         (sr_semSize r) w of
       (None, w) \<Rightarrow> Some (([], r), w)
     | (Some (semArea, haveData), w) \<Rightarrow>
        (case drain_flow_bank api cpp r b semArea haveData w of (result, w) \<Rightarrow> Some ((result, r), w))))))"

subsection \<open>The area discipline and the order of the calls\<close>

lemma switch_bank_log:
  assumes "switch_bank (traced api) cpp r w = (b, w')" "holds B w"
  shows "holds B w' \<and> quiet w w' \<and> (\<forall>i. b = Some i \<longrightarrow> i < 2)"
proof -
  let ?api = "traced api"
  obtain oa w1 where op: "open_area ?api cpp (sr_staCppId r) (sr_staAddr r) 4 w = (oa, w1)"
    by (rule prod.exhaust)
  note h1 = open_area_holds [OF op assms(2)] and q1 = open_area_quiet [OF op]
  show ?thesis
  proof (cases oa)
    case None
    with assms(1) op h1 q1 show ?thesis by (auto simp: switch_bank_def)
  next
    case (Some a)
    obtain v w2 where rd: "read_exact ?api a 0 4 w1 = (v, w2)" by (rule prod.exhaust)
    have h2: "holds (add_mset a B) w2" using read_exact_holds [OF rd] h1 Some by simp
    have q2: "quiet w w2" by (rule quiet_trans [OF q1 read_exact_quiet [OF rd]])
    show ?thesis
    proof (cases v)
      case None
      with assms(1) op rd Some release_holds [OF h2] quiet_trans [OF q2 quiet_calls(6)] show ?thesis
        by (auto simp: switch_bank_def)
    next
      case (Some bytes)
      let ?n = "1 - unat (readLe32 bytes 0) mod 2"
      obtain rc w3 where wr: "area_write ?api a 0 (le_bytes 4 ?n) w2 = (rc, w3)" by (rule prod.exhaust)
      have h3: "holds (add_mset a B) w3" using area_write_holds [OF wr h2] by simp
      have q3: "quiet w w3" by (rule quiet_trans [OF q2 quiet_calls(4) [OF wr]])
      have "w' = area_release_free ?api a w3" "\<forall>i. b = Some i \<longrightarrow> i < 2"
        using assms(1) op rd wr \<open>oa = Some a\<close> Some
        by (auto simp: switch_bank_def Let_def split: if_splits)
      with release_holds [OF h3] quiet_trans [OF q3 quiet_calls(6)] show ?thesis by simp
    qed
  qed
qed

lemma read_flow_entry_log:
  assumes "read_flow_entry (traced api) k d i w = (e, w')" "holds B w" "k \<in># B" "d \<in># B"
  shows "holds B w' \<and> quiet w w'"
proof -
  obtain r1 w1 where r1: "read_exact (traced api) k (i * 32) 32 w = (r1, w1)" by (rule prod.exhaust)
  note h1 = read_exact_holds [OF r1 assms(2,3)] and q1 = read_exact_quiet [OF r1]
  obtain r2 w2 where r2: "read_exact (traced api) d (i * 32) 32 w1 = (r2, w2)" by (rule prod.exhaust)
  note h2 = read_exact_holds [OF r2 h1 assms(4)] and q2 = quiet_trans [OF q1 read_exact_quiet [OF r2]]
  have "w' = w1 \<or> w' = w2"
    using assms(1) r1 r2
    by (auto simp: read_flow_entry_def sizeof_stored_flow_key_def sizeof_stored_flow_data_def split: option.splits)
  with h1 q1 h2 q2 show ?thesis by blast
qed

text \<open>The log of the last phase: its reads, the three fills in order, the releases.\<close>

definition drained :: "SmartNicReader \<Rightarrow> area \<Rightarrow> area \<Rightarrow> area \<Rightarrow> call list" where
  "drained r s k d = [CRelease s, CRelease d, CRelease k, CFill s 0 kSemUnlockValue (sr_semSize r),
     CFill d 0 kDataClearValue (sr_dataSize r), CFill k 0 kDataClearValue (sr_keySize r)]"

lemma drain_flow_slots_log:
  assumes "drain_flow_slots (traced api) r s k d sl w = (es, w')" "holds (add_mset d (add_mset k (add_mset s B))) w"
  shows "holds B w' \<and> (\<exists>w1. quiet w w1 \<and> snd w' = drained r s k d @ snd w1)"
proof -
  let ?api = "traced api" and ?B = "add_mset d (add_mset k (add_mset s B))"
  obtain es1 w1 where rs: "read_slots (read_flow_entry ?api k d) sl w = (es1, w1)" by (rule prod.exhaust)
  have I: "holds ?B w1 \<and> quiet w w1"
  proof (rule read_slots_inv [OF _ rs, where I = "\<lambda>v. holds ?B v \<and> quiet w v"])
    fix i v e v'
    assume "holds ?B v \<and> quiet w v" "read_flow_entry ?api k d i v = (e, v')"
    with read_flow_entry_log [of api k d i v e v' ?B] quiet_trans [of w v v']
    show "holds ?B v' \<and> quiet w v'" by simp
  qed (simp add: assms(2))
  obtain c1 w2 where f1: "area_fill ?api k 0 kDataClearValue (sr_keySize r) w1 = (c1, w2)" by (rule prod.exhaust)
  obtain c2 w3 where f2: "area_fill ?api d 0 kDataClearValue (sr_dataSize r) w2 = (c2, w3)" by (rule prod.exhaust)
  obtain c3 w4 where f3: "area_fill ?api s 0 kSemUnlockValue (sr_semSize r) w3 = (c3, w4)" by (rule prod.exhaust)
  have w': "w' = area_release_free ?api s (area_release_free ?api d (area_release_free ?api k w4))"
    using assms(1) rs f1 f2 f3 by (simp add: drain_flow_slots_def)
  have "holds ?B w2" using area_fill_holds [OF f1] I by simp
  then have "holds ?B w3" using area_fill_holds [OF f2] by simp
  then have "holds ?B w4" using area_fill_holds [OF f3] by simp
  then have "holds (add_mset k (add_mset d (add_mset s B))) w4" by (metis add_mset_commute)
  then have "holds (add_mset d (add_mset s B)) (area_release_free ?api k w4)" by (rule release_holds)
  from release_holds [OF release_holds [OF this]] have "holds B w'" unfolding w' .
  moreover have "snd w' = drained r s k d @ snd w1"
    using f1 f2 f3 unfolding w' drained_def by (cases w1, cases w2, cases w3, cases w4) auto
  ultimately show ?thesis using I by blast
qed

lemma drain_flow_bank_log:
  assumes "drain_flow_bank (traced api) cpp r b s sl w = (es, w')" "holds (add_mset s B) w"
  shows "holds B w' \<and> (quiet w w' \<and> es = [] \<or> (\<exists>k d w1. quiet w w1 \<and> snd w' = drained r s k d @ snd w1))"
proof -
  let ?api = "traced api"
  obtain ka w1 where op: "open_area ?api cpp (bank (sr_keyCppId r) b) (bank (sr_keyAddr r) b) (sr_keySize r) w
      = (ka, w1)" by (rule prod.exhaust)
  note h1 = open_area_holds [OF op assms(2)] and q1 = open_area_quiet [OF op]
  show ?thesis
  proof (cases ka)
    case None
    with assms(1) op h1 quiet_trans [OF q1 quiet_calls(6)] show ?thesis
      by (auto simp: drain_flow_bank_def intro: release_holds)
  next
    case (Some k)
    obtain da w2 where op2: "open_area ?api cpp (bank (sr_dataCppId r) b) (bank (sr_dataAddr r) b)
        (sr_dataSize r) w1 = (da, w2)" by (rule prod.exhaust)
    have h2: "holds (case da of None \<Rightarrow> add_mset k (add_mset s B) | Some d \<Rightarrow> add_mset d (add_mset k (add_mset s B))) w2"
      using open_area_holds [OF op2] h1 Some by (cases da) auto
    have q2: "quiet w w2" by (rule quiet_trans [OF q1 open_area_quiet [OF op2]])
    show ?thesis
    proof (cases da)
      case None
      with assms(1) op op2 Some have e: "es = []"
        "w' = area_release_free ?api s (area_release_free ?api k w2)"
        by (simp_all add: drain_flow_bank_def)
      have "holds B w'" unfolding e(2) using h2 None by (intro release_holds) simp
      moreover have "quiet w w'" unfolding e(2)
        by (rule quiet_trans [OF quiet_trans [OF q2 quiet_calls(6)] quiet_calls(6)])
      ultimately show ?thesis using e(1) by blast
    next
      case (Some d)
      then have "drain_flow_slots ?api r s k d sl w2 = (es, w')"
        using assms(1) op op2 \<open>ka = Some k\<close> by (simp add: drain_flow_bank_def)
      from drain_flow_slots_log [OF this, of B] h2 Some obtain w3 where
        "holds B w'" "quiet w2 w3" "snd w' = drained r s k d @ snd w3" by (simp del: split_paired_Ex) blast
      with quiet_trans [OF q2] show ?thesis by blast
    qed
  qed
qed

text \<open>From the open semaphores on.\<close>

lemma read_flow_bank_log:
  assumes "open_semaphores (traced api) cpp i ad n m w2 = (so, w3)" "holds B w2" "quiet w w2"
    and "case so of None \<Rightarrow> es = [] \<and> w' = w3 | Some (s, sl) \<Rightarrow> drain_flow_bank (traced api) cpp r b s sl w3 = (es, w')"
  shows "holds B w' \<and> (quiet w w' \<and> es = [] \<or> (\<exists>s k d w1. quiet w w1 \<and> snd w' = drained r s k d @ snd w1))"
proof -
  note h3 = open_semaphores_holds [OF assms(1,2)]
  have q3: "quiet w w3" by (rule quiet_trans [OF assms(3) open_semaphores_quiet [OF assms(1)]])
  show ?thesis
  proof (cases so)
    case None
    with assms(4) h3 q3 show ?thesis by simp
  next
    case (Some p)
    obtain s sl where p: "p = (s, sl)" by (rule prod.exhaust)
    with assms(4) Some have "drain_flow_bank (traced api) cpp r b s sl w3 = (es, w')" by simp
    from drain_flow_bank_log [OF this] h3 Some p
    have "holds B w'" "quiet w3 w' \<and> es = [] \<or> (\<exists>k d w1. quiet w3 w1 \<and> snd w' = drained r s k d @ snd w1)" by auto
    with quiet_trans [OF q3] show ?thesis by metis
  qed
qed

lemma readFlowData_log:
  assumes "readFlowData (traced api) r w = Some ((es, r'), w')" "holds B w"
  shows "holds B w' \<and> (quiet w w' \<and> es = [] \<or> (\<exists>s k d w1. quiet w w1 \<and> snd w' = drained r s k d @ snd w1))"
proof (cases "sr_cpp r = None \<or> sr_slotCount r = 0")
  case True
  with assms show ?thesis by (auto simp: readFlowData_def split: option.splits)
next
  case False
  let ?api = "traced api"
  from False obtain cpp where cpp: "sr_cpp r = Some cpp" by auto
  obtain bo w1 where sw: "switch_bank ?api cpp r w = (bo, w1)" by (rule prod.exhaust)
  note l1 = switch_bank_log [OF sw assms(2)]
  show ?thesis
  proof (cases bo)
    case None
    with assms cpp False sw l1 show ?thesis by (auto simp: readFlowData_def)
  next
    case (Some b)
    let ?w = "sleep_ms ?api 1 w1"
    from assms cpp False sw Some obtain idle w2 where
      wq: "wait_quiescent ?api cpp (sr_proCppId r) (sr_proAddr r) b ?w = Some (idle, w2)"
      by (auto simp: readFlowData_def Let_def split: option.splits)
    have h2: "holds B w2" using wait_quiescent_holds [OF wq] l1 by (simp add: sleep_holds)
    have q2: "quiet w w2"
      using quiet_trans [OF quiet_trans [OF _ quiet_calls(7)] wait_quiescent_quiet [OF wq]] l1 by blast
    show ?thesis
    proof (cases idle)
      case False
      with assms cpp \<open>\<not> (sr_cpp r = None \<or> sr_slotCount r = 0)\<close> sw Some wq h2 q2 show ?thesis
        by (simp add: readFlowData_def)
    next
      case True
      let ?r = "r\<lparr> sr_bufferState := 1 - b \<rparr>"
      obtain so w3 where os: "open_semaphores ?api cpp (bank (sr_semCppId r) b) (bank (sr_semAddr r) b)
          (sr_slotCount r) (sr_semSize r) w2 = (so, w3)" by (rule prod.exhaust)
      from assms cpp False sw Some wq True os
      have "case so of None \<Rightarrow> es = [] \<and> w' = w3 | Some (s, sl) \<Rightarrow> drain_flow_bank ?api cpp ?r b s sl w3 = (es, w')"
        by (cases so) (auto simp: readFlowData_def Let_def split: prod.splits)
      from read_flow_bank_log [OF os h2 q2 this] show ?thesis by (simp add: drained_def)
    qed
  qed
qed

text \<open>
  C25 (safety). A flow read closes every area it opens, on every path and whatever the SDK calls return.
  It either returns nothing and fills nothing, or its log ends with the fill of the keys, then the fill
  of the data, then the fill of the semaphores and the three releases, with no fill before: slots are
  given back to the firmware only after their records are cleared, and nothing is read afterwards.
\<close>

theorem readFlowData_discipline:
  assumes "areas_of (snd w) = Some ({#}, {#})" "readFlowData (traced api) r w = Some ((es, r'), w')"
  shows "areas_of (snd w') = Some ({#}, {#}) \<and>
    (quiet w w' \<and> es = [] \<or> (\<exists>s k d w1. quiet w w1 \<and> snd w' = drained r s k d @ snd w1))"
  using readFlowData_log [OF assms(2), of "{#}"] assms(1) by (simp add: holds_def)

subsection \<open>Against device memory\<close>

definition flow_at :: "SmartNicReader \<Rightarrow> mem \<Rightarrow> nat \<Rightarrow> nat \<Rightarrow> flow_data" where
  "flow_at r c b i = \<lparr>
     fd_key = decode_flow_key (mem_bytes (c (bank (sr_keyCppId r) b)) (bank (sr_keyAddr r) b) (i * 32) 32),
     fd_data = decode_flow_data (mem_bytes (c (bank (sr_dataCppId r) b)) (bank (sr_dataAddr r) b) (i * 32) 32),
     fd_index = of_nat i \<rparr>"

definition flow_slots :: "SmartNicReader \<Rightarrow> mem \<Rightarrow> nat \<Rightarrow> nat list" where
  "flow_slots r c b = filter (\<lambda>i. word_at (c (bank (sr_semCppId r) b)) (bank (sr_semAddr r) b + of_nat (i * 4)) = 3)
     [0..<sr_slotCount r]"

text \<open>Where the reader looks for the state word and for the counts.\<close>

definition sta_word :: "SmartNicReader \<Rightarrow> u32 \<times> u64" where
  "sta_word r = (sr_staCppId r, sr_staAddr r)"

definition pro_word :: "SmartNicReader \<Rightarrow> u32 \<times> u64" where
  "pro_word r = (sr_proCppId r, sr_proAddr r)"

definition active_bank :: "SmartNicReader \<Rightarrow> mem \<Rightarrow> nat" where
  "active_bank r c = active_of (sta_word r) c"

definition sta_region :: "SmartNicReader \<Rightarrow> (u32 \<times> u64) set" where
  "sta_region r = region (sr_staCppId r) (sr_staAddr r) 4"

definition flow_bank :: "SmartNicReader \<Rightarrow> nat \<Rightarrow> (u32 \<times> u64) set" where
  "flow_bank r b = region (bank (sr_keyCppId r) b) (bank (sr_keyAddr r) b) (sr_keySize r) \<union>
     region (bank (sr_dataCppId r) b) (bank (sr_dataAddr r) b) (sr_dataSize r) \<union>
     region (bank (sr_semCppId r) b) (bank (sr_semAddr r) b) (sr_semSize r)"

text \<open>The sizes of the constructor, and room for the 32-bit byte counts of the SDK.\<close>

definition flow_sizes :: "SmartNicReader \<Rightarrow> bool" where
  "flow_sizes r \<longleftrightarrow> 0 < sr_slotCount r \<and> sr_slotCount r < 2 ^ 26 \<and> sr_semSize r = sr_slotCount r * 4 \<and>
     sr_keySize r = sr_slotCount r * 32 \<and> sr_dataSize r = sr_slotCount r * 32"

lemma ready_flow_slots:
  assumes "flow_sizes r"
  shows "ready_slots (sr_slotCount r)
      (mem_bytes (c (bank (sr_semCppId r) b)) (bank (sr_semAddr r) b) 0 (sr_semSize r)) = flow_slots r c b"
  using assms unfolding ready_slots_def flow_slots_def flow_sizes_def
  by (intro filter_cong) (simp_all add: word_in_block kSemDataReady_def)

text \<open>The records of a bank depend on the memory of the bank only.\<close>

lemma flow_view:
  assumes "flow_sizes r" "agree_off S c d" "S \<inter> flow_bank r b = {}"
  shows "map (flow_at r c b) (flow_slots r c b) = map (flow_at r d b) (flow_slots r d b)"
proof -
  have sub: "region (bank (sr_semCppId r) b) (bank (sr_semAddr r) b) (sr_semSize r) \<subseteq> flow_bank r b"
    "region (bank (sr_keyCppId r) b) (bank (sr_keyAddr r) b) (sr_keySize r) \<subseteq> flow_bank r b"
    "region (bank (sr_dataCppId r) b) (bank (sr_dataAddr r) b) (sr_dataSize r) \<subseteq> flow_bank r b"
    by (auto simp: flow_bank_def)
  have dis: "S \<inter> R = {}" if "R \<subseteq> flow_bank r b" for R using assms(3) that by blast
  have lt: "sr_semSize r < 2 ^ 64" "sr_keySize r < 2 ^ 64" "sr_dataSize r < 2 ^ 64"
    using assms(1) by (simp_all add: flow_sizes_def)
  have "mem_bytes (c (bank (sr_semCppId r) b)) (bank (sr_semAddr r) b) 0 (sr_semSize r) =
      mem_bytes (d (bank (sr_semCppId r) b)) (bank (sr_semAddr r) b) 0 (sr_semSize r)"
    by (rule agree_off_bytes [OF assms(2) dis [OF sub(1)] _ lt(1)]) simp
  then have sl: "flow_slots r c b = flow_slots r d b"
    unfolding ready_flow_slots [OF assms(1), symmetric] by (rule arg_cong)
  have "flow_at r c b i = flow_at r d b i" if "i < sr_slotCount r" for i
  proof -
    have "i * 32 + 32 \<le> sr_slotCount r * 32" using that by simp
    then have le: "i * 32 + 32 \<le> sr_keySize r" "i * 32 + 32 \<le> sr_dataSize r"
      using assms(1) by (simp_all add: flow_sizes_def)
    show ?thesis
      unfolding flow_at_def agree_off_bytes [OF assms(2) dis [OF sub(2)] le(1) lt(2)]
        agree_off_bytes [OF assms(2) dis [OF sub(3)] le(2) lt(3)] ..
  qed
  then show ?thesis unfolding sl by (auto simp: flow_slots_def)
qed

text \<open>
  A moment at which the bank the program has retired is at rest: the firmware has acted, the program has
  made the other bank the active one, and the firmware has acted again until the last thread has left.
\<close>

definition retires ::
  "(dev_state \<Rightarrow> dev_state \<Rightarrow> bool) \<Rightarrow> u32 \<times> u64 \<Rightarrow> u32 \<times> u64 \<Rightarrow> nat \<Rightarrow> dev_state \<Rightarrow> dev_state \<Rightarrow> bool" where
  "retires rely sta pro b s m \<longleftrightarrow>
     (\<exists>c L. rely s (c, L) \<and> rely (store_word (fst sta) (snd sta) (1 - b) c, L) m) \<and> at_rest sta pro b m"

context nfp_firmware
begin

lemma switch_bank_law:
  assumes "sta = sta_word r" "b = active_of sta (fst (dev w))"
  shows "\<exists>w' c L. switch_bank api cpp r w = (Some b, w') \<and> rely (dev w) (c, L) \<and>
    rely (store_word (fst sta) (snd sta) (1 - b) c, L) (dev w')"
proof -
  let ?i = "sr_staCppId r" and ?ad = "sr_staAddr r"
  have al: "4 dvd unat ?ad" using aligned(1) assms(1) by (simp add: sta_word_def)
  obtain a w1 where op: "open_area api cpp ?i ?ad 4 w = (Some a, w1)"
      "place w1 = (place w)(a \<mapsto> (?i, ?ad))" "rely (dev w) (dev w1)"
    using open_law by blast
  then have p1: "place w1 a = Some (?i, ?ad)" by simp
  from read_word_law [OF this, of 0] al obtain s w2 where
    rd: "read_exact api a 0 4 w1 = (Some (mem_bytes (fst s ?i) ?ad 0 4), w2)" "place w2 = place w1"
    "rely (dev w1) s" "rely s (dev w2)" by auto
  have p2: "place w2 a = Some (?i, ?ad)" using p1 rd(2) by simp
  obtain rc w3 where wr: "area_write api a 0 (le_bytes 4 (1 - b)) w2 = (rc, w3)" by (rule prod.exhaust)
  from write_law [OF p2 al wr] obtain c L where w3: "rc = 4" "rely (dev w2) (c, L)"
    "rely (store_word ?i ?ad (1 - b) c, L) (dev w3)" by auto
  have "active_of sta (fst s) = b"
    using active_stays [OF rely_trans [OF op(3) rd(3)]] assms(2) by simp
  then have "unat (readLe32 (mem_bytes (fst s ?i) ?ad 0 4) 0) mod 2 = b"
    by (simp add: assms(1) active_of_def word_at_def sta_word_def)
  with op(1) rd(1) wr w3(1) have "switch_bank api cpp r w = (Some b, area_release_free api a w3)"
    by (simp add: switch_bank_def Let_def)
  moreover have "rely (dev w) (c, L)"
    by (rule rely_trans [OF op(3) rely_trans [OF rd(3) rely_trans [OF rd(4) w3(2)]]])
  moreover have "rely (dev w3) (dev (area_release_free api a w3))" using release_law by blast
  from rely_trans [OF w3(3) this] have
    "rely (store_word (fst sta) (snd sta) (1 - b) c, L) (dev (area_release_free api a w3))"
    by (simp add: assms(1) sta_word_def)
  ultimately show ?thesis by blast
qed

lemma read_flow_slots_rest:
  assumes "flow_sizes r" "flow_bank r b \<subseteq> bnk b" "b < 2" "set is \<subseteq> {..<sr_slotCount r}"
    and "place w k = Some (bank (sr_keyCppId r) b, bank (sr_keyAddr r) b)"
    and "place w d = Some (bank (sr_dataCppId r) b, bank (sr_dataAddr r) b)" "kept b m (dev w)"
  shows "\<exists>w'. read_slots (read_flow_entry api k d) is w = (map (flow_at r (fst m) b) is, w') \<and>
    place w' = place w \<and> rely (dev w) (dev w') \<and> kept b m (dev w')"
  using assms(4-7)
proof (induction "is" arbitrary: w)
  case Nil
  then show ?case by (simp add: rely_refl)
next
  case (Cons i "is")
  have i: "i < sr_slotCount r" using Cons.prems(1) by simp
  then have "i * 32 + 32 \<le> sr_slotCount r * 32" by simp
  then have le: "i * 32 + 32 \<le> sr_keySize r" "i * 32 + 32 \<le> sr_dataSize r"
    and lt: "sr_keySize r < 2 ^ 64" "sr_dataSize r < 2 ^ 64"
    using assms(1) by (simp_all add: flow_sizes_def)
  have sub: "region (bank (sr_keyCppId r) b) (bank (sr_keyAddr r) b) (sr_keySize r) \<subseteq> bnk b"
    "region (bank (sr_dataCppId r) b) (bank (sr_dataAddr r) b) (sr_dataSize r) \<subseteq> bnk b"
    using assms(2) by (auto simp: flow_bank_def)
  obtain w1 where r1: "read_exact api k (i * 32) 32 w =
      (Some (mem_bytes (fst m (bank (sr_keyCppId r) b)) (bank (sr_keyAddr r) b) (i * 32) 32), w1)"
      "place w1 = place w" "rely (dev w) (dev w1)" "kept b m (dev w1)"
    using read_rest [OF Cons.prems(2) _ le(1) lt(1) sub(1) Cons.prems(4) assms(3)] by auto
  have "place w1 d = Some (bank (sr_dataCppId r) b, bank (sr_dataAddr r) b)" using Cons.prems r1(2) by simp
  from read_rest [OF this _ le(2) lt(2) sub(2) r1(4) assms(3)] obtain w2 where r2: "read_exact api d (i * 32) 32 w1 =
      (Some (mem_bytes (fst m (bank (sr_dataCppId r) b)) (bank (sr_dataAddr r) b) (i * 32) 32), w2)"
      "place w2 = place w1" "rely (dev w1) (dev w2)" "kept b m (dev w2)" by auto
  from Cons.IH [of w2] Cons.prems r1(2) r2(2,4) obtain w' where
    "read_slots (read_flow_entry api k d) is w2 = (map (flow_at r (fst m) b) is, w')"
    "place w' = place w" "rely (dev w2) (dev w')" "kept b m (dev w')" by auto
  moreover have "read_flow_entry api k d i w = (Some (flow_at r (fst m) b i), w2)"
    using r1(1) r2(1)
    by (simp add: read_flow_entry_def flow_at_def sizeof_stored_flow_key_def sizeof_stored_flow_data_def)
  ultimately show ?case using rely_trans [OF rely_trans [OF r1(3) r2(3)]] by simp
qed

lemma drain_flow_bank_rest:
  assumes "flow_sizes r" "flow_bank r b \<subseteq> bnk b" "b < 2" "set is \<subseteq> {..<sr_slotCount r}"
    and "words_apart sta pro (bnk b)" "kept b m (dev w)"
    and "place w s = Some (bank (sr_semCppId r) b, bank (sr_semAddr r) b)"
  shows "\<exists>w'. drain_flow_bank api cpp r b s is w = (map (flow_at r (fst m) b) is, w') \<and>
    at_rest sta pro b (dev w') \<and>
    (\<forall>i x. (i, x) \<in> bnk b \<longrightarrow> fst (dev w') i x = (if (i, x) \<in> flow_bank r b then 0 else fst m i x)) \<and>
    agree_off (volatile rely \<union> bnk b) (fst (dev w')) (fst (dev w))"
proof -
  let ?ki = "bank (sr_keyCppId r) b" and ?ka = "bank (sr_keyAddr r) b"
  let ?di = "bank (sr_dataCppId r) b" and ?da = "bank (sr_dataAddr r) b"
  let ?si = "bank (sr_semCppId r) b" and ?sa = "bank (sr_semAddr r) b"
  obtain k w1 where k: "open_area api cpp ?ki ?ka (sr_keySize r) w = (Some k, w1)" "place w k = None"
      "place w1 = (place w)(k \<mapsto> (?ki, ?ka))" "rely (dev w) (dev w1)" using open_law by blast
  obtain d w2 where d: "open_area api cpp ?di ?da (sr_dataSize r) w1 = (Some d, w2)" "place w1 d = None"
      "place w2 = (place w1)(d \<mapsto> (?di, ?da))" "rely (dev w1) (dev w2)" using open_law by blast
  have p2: "place w2 k = Some (?ki, ?ka)" "place w2 d = Some (?di, ?da)" "place w2 s = Some (?si, ?sa)"
    using k(2,3) d(2,3) assms(7) by auto
  have k2: "kept b m (dev w2)" by (rule kept_rely [OF assms(6) rely_trans [OF k(4) d(4)] assms(3)])
  obtain w3 where rs: "read_slots (read_flow_entry api k d) is w2 = (map (flow_at r (fst m) b) is, w3)"
      "place w3 = place w2" "rely (dev w2) (dev w3)" "kept b m (dev w3)"
    using read_flow_slots_rest [OF assms(1-4) p2(1,2) k2] by blast
  have dv: "4 dvd sr_keySize r" "4 dvd sr_dataSize r" "4 dvd sr_semSize r"
    and lt: "sr_keySize r < 2 ^ 64" "sr_dataSize r < 2 ^ 64" "sr_semSize r < 2 ^ 64"
    using assms(1) by (auto simp: flow_sizes_def)
  have sub: "region ?ki ?ka (sr_keySize r) \<subseteq> bnk b" "region ?di ?da (sr_dataSize r) \<subseteq> bnk b"
    "region ?si ?sa (sr_semSize r) \<subseteq> bnk b" using assms(2) by (auto simp: flow_bank_def)
  have p3: "place w3 k = Some (?ki, ?ka)" and r3: "at_rest sta pro b (dev w3)"
    using rs(2,4) p2(1) by (simp_all add: kept_def)
  obtain c4 w4 where f4: "area_fill api k 0 0 (sr_keySize r) w3 = (c4, w4)" by (rule prod.exhaust)
  note l4 = fill_rest [OF f4 p3 dv(1) lt(1) r3 assms(3,5) sub(1)]
  have p4: "place w4 d = Some (?di, ?da)" and r4: "at_rest sta pro b (dev w4)" using l4 rs(2) p2(2) by simp_all
  obtain c5 w5 where f5: "area_fill api d 0 0 (sr_dataSize r) w4 = (c5, w5)" by (rule prod.exhaust)
  note l5 = fill_rest [OF f5 p4 dv(2) lt(2) r4 assms(3,5) sub(2)]
  have p5: "place w5 s = Some (?si, ?sa)" and r5: "at_rest sta pro b (dev w5)" using l4 l5 rs(2) p2(3) by simp_all
  obtain c6 w6 where f6: "area_fill api s 0 0 (sr_semSize r) w5 = (c6, w6)" by (rule prod.exhaust)
  note l6 = fill_rest [OF f6 p5 dv(3) lt(3) r5 assms(3,5) sub(3)]
  let ?w = "area_release_free api s (area_release_free api d (area_release_free api k w6))"
  have "drain_flow_bank api cpp r b s is w = (map (flow_at r (fst m) b) is, ?w)"
    using k(1) d(1) rs(1) f4 f5 f6
    by (simp add: drain_flow_bank_def drain_flow_slots_def kDataClearValue_def kSemUnlockValue_def)
  moreover have rel: "rely (dev w6) (dev ?w)"
    using release_law rely_trans by meson
  have "kept b (dev w6) (dev ?w)" using rest_kept [OF rel assms(3)] l6 by blast
  moreover have "fst (dev w6) i x = (if (i, x) \<in> flow_bank r b then 0 else fst m i x)" if "(i, x) \<in> bnk b" for i x
  proof -
    have e: "fst (dev w3) i x = fst m i x" using rs(4) that by (simp add: kept_def)
    have "fst (dev w6) i x = (if (i, x) \<in> region ?si ?sa (sr_semSize r) then 0
        else if (i, x) \<in> region ?di ?da (sr_dataSize r) then 0
        else if (i, x) \<in> region ?ki ?ka (sr_keySize r) then 0 else fst m i x)"
      using l4 l5 l6 that e by (simp del: region_iff)
    then show ?thesis by (simp add: flow_bank_def)
  qed
  moreover have "agree_off (volatile rely \<union> bnk b) (fst (dev ?w)) (fst (dev w))"
  proof -
    let ?V = "volatile rely \<union> bnk b"
    have V: "agree_off ?V (fst t) (fst u)" if "agree_off ?V (fst t) (fst v)" "agree_off ?V (fst v) (fst u)"
      for t u v :: dev_state using agree_off_trans [OF that] by simp
    have env: "agree_off ?V (fst t) (fst u)" if "rely u t" for t u
      by (rule agree_off_mono [OF env_agree [OF that]]) simp
    have "rely (dev w) (dev w3)" by (rule rely_trans [OF k(4) rely_trans [OF d(4) rs(3)]])
    with env [OF rel] l6 l5 l4 env show ?thesis by (meson V)
  qed
  ultimately show ?thesis by (simp add: kept_def)
qed

lemma readFlowData_law:
  assumes run: "readFlowData api r w = Some ((es, r'), w')" and cpp: "sr_cpp r = Some cpp"
    and sz: "flow_sizes r" and words: "sta = sta_word r" "pro = pro_word r"
    and b: "b = active_of sta (fst (dev w))"
    and sub: "flow_bank r b \<subseteq> bnk b" and sep: "words_apart sta pro (bnk b)"
  shows "\<exists>m. retires rely sta pro b (dev w) m \<and>
    es = map (flow_at r (fst m) b) (flow_slots r (fst m) b) \<and> sr_bufferState r' = 1 - b \<and>
    at_rest sta pro b (dev w') \<and>
    (\<forall>i x. (i, x) \<in> bnk b \<longrightarrow> fst (dev w') i x = (if (i, x) \<in> flow_bank r b then 0 else fst m i x)) \<and>
    agree_off (volatile rely \<union> bnk b \<union> sta_region r) (fst (dev w')) (fst (dev w))"
proof -
  let ?r = "r\<lparr> sr_bufferState := 1 - b \<rparr>"
  have b2: "b < 2" using b active_of_less by simp
  obtain w1 c L where sw: "switch_bank api cpp r w = (Some b, w1)" "rely (dev w) (c, L)"
    "rely (store_word (fst sta) (snd sta) (1 - b) c, L) (dev w1)"
    using switch_bank_law [OF words(1) b] by blast
  let ?s = "sleep_ms api 1 w1" and ?c = "store_word (fst sta) (snd sta) (1 - b) c"
  from run cpp sz sw(1) obtain idle w2 where
    wq: "wait_quiescent api cpp (sr_proCppId r) (sr_proAddr r) b ?s = Some (idle, w2)"
    by (auto simp: readFlowData_def flow_sizes_def Let_def split: option.splits)
  have "4 dvd unat (sr_proAddr r)" using aligned(2) words(2) by (simp add: pro_word_def)
  with wait_quiescent_law [OF wq] obtain m where idle: idle and
    m: "rely (dev ?s) m" "rely m (dev w2)" "count_of pro (fst m) b = 0" by (auto simp: words(2) pro_word_def)
  have "active_of sta (fst (dev w1)) = 1 - b"
    using active_stays [OF sw(3)] active_of_stored [of "1 - b" sta c] b2 by simp
  moreover from this have "snd (dev ?s) \<subseteq> {1 - b}" using settle_law [of 1 w1] by simp
  moreover have "active_of sta (fst (dev ?s)) = active_of sta (fst (dev w1))"
    using active_stays sleep_law by blast
  ultimately have "active_of sta (fst m) = 1 - b" "snd m \<subseteq> {1 - b}"
    using active_stays [OF m(1)] choice_law [OF m(1)] by auto
  moreover have "1 - b \<noteq> b" by presburger
  ultimately have rest: "at_rest sta pro b m" using m(3) by (auto simp: at_rest_def)
  have s1: "rely (?c, L) (dev ?s)" using rely_trans [OF sw(3)] sleep_law by blast
  have ret: "retires rely sta pro b (dev w) m"
    using sw(2) rely_trans [OF s1 m(1)] rest by (auto simp: retires_def)
  have k2: "kept b m (dev w2)" by (rule rest_kept [OF m(2) b2 rest])
  have semlt: "sr_semSize r < 2 ^ 31" using sz by (simp add: flow_sizes_def)
  have semsub: "region (bank (sr_semCppId r) b) (bank (sr_semAddr r) b) (sr_semSize r) \<subseteq> bnk b"
    using sub by (auto simp: flow_bank_def)
  obtain s w3 where sm: "open_semaphores api cpp (bank (sr_semCppId r) b) (bank (sr_semAddr r) b) (sr_slotCount r)
      (sr_semSize r) w2 = (Some (s, flow_slots r (fst m) b), w3)"
      "place w3 s = Some (bank (sr_semCppId r) b, bank (sr_semAddr r) b)" "rely (dev w2) (dev w3)" "kept b m (dev w3)"
    using open_semaphores_rest [OF semlt semsub k2 b2, of cpp "sr_slotCount r"] unfolding ready_flow_slots [OF sz] by blast
  have fs: "flow_at ?r c b = flow_at r c b" "flow_bank ?r b = flow_bank r b" "flow_sizes ?r" for c
    using sz by (simp_all add: flow_at_def flow_bank_def flow_sizes_def fun_eq_iff)
  have sl: "set (flow_slots r (fst m) b) \<subseteq> {..<sr_slotCount ?r}" by (auto simp: flow_slots_def)
  have sub': "flow_bank ?r b \<subseteq> bnk b"
    and pl: "place w3 s = Some (bank (sr_semCppId ?r) b, bank (sr_semAddr ?r) b)"
    unfolding fs using sub sm(2) by simp_all
  obtain w4 where dr: "drain_flow_bank api cpp ?r b s (flow_slots r (fst m) b) w3 =
      (map (flow_at r (fst m) b) (flow_slots r (fst m) b), w4)" "at_rest sta pro b (dev w4)"
      "\<forall>i x. (i, x) \<in> bnk b \<longrightarrow> fst (dev w4) i x = (if (i, x) \<in> flow_bank r b then 0 else fst m i x)"
      "agree_off (volatile rely \<union> bnk b) (fst (dev w4)) (fst (dev w3))"
    using drain_flow_bank_rest [OF fs(3) sub' b2 sl sep sm(4) pl, of cpp] unfolding fs by blast
  have res: "es = map (flow_at r (fst m) b) (flow_slots r (fst m) b)" "w' = w4" "r' = ?r"
    using run cpp sz sw(1) wq idle sm(1) dr(1)
    by (simp_all add: readFlowData_def flow_sizes_def Let_def)
  have env: "rely (?c, L) (dev w3)"
    by (rule rely_trans [OF s1 rely_trans [OF m(1) rely_trans [OF m(2) sm(3)]]])
  have "agree_off (sta_region r) ?c c"
    using store_agree [of "fst sta" "snd sta" "1 - b" c] by (simp add: sta_region_def words(1) sta_word_def)
  from agree_off_trans [OF agree_off_trans [OF dr(4) env_agree [OF env, unfolded fst_conv]]
      agree_off_trans [OF this env_agree [OF sw(2), unfolded fst_conv]]]
  have "agree_off (volatile rely \<union> bnk b \<union> sta_region r) (fst (dev w')) (fst (dev w))"
    unfolding res(2) by (rule agree_off_mono) blast
  with ret dr(2,3) res show ?thesis by (intro exI [of _ m]) simp
qed

end

lemma no_slots_left:
  assumes "flow_sizes r" "\<forall>i x. (i, x) \<in> flow_bank r b \<longrightarrow> c i x = 0"
  shows "flow_slots r c b = []"
proof -
  let ?i = "bank (sr_semCppId r) b" and ?ad = "bank (sr_semAddr r) b"
  have "mem_bytes (c ?i) ?ad 0 (sr_semSize r) = mem_bytes (\<lambda>_. 0) ?ad 0 (sr_semSize r)"
    by (rule mem_bytes_cong [where N = "sr_semSize r"])
      (use assms in \<open>auto simp: flow_bank_def flow_sizes_def\<close>)
  moreover have "word_at (\<lambda>_. 0) ad = 0" for ad
    by (simp add: word_at_def mem_bytes_def readLe32_def le_field_def upt_rec)
  ultimately show ?thesis
    using assms(1) unfolding ready_flow_slots [OF assms(1), symmetric] ready_slots_def flow_sizes_def
    by (auto simp: filter_empty_conv word_in_block kSemDataReady_def)
qed

text \<open>
  C2 (functional). With the firmware at work all the time and keeping its side of the protocol, a flow read
  returns exactly the records of the bank it has retired, as they stand at one moment at which the bank has
  come to rest, one for each slot whose semaphore is three, in slot order: no record that a firmware thread was still writing
  when the banks were switched is missed or torn. The read makes the other bank the active one, leaves the retired bank zero with no ready
  slot, and changes no other memory that the firmware does not change.
\<close>

theorem readFlowData_correct:
  assumes "nfp_firmware api dev place rely (sta_word r) (pro_word r) (flow_bank r)"
    and "readFlowData api r w = Some ((es, r'), w')" "sr_cpp r = Some cpp" "flow_sizes r"
    and "b = active_bank r (fst (dev w))" "words_apart (sta_word r) (pro_word r) (flow_bank r b)"
  shows "\<exists>m. retires rely (sta_word r) (pro_word r) b (dev w) m \<and>
    es = map (flow_at r (fst m) b) (flow_slots r (fst m) b) \<and>
    active_bank r (fst (dev w')) = 1 - b \<and> sr_bufferState r' = 1 - b \<and> flow_slots r (fst (dev w')) b = [] \<and>
    (\<forall>i x. (i, x) \<in> flow_bank r b \<longrightarrow> fst (dev w') i x = 0) \<and>
    agree_off (volatile rely \<union> flow_bank r b \<union> sta_region r) (fst (dev w')) (fst (dev w))"
proof -
  from nfp_firmware.readFlowData_law [OF assms(1-4) refl refl assms(5) [unfolded active_bank_def] order_refl assms(6)]
  obtain m where m: "retires rely (sta_word r) (pro_word r) b (dev w) m"
    "es = map (flow_at r (fst m) b) (flow_slots r (fst m) b)" "sr_bufferState r' = 1 - b"
    "at_rest (sta_word r) (pro_word r) b (dev w')"
    "\<forall>i x. (i, x) \<in> flow_bank r b \<longrightarrow> fst (dev w') i x = 0"
    "agree_off (volatile rely \<union> flow_bank r b \<union> sta_region r) (fst (dev w')) (fst (dev w))" by auto
  have "active_bank r (fst (dev w')) \<noteq> b" "active_bank r (fst (dev w')) < 2" "b < 2"
    using m(4) assms(5) active_of_less by (simp_all add: at_rest_def active_bank_def)
  with m no_slots_left [OF assms(4) m(5)] show ?thesis by (intro exI [of _ m]) (auto simp: less_2_cases_iff)
qed

subsection \<open>A worked flow read\<close>

text \<open>
  Two slots per bank, bank one active; its second slot holds the flow 10.0.0.1:80 to 10.0.0.2:8080. A firmware thread
  has seen that bank one is active and is about to write the same flow, of another agent, into the first slot:
  it begins after the program has switched the banks, and ends one sleep later.
\<close>

definition demo_flow_reader :: SmartNicReader where
  "demo_flow_reader = new_SmartNicReader mem_api (Some 0) 0 1 16 7 256 512 1024 2048 4096 8192 2 3 4 12 13 14 2"

definition demo_key_bytes :: "u8 list" where
  "demo_key_bytes = [1, 0, 0, 10, 2, 0, 0, 10, 0, 4, 0, 0, 9, 0, 0, 10, 3, 0, 5, 0, 80, 0, 144, 31, 6, 0, 0, 0, 2, 0, 0, 0]"

definition demo_late_key_bytes :: "u8 list" where
  "demo_late_key_bytes = [1, 0, 0, 10, 2, 0, 0, 10, 0, 4, 0, 0, 8, 0, 0, 10, 3, 0, 5, 0, 80, 0, 144, 31, 6, 0, 0, 0, 2, 0, 0, 0]"

definition demo_data_bytes :: "u8 list" where
  "demo_data_bytes = [220, 5, 0, 0, 0, 0, 0, 0, 1, 0, 0, 0, 0, 0, 0, 0, 100, 0, 0, 0, 5, 0, 0, 0, 101, 0, 0, 0, 7, 0, 0, 0]"

definition busy_firmware :: "dev_state \<Rightarrow> dev_state" where
  "busy_firmware s = (case s of (c, L) \<Rightarrow>
     (if 1 \<in> L then store_word 7 20 1 c
      else if count_of (7, 16) c 1 = 0 then c
      else store_word 7 20 0 (c(12 := mem_store (c 12) 512 0 [3, 0, 0, 0],
        13 := mem_store (c 13) 2048 0 demo_late_key_bytes, 14 := mem_store (c 14) 8192 0 demo_data_bytes)), {}))"

lemma busy_elsewhere: "i \<notin> {7, 12, 13, 14} \<Longrightarrow> fst (busy_firmware s) i = fst s i"
  by (cases s) (simp add: busy_firmware_def store_word_def)

lemma busy_count: "count_of (7, 16) (fst (busy_firmware s)) 0 = count_of (7, 16) (fst s) 0"
proof -
  have "mem_bytes (mem_store c 20 0 (le_bytes 4 k)) 16 0 4 = mem_bytes c 16 0 4" for c k
    by (simp add: mem_bytes_def mem_store_def in_range_def upt_rec unsigned_minus_1_eq_mask mask_eq_exp_minus_1)
  then show ?thesis
    by (cases s) (simp add: busy_firmware_def count_of_def store_word_def)
qed

lemma busy_rest:
  assumes "at_rest (1, 0) (7, 16) b s" "b < 2" "\<And>i x. (i, x) \<in> bnk 0 \<Longrightarrow> i \<notin> {7, 12, 13, 14}"
  shows "at_rest (1, 0) (7, 16) b (busy_firmware s) \<and> (\<forall>i x. (i, x) \<in> bnk b \<longrightarrow> fst (busy_firmware s) i x = fst s i x)"
proof (cases "b = 0")
  case True
  have "snd (busy_firmware s) = {}" by (cases s) (simp add: busy_firmware_def)
  moreover have "fst (busy_firmware s) i x = fst s i x" if "(i, x) \<in> bnk 0" for i x
    using busy_elsewhere [OF assms(3) [OF that]] by simp
  ultimately show ?thesis using True assms(1)
    by (simp add: at_rest_def busy_count active_of_def busy_elsewhere)
next
  case False
  with assms(1,2) have "busy_firmware s = (fst s, {})"
    by (cases s) (auto simp: at_rest_def busy_firmware_def less_2_cases_iff)
  with assms(1) show ?thesis by (simp add: at_rest_def)
qed

lemma busy_protocol:
  assumes "\<And>i x. (i, x) \<in> bnk 0 \<Longrightarrow> i \<notin> {7, 12, 13, 14}"
  shows "nfp_firmware (nic_api busy_firmware) mem_dev mem_place (runs busy_firmware) (1, 0) (7, 16) bnk"
proof (rule nfp_firmware.intro [OF nic_memory], unfold_locales, goal_cases)
  case (3 s s')
  have "fst s' 1 = fst s 1"
    by (rule runs_inv [OF 3, where P = "\<lambda>t. fst t 1 = fst s 1"]) (simp_all add: busy_elsewhere)
  then show ?case by simp
next
  case (4 s s')
  have "snd (busy_firmware t) = {}" for t by (cases t) (simp add: busy_firmware_def)
  then show ?case
    by (intro runs_inv [OF 4, where P = "\<lambda>t. snd t \<subseteq> insert (active_of (1, 0) (fst s)) (snd s)"]) auto
next
  case (5 t w)
  then show ?case by (simp add: nic_api_def mem_dev_def busy_firmware_def)
next
  case (6 s s' b i x)
  have "at_rest (1, 0) (7, 16) b s' \<and> fst s' i x = fst s i x"
    by (rule runs_inv [OF 6(1), where P = "\<lambda>t. at_rest (1, 0) (7, 16) b t \<and> fst t i x = fst s i x"])
      (use 6 busy_rest [of b _ bnk, OF _ 6(2) assms] in simp_all)
  then show ?case ..
next
  case (7 s s' b)
  have "at_rest (1, 0) (7, 16) b s'"
    by (rule runs_inv [OF 7(1), where P = "at_rest (1, 0) (7, 16) b"])
      (use 7 busy_rest [of b _ bnk, OF _ 7(2) assms] in simp_all)
  then show ?case by (simp add: at_rest_def)
qed simp_all

definition demo_flow_world :: mem_world where
  "demo_flow_world = (mem_at [(1, 0, [1, 0, 0, 0]), (12, 512, [0, 0, 0, 0, 3, 0, 0, 0]),
     (13, 2048, replicate 32 0 @ demo_key_bytes), (14, 8192, replicate 32 0 @ demo_data_bytes)])\<lparr> chosen := {1} \<rparr>"

definition demo_flow_result :: "((flow_data list \<times> SmartNicReader) \<times> mem_world) option" where
  "demo_flow_result = readFlowData (nic_api busy_firmware) demo_flow_reader demo_flow_world"

lemma demo_flow_run:
  "(case demo_flow_result of Some ((es, r'), w') \<Rightarrow> map (\<lambda>e. (fd_index e, agent_ip (fd_key e), nsec (end_time (fd_data e)))) es =
     [(0, 167772168, 7), (1, 167772169, 7)] \<and> sr_bufferState r' = 0 | None \<Rightarrow> False)"
  by code_simp

lemma demo_flow_words: "sta_word demo_flow_reader = (1, 0)" "pro_word demo_flow_reader = (7, 16)"
  by (simp_all add: sta_word_def pro_word_def demo_flow_reader_def new_SmartNicReader_def Let_def mem_api_def)

lemma demo_flow_facts:
  "sr_cpp demo_flow_reader = Some 0" "flow_sizes demo_flow_reader"
  "active_bank demo_flow_reader (fst (mem_dev demo_flow_world)) = 1"
proof -
  show "active_bank demo_flow_reader (fst (mem_dev demo_flow_world)) = 1" by code_simp
qed (simp_all add: demo_flow_reader_def new_SmartNicReader_def flow_sizes_def Let_def sizeof_stored_flow_key_def
    sizeof_stored_flow_data_def)

lemma demo_flow_islands:
  "(i, x) \<in> flow_bank demo_flow_reader 0 \<Longrightarrow> i \<in> {2, 3, 4}"
  "(i, x) \<in> flow_bank demo_flow_reader 1 \<Longrightarrow> i \<in> {12, 13, 14}"
  by (auto simp: flow_bank_def demo_flow_reader_def new_SmartNicReader_def mem_api_def bank_def Let_def)

interpretation busy_flows: nfp_firmware "nic_api busy_firmware" mem_dev mem_place "runs busy_firmware" "(1, 0)" "(7, 16)"
  "flow_bank demo_flow_reader"
  by (rule busy_protocol) (use demo_flow_islands(1) in fastforce)

lemma demo_flow_apart: "words_apart (1, 0) (7, 16) (flow_bank demo_flow_reader 1)"
  using demo_flow_islands(2) by (fastforce simp: words_apart_def)

theorem readFlowData_correct_witness:
  "\<exists>es r' w'. readFlowData (nic_api busy_firmware) demo_flow_reader demo_flow_world = Some ((es, r'), w') \<and> length es = 2 \<and>
    active_bank demo_flow_reader (cells w') = 0 \<and> flow_slots demo_flow_reader (cells w') 1 = []"
proof (cases demo_flow_result)
  case (Some p)
  obtain es r' w' where p: "p = ((es, r'), w')" by (metis prod.exhaust)
  from Some have run: "readFlowData (nic_api busy_firmware) demo_flow_reader demo_flow_world = Some ((es, r'), w')"
    by (simp add: demo_flow_result_def p)
  have "length es = 2" using demo_flow_run by (auto simp: Some p map_eq_Cons_conv)
  with readFlowData_correct [of "nic_api busy_firmware" mem_dev mem_place "runs busy_firmware" demo_flow_reader,
      unfolded demo_flow_words, OF busy_flows.nfp_firmware_axioms run demo_flow_facts(1,2)
      demo_flow_facts(3) [symmetric] demo_flow_apart] run show ?thesis by (auto simp: mem_dev_def)
qed (use demo_flow_run in simp)

theorem readFlowData_discipline_witness:
  "\<exists>es r' w'. readFlowData (traced mem_api) demo_flow_reader (demo_flow_world, []) = Some ((es, r'), w') \<and>
    areas_of (snd w') = Some ({#}, {#})"
proof -
  have ret: "readFlowData (traced mem_api) demo_flow_reader (demo_flow_world, []) \<noteq> None"
  proof -
    have "(case readFlowData (traced mem_api) demo_flow_reader (demo_flow_world, []) of None \<Rightarrow> False | _ \<Rightarrow> True)"
      by code_simp
    then show ?thesis by (auto split: option.splits)
  qed
  then obtain es r' w' where
    run: "readFlowData (traced mem_api) demo_flow_reader (demo_flow_world, []) = Some ((es, r'), w')"
    by (metis not_None_eq prod.exhaust)
  from readFlowData_discipline [OF _ run] run show ?thesis by simp
qed

end
