(* ===== verification/Counter_Reader.thy ===== *)
theory Counter_Reader
  imports Flow_Reader
begin

text \<open>
  \<^verbatim>\<open>CounterReader\<close> (\<^verbatim>\<open>src/CounterReader.cpp\<close>): reads the interface counters of the bank the flow reader has
  just retired, the opposite of the active one, and clears it. It does not switch the banks itself.
\<close>

subsection \<open>The records on the wire\<close>

record counter_key =
  ck_agent_ip :: u32
  ck_if_idx :: u32

record stored_counter =
  sc_key :: counter_key
  in_octets :: u64
  out_octets :: u64
  if_speed :: u64

record counter_data =
  cd_data :: stored_counter
  cd_index :: u32

definition sizeof_stored_counter :: nat where "sizeof_stored_counter = 32"

definition decode_counter :: "u8 list \<Rightarrow> stored_counter" where
  "decode_counter bs = \<lparr> sc_key = \<lparr> ck_agent_ip = readLe32 bs 0, ck_if_idx = readLe32 bs 4 \<rparr>,
     in_octets = readLe64 bs 8, out_octets = readLe64 bs 16, if_speed = readLe64 bs 24 \<rparr>"

subsection \<open>State\<close>

record CounterReader =
  cr_cpp :: "nfp_cpp option"
  cr_staAddr :: u64
  cr_proAddr :: u64
  cr_semAddr :: "u64 \<times> u64"
  cr_dataAddr :: "u64 \<times> u64"
  cr_staCppId :: u32
  cr_proCppId :: u32
  cr_semCppId :: "u32 \<times> u32"
  cr_dataCppId :: "u32 \<times> u32"
  cr_semSize :: nat
  cr_dataSize :: nat
  cr_slotCount :: nat

definition new_CounterReader ::
  "'w nfp_api \<Rightarrow> nfp_cpp option \<Rightarrow> u64 \<Rightarrow> u64 \<Rightarrow> u64 \<Rightarrow> u64 \<Rightarrow> u64 \<Rightarrow> u64 \<Rightarrow> u64 \<Rightarrow> u64 \<Rightarrow>
    u32 \<Rightarrow> u32 \<Rightarrow> u32 \<Rightarrow> u32 \<Rightarrow> nat \<Rightarrow> CounterReader" where
  "new_CounterReader api cpp staAddr staIsland proAddr proIsland semAddr0 semAddr1 dataAddr0 dataAddr1
      semIsland0 dataIsland0 semIsland1 dataIsland1 slotCount =
    (let cid = (\<lambda>island. island_id api kCppTargetMem kCppActionReadWrite 0 island) in
     \<lparr> cr_cpp = cpp, cr_staAddr = staAddr, cr_proAddr = proAddr, cr_semAddr = (semAddr0, semAddr1),
       cr_dataAddr = (dataAddr0, dataAddr1),
       cr_staCppId = cid (uint staIsland), cr_proCppId = cid (uint proIsland),
       cr_semCppId = (cid (uint semIsland0), cid (uint semIsland1)),
       cr_dataCppId = (cid (uint dataIsland0), cid (uint dataIsland1)),
       cr_semSize = slotCount * 4, cr_dataSize = slotCount * sizeof_stored_counter,
       cr_slotCount = slotCount \<rparr>)"

subsection \<open>Reading\<close>

text \<open>The retired bank; the area is released before the byte count is checked.\<close>

definition retired_bank ::
  "'w nfp_api \<Rightarrow> nfp_cpp \<Rightarrow> CounterReader \<Rightarrow> 'w \<Rightarrow> nat option \<times> 'w" where
  "retired_bank api cpp r w =
    (case open_area api cpp (cr_staCppId r) (cr_staAddr r) 4 w of
       (None, w) \<Rightarrow> (None, w)
     | (Some staArea, w) \<Rightarrow>
    (case read_exact api staArea 0 4 w of (staValue, w) \<Rightarrow>
       let w = area_release_free api staArea w in
       (case staValue of None \<Rightarrow> (None, w)
        | Some bytes \<Rightarrow> (Some (1 - unat (readLe32 bytes 0) mod 2), w))))"

definition read_counter_entry ::
  "'w nfp_api \<Rightarrow> area \<Rightarrow> nat \<Rightarrow> 'w \<Rightarrow> counter_data option \<times> 'w" where
  "read_counter_entry api dataArea i w =
    (case read_exact api dataArea (i * sizeof_stored_counter) sizeof_stored_counter w of
       (None, w) \<Rightarrow> (None, w)
     | (Some data, w) \<Rightarrow> (Some \<lparr> cd_data = decode_counter data, cd_index = of_nat i \<rparr>, w))"

definition drain_counter_slots ::
  "'w nfp_api \<Rightarrow> CounterReader \<Rightarrow> area \<Rightarrow> area \<Rightarrow> nat list \<Rightarrow> 'w \<Rightarrow> counter_data list \<times> 'w" where
  "drain_counter_slots api r semArea dataArea haveData w =
    (case read_slots (read_counter_entry api dataArea) haveData w of (result, w) \<Rightarrow>
     case area_fill api dataArea 0 kDataClearValue (cr_dataSize r) w of (_, w) \<Rightarrow>
     case area_fill api semArea 0 kSemUnlockValue (cr_semSize r) w of (_, w) \<Rightarrow>
       (result, area_release_free api semArea (area_release_free api dataArea w)))"

definition drain_counter_bank ::
  "'w nfp_api \<Rightarrow> nfp_cpp \<Rightarrow> CounterReader \<Rightarrow> nat \<Rightarrow> area \<Rightarrow> nat list \<Rightarrow> 'w \<Rightarrow> counter_data list \<times> 'w" where
  "drain_counter_bank api cpp r b semArea haveData w =
    (case open_area api cpp (bank (cr_dataCppId r) b) (bank (cr_dataAddr r) b) (cr_dataSize r) w of
       (None, w) \<Rightarrow> ([], area_release_free api semArea w)
     | (Some dataArea, w) \<Rightarrow> drain_counter_slots api r semArea dataArea haveData w)"

definition readCounterData ::
  "'w nfp_api \<Rightarrow> CounterReader \<Rightarrow> 'w \<Rightarrow> (counter_data list \<times> 'w) option" where
  "readCounterData api r w =
    (case cr_cpp r of
       None \<Rightarrow> Some ([], w)
     | Some cpp \<Rightarrow> if cr_slotCount r = 0 then Some ([], w) else
    (case retired_bank api cpp r w of
       (None, w) \<Rightarrow> Some ([], w)
     | (Some b, w) \<Rightarrow>
    (case wait_quiescent api cpp (cr_proCppId r) (cr_proAddr r) b w of
       None \<Rightarrow> None
     | Some (False, w) \<Rightarrow> Some ([], w)
     | Some (True, w) \<Rightarrow>
    (case open_semaphores api cpp (bank (cr_semCppId r) b) (bank (cr_semAddr r) b) (cr_slotCount r)
         (cr_semSize r) w of
       (None, w) \<Rightarrow> Some ([], w)
     | (Some (semArea, haveData), w) \<Rightarrow> Some (drain_counter_bank api cpp r b semArea haveData w)))))"

subsection \<open>The area discipline and the order of the calls\<close>

lemma retired_bank_log:
  assumes "retired_bank (traced api) cpp r w = (b, w')" "holds B w"
  shows "holds B w' \<and> quiet w w'"
proof -
  let ?api = "traced api"
  obtain oa w1 where op: "open_area ?api cpp (cr_staCppId r) (cr_staAddr r) 4 w = (oa, w1)"
    by (rule prod.exhaust)
  note h1 = open_area_holds [OF op assms(2)] and q1 = open_area_quiet [OF op]
  show ?thesis
  proof (cases oa)
    case None
    with assms(1) op h1 q1 show ?thesis by (auto simp: retired_bank_def)
  next
    case (Some a)
    obtain v w2 where rd: "read_exact ?api a 0 4 w1 = (v, w2)" by (rule prod.exhaust)
    have h2: "holds (add_mset a B) w2" using read_exact_holds [OF rd] h1 Some by simp
    have q2: "quiet w w2" by (rule quiet_trans [OF q1 read_exact_quiet [OF rd]])
    have "w' = area_release_free ?api a w2"
      using assms(1) op rd Some by (cases v) (simp_all add: retired_bank_def Let_def)
    with release_holds [OF h2] quiet_trans [OF q2 quiet_calls(6)] show ?thesis by simp
  qed
qed

lemma read_counter_entry_log:
  assumes "read_counter_entry (traced api) d i w = (e, w')" "holds B w" "d \<in># B"
  shows "holds B w' \<and> quiet w w'"
proof -
  obtain v w1 where rd: "read_exact (traced api) d (i * 32) 32 w = (v, w1)" by (rule prod.exhaust)
  with assms(1) have "w' = w1"
    by (cases v) (simp_all add: read_counter_entry_def sizeof_stored_counter_def)
  with read_exact_holds [OF rd assms(2,3)] read_exact_quiet [OF rd] show ?thesis by simp
qed

definition drained_counters :: "CounterReader \<Rightarrow> area \<Rightarrow> area \<Rightarrow> call list" where
  "drained_counters r s d = [CRelease s, CRelease d, CFill s 0 kSemUnlockValue (cr_semSize r),
     CFill d 0 kDataClearValue (cr_dataSize r)]"

lemma drain_counter_slots_log:
  assumes "drain_counter_slots (traced api) r s d sl w = (es, w')" "holds (add_mset d (add_mset s B)) w"
  shows "holds B w' \<and> (\<exists>w1. quiet w w1 \<and> snd w' = drained_counters r s d @ snd w1)"
proof -
  let ?api = "traced api" and ?B = "add_mset d (add_mset s B)"
  obtain es1 w1 where rs: "read_slots (read_counter_entry ?api d) sl w = (es1, w1)" by (rule prod.exhaust)
  have I: "holds ?B w1 \<and> quiet w w1"
  proof (rule read_slots_inv [OF _ rs, where I = "\<lambda>v. holds ?B v \<and> quiet w v"])
    fix i v e v'
    assume "holds ?B v \<and> quiet w v" "read_counter_entry ?api d i v = (e, v')"
    with read_counter_entry_log [of api d i v e v' ?B] quiet_trans [of w v v']
    show "holds ?B v' \<and> quiet w v'" by simp
  qed (simp add: assms(2))
  obtain c2 w3 where f2: "area_fill ?api d 0 kDataClearValue (cr_dataSize r) w1 = (c2, w3)" by (rule prod.exhaust)
  obtain c3 w4 where f3: "area_fill ?api s 0 kSemUnlockValue (cr_semSize r) w3 = (c3, w4)" by (rule prod.exhaust)
  have w': "w' = area_release_free ?api s (area_release_free ?api d w4)"
    using assms(1) rs f2 f3 by (simp add: drain_counter_slots_def)
  have "holds ?B w3" using area_fill_holds [OF f2] I by simp
  then have "holds ?B w4" using area_fill_holds [OF f3] by simp
  from release_holds [OF release_holds [OF this]] have "holds B w'" unfolding w' .
  moreover have "snd w' = drained_counters r s d @ snd w1"
    using f2 f3 unfolding w' drained_counters_def by (cases w1, cases w3, cases w4) auto
  ultimately show ?thesis using I by blast
qed

lemma drain_counter_bank_log:
  assumes "drain_counter_bank (traced api) cpp r b s sl w = (es, w')" "holds (add_mset s B) w"
  shows "holds B w' \<and> (quiet w w' \<and> es = [] \<or> (\<exists>d w1. quiet w w1 \<and> snd w' = drained_counters r s d @ snd w1))"
proof -
  let ?api = "traced api"
  obtain da w1 where op: "open_area ?api cpp (bank (cr_dataCppId r) b) (bank (cr_dataAddr r) b) (cr_dataSize r) w
      = (da, w1)" by (rule prod.exhaust)
  note h1 = open_area_holds [OF op assms(2)] and q1 = open_area_quiet [OF op]
  show ?thesis
  proof (cases da)
    case None
    with assms(1) op h1 quiet_trans [OF q1 quiet_calls(6)] show ?thesis
      by (auto simp: drain_counter_bank_def intro: release_holds)
  next
    case (Some d)
    then have "drain_counter_slots ?api r s d sl w1 = (es, w')"
      using assms(1) op by (simp add: drain_counter_bank_def)
    from drain_counter_slots_log [OF this, of B] h1 Some obtain w3 where
      "holds B w'" "quiet w1 w3" "snd w' = drained_counters r s d @ snd w3" by (simp del: split_paired_Ex) blast
    with quiet_trans [OF q1] show ?thesis by blast
  qed
qed

lemma read_counter_bank_log:
  assumes "open_semaphores (traced api) cpp i ad n m w2 = (so, w3)" "holds B w2" "quiet w w2"
    and "case so of None \<Rightarrow> es = [] \<and> w' = w3
      | Some (s, sl) \<Rightarrow> drain_counter_bank (traced api) cpp r b s sl w3 = (es, w')"
  shows "holds B w' \<and> (quiet w w' \<and> es = [] \<or> (\<exists>s d w1. quiet w w1 \<and> snd w' = drained_counters r s d @ snd w1))"
proof -
  note h3 = open_semaphores_holds [OF assms(1,2)]
  have q3: "quiet w w3" by (rule quiet_trans [OF assms(3) open_semaphores_quiet [OF assms(1)]])
  show ?thesis
  proof (cases so)
    case None
    with assms(4) h3 q3 show ?thesis by simp
  next
    case (Some p)
    obtain s sl where p: "p = (s, sl)" by (rule prod.exhaust)
    with assms(4) Some have "drain_counter_bank (traced api) cpp r b s sl w3 = (es, w')" by simp
    from drain_counter_bank_log [OF this] h3 Some p
    have "holds B w'" "quiet w3 w' \<and> es = [] \<or>
        (\<exists>d w1. quiet w3 w1 \<and> snd w' = drained_counters r s d @ snd w1)" by auto
    with quiet_trans [OF q3] show ?thesis by metis
  qed
qed

lemma readCounterData_log:
  assumes "readCounterData (traced api) r w = Some (es, w')" "holds B w"
  shows "holds B w' \<and> (quiet w w' \<and> es = [] \<or> (\<exists>s d w1. quiet w w1 \<and> snd w' = drained_counters r s d @ snd w1))"
proof (cases "cr_cpp r = None \<or> cr_slotCount r = 0")
  case True
  with assms show ?thesis by (auto simp: readCounterData_def split: option.splits)
next
  case False
  let ?api = "traced api"
  from False obtain cpp where cpp: "cr_cpp r = Some cpp" by auto
  obtain bo w1 where sw: "retired_bank ?api cpp r w = (bo, w1)" by (rule prod.exhaust)
  note l1 = retired_bank_log [OF sw assms(2)]
  show ?thesis
  proof (cases bo)
    case None
    with assms cpp False sw l1 show ?thesis by (auto simp: readCounterData_def)
  next
    case (Some b)
    from assms cpp False sw Some obtain idle w2 where
      wq: "wait_quiescent ?api cpp (cr_proCppId r) (cr_proAddr r) b w1 = Some (idle, w2)"
      by (auto simp: readCounterData_def split: option.splits)
    have h2: "holds B w2" using wait_quiescent_holds [OF wq] l1 by simp
    have q2: "quiet w w2" using quiet_trans [OF _ wait_quiescent_quiet [OF wq]] l1 by blast
    show ?thesis
    proof (cases idle)
      case False
      with assms cpp \<open>\<not> (cr_cpp r = None \<or> cr_slotCount r = 0)\<close> sw Some wq h2 q2 show ?thesis
        by (simp add: readCounterData_def)
    next
      case True
      obtain so w3 where os: "open_semaphores ?api cpp (bank (cr_semCppId r) b) (bank (cr_semAddr r) b)
          (cr_slotCount r) (cr_semSize r) w2 = (so, w3)" by (rule prod.exhaust)
      from assms cpp False sw Some wq True os
      have "case so of None \<Rightarrow> es = [] \<and> w' = w3
          | Some (s, sl) \<Rightarrow> drain_counter_bank ?api cpp r b s sl w3 = (es, w')"
        by (cases so) (auto simp: readCounterData_def)
      from read_counter_bank_log [OF os h2 q2 this] show ?thesis .
    qed
  qed
qed

text \<open>
  C26 (safety). A counter read closes every area it opens, on every path and whatever the SDK calls
  return. It either returns nothing and fills nothing, or its log ends with the fill of the counters,
  then the fill of the semaphores and the two releases, with no fill before.
\<close>

theorem readCounterData_discipline:
  assumes "areas_of (snd w) = Some ({#}, {#})" "readCounterData (traced api) r w = Some (es, w')"
  shows "areas_of (snd w') = Some ({#}, {#}) \<and>
    (quiet w w' \<and> es = [] \<or> (\<exists>s d w1. quiet w w1 \<and> snd w' = drained_counters r s d @ snd w1))"
  using readCounterData_log [OF assms(2), of "{#}"] assms(1) by (simp add: holds_def)

subsection \<open>Against device memory\<close>

definition counter_at :: "CounterReader \<Rightarrow> mem \<Rightarrow> nat \<Rightarrow> nat \<Rightarrow> counter_data" where
  "counter_at r c b i = \<lparr> cd_data = decode_counter
       (mem_bytes (c (bank (cr_dataCppId r) b)) (bank (cr_dataAddr r) b) (i * 32) 32), cd_index = of_nat i \<rparr>"

definition counter_slots :: "CounterReader \<Rightarrow> mem \<Rightarrow> nat \<Rightarrow> nat list" where
  "counter_slots r c b = filter (\<lambda>i. word_at (c (bank (cr_semCppId r) b)) (bank (cr_semAddr r) b + of_nat (i * 4)) = 3)
     [0..<cr_slotCount r]"

definition counter_bank :: "CounterReader \<Rightarrow> nat \<Rightarrow> (u32 \<times> u64) set" where
  "counter_bank r b = region (bank (cr_dataCppId r) b) (bank (cr_dataAddr r) b) (cr_dataSize r) \<union>
     region (bank (cr_semCppId r) b) (bank (cr_semAddr r) b) (cr_semSize r)"

definition counter_sizes :: "CounterReader \<Rightarrow> bool" where
  "counter_sizes r \<longleftrightarrow> 0 < cr_slotCount r \<and> cr_slotCount r < 2 ^ 26 \<and> cr_semSize r = cr_slotCount r * 4 \<and>
     cr_dataSize r = cr_slotCount r * 32"

lemma ready_counter_slots:
  assumes "counter_sizes r"
  shows "ready_slots (cr_slotCount r)
      (mem_bytes (c (bank (cr_semCppId r) b)) (bank (cr_semAddr r) b) 0 (cr_semSize r)) = counter_slots r c b"
  using assms unfolding ready_slots_def counter_slots_def counter_sizes_def
  by (intro filter_cong) (simp_all add: word_in_block kSemDataReady_def)

text \<open>The records of a bank depend on the memory of the bank only.\<close>

lemma counter_view:
  assumes "counter_sizes r" "agree_off S c d" "S \<inter> counter_bank r b = {}"
  shows "map (counter_at r c b) (counter_slots r c b) = map (counter_at r d b) (counter_slots r d b)"
proof -
  have sub: "region (bank (cr_semCppId r) b) (bank (cr_semAddr r) b) (cr_semSize r) \<subseteq> counter_bank r b"
    "region (bank (cr_dataCppId r) b) (bank (cr_dataAddr r) b) (cr_dataSize r) \<subseteq> counter_bank r b"
    by (auto simp: counter_bank_def)
  have dis: "S \<inter> R = {}" if "R \<subseteq> counter_bank r b" for R using assms(3) that by blast
  have lt: "cr_semSize r < 2 ^ 64" "cr_dataSize r < 2 ^ 64"
    using assms(1) by (simp_all add: counter_sizes_def)
  have "mem_bytes (c (bank (cr_semCppId r) b)) (bank (cr_semAddr r) b) 0 (cr_semSize r) =
      mem_bytes (d (bank (cr_semCppId r) b)) (bank (cr_semAddr r) b) 0 (cr_semSize r)"
    by (rule agree_off_bytes [OF assms(2) dis [OF sub(1)] _ lt(1)]) simp
  then have sl: "counter_slots r c b = counter_slots r d b"
    unfolding ready_counter_slots [OF assms(1), symmetric] by (rule arg_cong)
  have "counter_at r c b i = counter_at r d b i" if "i < cr_slotCount r" for i
  proof -
    have "i * 32 + 32 \<le> cr_slotCount r * 32" using that by simp
    then have le: "i * 32 + 32 \<le> cr_dataSize r" using assms(1) by (simp add: counter_sizes_def)
    show ?thesis unfolding counter_at_def agree_off_bytes [OF assms(2) dis [OF sub(2)] le lt(2)] ..
  qed
  then show ?thesis unfolding sl by (auto simp: counter_slots_def)
qed

context nfp_firmware
begin

lemma retired_bank_law:
  assumes "sta = (cr_staCppId r, cr_staAddr r)"
  shows "\<exists>w'. retired_bank api cpp r w = (Some (1 - active_of sta (fst (dev w))), w') \<and> rely (dev w) (dev w')"
proof -
  let ?i = "cr_staCppId r" and ?ad = "cr_staAddr r"
  have al: "4 dvd unat ?ad" using aligned(1) assms by simp
  obtain a w1 where op: "open_area api cpp ?i ?ad 4 w = (Some a, w1)"
      "place w1 = (place w)(a \<mapsto> (?i, ?ad))" "rely (dev w) (dev w1)"
    using open_law by blast
  then have "place w1 a = Some (?i, ?ad)" by simp
  from read_word_law [OF this, of 0] al obtain s w2 where
    rd: "read_exact api a 0 4 w1 = (Some (mem_bytes (fst s ?i) ?ad 0 4), w2)" "rely (dev w1) s" "rely s (dev w2)" by auto
  have "active_of sta (fst s) = active_of sta (fst (dev w))"
    by (rule active_stays [OF rely_trans [OF op(3) rd(2)]])
  then have "unat (readLe32 (mem_bytes (fst s ?i) ?ad 0 4) 0) mod 2 = active_of sta (fst (dev w))"
    by (simp add: assms active_of_def word_at_def)
  with op(1) rd(1) have "retired_bank api cpp r w = (Some (1 - active_of sta (fst (dev w))), area_release_free api a w2)"
    by (simp add: retired_bank_def Let_def)
  moreover have "rely (dev w2) (dev (area_release_free api a w2))" using release_law by blast
  from rely_trans [OF op(3) rely_trans [OF rd(2) rely_trans [OF rd(3) this]]]
  have "rely (dev w) (dev (area_release_free api a w2))" .
  ultimately show ?thesis by blast
qed

lemma read_counter_slots_rest:
  assumes "counter_sizes r" "counter_bank r b \<subseteq> bnk b" "b < 2" "set is \<subseteq> {..<cr_slotCount r}"
    and "place w d = Some (bank (cr_dataCppId r) b, bank (cr_dataAddr r) b)" "kept b m (dev w)"
  shows "\<exists>w'. read_slots (read_counter_entry api d) is w = (map (counter_at r (fst m) b) is, w') \<and>
    place w' = place w \<and> rely (dev w) (dev w') \<and> kept b m (dev w')"
  using assms(4-6)
proof (induction "is" arbitrary: w)
  case Nil
  then show ?case by (simp add: rely_refl)
next
  case (Cons i "is")
  have "i < cr_slotCount r" using Cons.prems(1) by simp
  then have "i * 32 + 32 \<le> cr_slotCount r * 32" by simp
  then have le: "i * 32 + 32 \<le> cr_dataSize r" and lt: "cr_dataSize r < 2 ^ 64"
    using assms(1) by (simp_all add: counter_sizes_def)
  have sub: "region (bank (cr_dataCppId r) b) (bank (cr_dataAddr r) b) (cr_dataSize r) \<subseteq> bnk b"
    using assms(2) by (auto simp: counter_bank_def)
  obtain w1 where r1: "read_exact api d (i * 32) 32 w =
      (Some (mem_bytes (fst m (bank (cr_dataCppId r) b)) (bank (cr_dataAddr r) b) (i * 32) 32), w1)"
      "place w1 = place w" "rely (dev w) (dev w1)" "kept b m (dev w1)"
    using read_rest [OF Cons.prems(2) _ le lt sub Cons.prems(3) assms(3)] by auto
  from Cons.IH [of w1] Cons.prems r1(2,4) obtain w' where
    "read_slots (read_counter_entry api d) is w1 = (map (counter_at r (fst m) b) is, w')"
    "place w' = place w" "rely (dev w1) (dev w')" "kept b m (dev w')" by auto
  moreover have "read_counter_entry api d i w = (Some (counter_at r (fst m) b i), w1)"
    using r1(1) by (simp add: read_counter_entry_def counter_at_def sizeof_stored_counter_def)
  ultimately show ?case using rely_trans [OF r1(3)] by simp
qed

lemma drain_counter_bank_rest:
  assumes "counter_sizes r" "counter_bank r b \<subseteq> bnk b" "b < 2" "set is \<subseteq> {..<cr_slotCount r}"
    and "words_apart sta pro (bnk b)" "kept b m (dev w)"
    and "place w s = Some (bank (cr_semCppId r) b, bank (cr_semAddr r) b)"
  shows "\<exists>w'. drain_counter_bank api cpp r b s is w = (map (counter_at r (fst m) b) is, w') \<and>
    at_rest sta pro b (dev w') \<and>
    (\<forall>i x. (i, x) \<in> bnk b \<longrightarrow> fst (dev w') i x = (if (i, x) \<in> counter_bank r b then 0 else fst m i x))"
proof -
  let ?di = "bank (cr_dataCppId r) b" and ?da = "bank (cr_dataAddr r) b"
  let ?si = "bank (cr_semCppId r) b" and ?sa = "bank (cr_semAddr r) b"
  obtain d w2 where d: "open_area api cpp ?di ?da (cr_dataSize r) w = (Some d, w2)" "place w d = None"
      "place w2 = (place w)(d \<mapsto> (?di, ?da))" "rely (dev w) (dev w2)" using open_law by blast
  have p2: "place w2 d = Some (?di, ?da)" "place w2 s = Some (?si, ?sa)"
    using d(2,3) assms(7) by auto
  have k2: "kept b m (dev w2)" by (rule kept_rely [OF assms(6) d(4) assms(3)])
  obtain w3 where rs: "read_slots (read_counter_entry api d) is w2 = (map (counter_at r (fst m) b) is, w3)"
      "place w3 = place w2" "rely (dev w2) (dev w3)" "kept b m (dev w3)"
    using read_counter_slots_rest [OF assms(1-4) p2(1) k2] by blast
  have dv: "4 dvd cr_dataSize r" "4 dvd cr_semSize r" and lt: "cr_dataSize r < 2 ^ 64" "cr_semSize r < 2 ^ 64"
    using assms(1) by (auto simp: counter_sizes_def)
  have sub: "region ?di ?da (cr_dataSize r) \<subseteq> bnk b" "region ?si ?sa (cr_semSize r) \<subseteq> bnk b"
    using assms(2) by (auto simp: counter_bank_def)
  have p3: "place w3 d = Some (?di, ?da)" and r3: "at_rest sta pro b (dev w3)"
    using rs(2,4) p2(1) by (simp_all add: kept_def)
  obtain c5 w5 where f5: "area_fill api d 0 0 (cr_dataSize r) w3 = (c5, w5)" by (rule prod.exhaust)
  note l5 = fill_rest [OF f5 p3 dv(1) lt(1) r3 assms(3,5) sub(1)]
  have p5: "place w5 s = Some (?si, ?sa)" and r5: "at_rest sta pro b (dev w5)" using l5 rs(2) p2(2) by simp_all
  obtain c6 w6 where f6: "area_fill api s 0 0 (cr_semSize r) w5 = (c6, w6)" by (rule prod.exhaust)
  note l6 = fill_rest [OF f6 p5 dv(2) lt(2) r5 assms(3,5) sub(2)]
  let ?w = "area_release_free api s (area_release_free api d w6)"
  have "drain_counter_bank api cpp r b s is w = (map (counter_at r (fst m) b) is, ?w)"
    using d(1) rs(1) f5 f6
    by (simp add: drain_counter_bank_def drain_counter_slots_def kDataClearValue_def kSemUnlockValue_def)
  moreover have "rely (dev w6) (dev ?w)" using release_law rely_trans by meson
  then have "kept b (dev w6) (dev ?w)" using rest_kept [OF _ assms(3)] l6 by blast
  moreover have "fst (dev w6) i x = (if (i, x) \<in> counter_bank r b then 0 else fst m i x)" if "(i, x) \<in> bnk b" for i x
  proof -
    have e: "fst (dev w3) i x = fst m i x" using rs(4) that by (simp add: kept_def)
    have "fst (dev w6) i x = (if (i, x) \<in> region ?si ?sa (cr_semSize r) then 0
        else if (i, x) \<in> region ?di ?da (cr_dataSize r) then 0 else fst m i x)"
      using l5 l6 that e by (simp del: region_iff)
    then show ?thesis by (simp add: counter_bank_def)
  qed
  ultimately show ?thesis by (simp add: kept_def)
qed

lemma readCounterData_law:
  assumes run: "readCounterData api r w = Some (es, w')" and cpp: "cr_cpp r = Some cpp"
    and sz: "counter_sizes r" and words: "sta = (cr_staCppId r, cr_staAddr r)"
    and rest: "at_rest sta pro b (dev w)" and b2: "b < 2"
    and sub: "counter_bank r b \<subseteq> bnk b" and sep: "words_apart sta pro (bnk b)"
  shows "es = map (counter_at r (fst (dev w)) b) (counter_slots r (fst (dev w)) b) \<and> at_rest sta pro b (dev w') \<and>
    (\<forall>i x. (i, x) \<in> bnk b \<longrightarrow> fst (dev w') i x = (if (i, x) \<in> counter_bank r b then 0 else fst (dev w) i x))"
proof -
  let ?m = "dev w"
  have "active_of sta (fst ?m) \<noteq> b" "active_of sta (fst ?m) < 2"
    using rest active_of_less by (simp_all add: at_rest_def)
  then have b: "1 - active_of sta (fst ?m) = b" using b2 by simp
  obtain w1 where sw: "retired_bank api cpp r w = (Some b, w1)" "rely (dev w) (dev w1)"
    using retired_bank_law [OF words, of cpp w] unfolding b by blast
  from run cpp sz sw(1) obtain idle w2 where
    wq: "wait_quiescent api cpp (cr_proCppId r) (cr_proAddr r) b w1 = Some (idle, w2)"
    by (auto simp: readCounterData_def counter_sizes_def split: option.splits)
  have idle: idle and "rely (dev w1) (dev w2)" using wait_quiescent_law [OF wq] by blast+
  then have k2: "kept b ?m (dev w2)" using rest_kept [OF rely_trans [OF sw(2)] b2 rest] by blast
  have semlt: "cr_semSize r < 2 ^ 31" using sz by (simp add: counter_sizes_def)
  have semsub: "region (bank (cr_semCppId r) b) (bank (cr_semAddr r) b) (cr_semSize r) \<subseteq> bnk b"
    using sub by (auto simp: counter_bank_def)
  obtain s w3 where sm: "open_semaphores api cpp (bank (cr_semCppId r) b) (bank (cr_semAddr r) b) (cr_slotCount r)
      (cr_semSize r) w2 = (Some (s, counter_slots r (fst ?m) b), w3)"
      "place w3 s = Some (bank (cr_semCppId r) b, bank (cr_semAddr r) b)" "kept b ?m (dev w3)"
    using open_semaphores_rest [OF semlt semsub k2 b2, of cpp "cr_slotCount r"]
    unfolding ready_counter_slots [OF sz] by blast
  have sl: "set (counter_slots r (fst ?m) b) \<subseteq> {..<cr_slotCount r}" by (auto simp: counter_slots_def)
  obtain w4 where dr: "drain_counter_bank api cpp r b s (counter_slots r (fst ?m) b) w3 =
      (map (counter_at r (fst ?m) b) (counter_slots r (fst ?m) b), w4)" "at_rest sta pro b (dev w4)"
      "\<forall>i x. (i, x) \<in> bnk b \<longrightarrow> fst (dev w4) i x = (if (i, x) \<in> counter_bank r b then 0 else fst ?m i x)"
    using drain_counter_bank_rest [OF sz sub b2 sl sep sm(3,2), of cpp] by blast
  have "es = map (counter_at r (fst ?m) b) (counter_slots r (fst ?m) b)" "w' = w4"
    using run cpp sz sw(1) wq idle sm(1) dr(1) by (simp_all add: readCounterData_def counter_sizes_def)
  with dr(2,3) show ?thesis by blast
qed

end

text \<open>One tick of the I/O thread: the flows, then the counters.\<close>

definition read_tick ::
  "'w nfp_api \<Rightarrow> SmartNicReader \<Rightarrow> CounterReader \<Rightarrow> 'w \<Rightarrow>
    ((flow_data list \<times> counter_data list \<times> SmartNicReader) \<times> 'w) option" where
  "read_tick api fr cr w =
    (case readFlowData api fr w of
       None \<Rightarrow> None
     | Some ((flows, fr), w) \<Rightarrow>
        (case readCounterData api cr w of
           None \<Rightarrow> None
         | Some (counters, w) \<Rightarrow> Some ((flows, counters, fr), w)))"

text \<open>Both banks of a tick: what the firmware must leave alone once the bank is at rest.\<close>

definition tick_bank :: "SmartNicReader \<Rightarrow> CounterReader \<Rightarrow> nat \<Rightarrow> (u32 \<times> u64) set" where
  "tick_bank fr cr b = flow_bank fr b \<union> counter_bank cr b"

lemma read_tick_snapshot:
  assumes "nfp_firmware api dev place rely (sta_word fr) (pro_word fr) (tick_bank fr cr)"
    and "read_tick api fr cr w = Some ((flows, counters, fr'), w')"
    and "sr_cpp fr = Some cpp" "flow_sizes fr" "cr_cpp cr = Some cpp'" "counter_sizes cr"
    and "sta_word fr = (cr_staCppId cr, cr_staAddr cr)" "b = active_bank fr (fst (dev w))"
    and "words_apart (sta_word fr) (pro_word fr) (tick_bank fr cr b)" "flow_bank fr b \<inter> counter_bank cr b = {}"
  shows "\<exists>m. retires rely (sta_word fr) (pro_word fr) b (dev w) m \<and>
    flows = map (flow_at fr (fst m) b) (flow_slots fr (fst m) b) \<and>
    counters = map (counter_at cr (fst m) b) (counter_slots cr (fst m) b) \<and>
    active_bank fr (fst (dev w')) = 1 - b \<and>
    (\<forall>i x. (i, x) \<in> tick_bank fr cr b \<longrightarrow> fst (dev w') i x = 0)"
proof -
  obtain w1 where fl: "readFlowData api fr w = Some ((flows, fr'), w1)"
    and ct: "readCounterData api cr w1 = Some (counters, w')"
    using assms(2) by (auto simp: read_tick_def split: option.splits)
  have sub: "flow_bank fr b \<subseteq> tick_bank fr cr b" "counter_bank cr b \<subseteq> tick_bank fr cr b"
    by (auto simp: tick_bank_def)
  have b2: "b < 2" using assms(8) active_of_less by (simp add: active_bank_def)
  obtain m where m: "retires rely (sta_word fr) (pro_word fr) b (dev w) m"
    "flows = map (flow_at fr (fst m) b) (flow_slots fr (fst m) b)" "at_rest (sta_word fr) (pro_word fr) b (dev w1)"
    "\<And>i x. (i, x) \<in> tick_bank fr cr b \<Longrightarrow> fst (dev w1) i x = (if (i, x) \<in> flow_bank fr b then 0 else fst m i x)"
    using nfp_firmware.readFlowData_law [OF assms(1) fl assms(3,4) refl refl assms(8) [unfolded active_bank_def] sub(1)
        assms(9)] by blast
  from nfp_firmware.readCounterData_law [OF assms(1) ct assms(5-7) m(3) b2 sub(2) assms(9)]
  have C: "counters = map (counter_at cr (fst (dev w1)) b) (counter_slots cr (fst (dev w1)) b)"
    "at_rest (sta_word fr) (pro_word fr) b (dev w')"
    "\<And>i x. (i, x) \<in> tick_bank fr cr b \<Longrightarrow> fst (dev w') i x = (if (i, x) \<in> counter_bank cr b then 0 else fst (dev w1) i x)"
    by blast+
  have "agree_off (- counter_bank cr b) (fst (dev w1)) (fst m)"
    using m(4) assms(10) unfolding agree_off_def tick_bank_def by auto
  from counter_view [OF assms(6) this]
  have "counters = map (counter_at cr (fst m) b) (counter_slots cr (fst m) b)" unfolding C(1) by simp
  moreover have "active_bank fr (fst (dev w')) = 1 - b"
    using C(2) b2 active_of_less [of "sta_word fr" "fst (dev w')"] by (auto simp: at_rest_def active_bank_def)
  moreover have "fst (dev w') i x = 0" if "(i, x) \<in> tick_bank fr cr b" for i x
    using that C(3) [OF that] m(4) [OF that] by (auto simp: tick_bank_def)
  ultimately show ?thesis using m(1,2) by blast
qed

text \<open>
  C3 (functional). The flows and the counters of one tick are one snapshot, although the firmware is at work
  all the time: both readers return what the bank that was active when the tick began holds at one and the
  same moment, at which it has come to rest. The counter reader finds that bank from a state word the flow
  reader has changed in between. Afterwards the bank is zero and the other one is active.
\<close>

theorem read_tick_one_snapshot:
  assumes "nfp_firmware api dev place rely (sta_word fr) (pro_word fr) (tick_bank fr cr)"
    and "read_tick api fr cr w = Some ((flows, counters, fr'), w')"
    and "sr_cpp fr = Some cpp" "flow_sizes fr" "cr_cpp cr = Some cpp'" "counter_sizes cr"
    and "sta_word fr = (cr_staCppId cr, cr_staAddr cr)" "b = active_bank fr (fst (dev w))"
    and "words_apart (sta_word fr) (pro_word fr) (tick_bank fr cr b)" "flow_bank fr b \<inter> counter_bank cr b = {}"
  shows "\<exists>m. retires rely (sta_word fr) (pro_word fr) b (dev w) m \<and>
    flows = map (flow_at fr (fst m) b) (flow_slots fr (fst m) b) \<and>
    counters = map (counter_at cr (fst m) b) (counter_slots cr (fst m) b) \<and>
    active_bank fr (fst (dev w')) = 1 - b \<and>
    (\<forall>i x. (i, x) \<in> tick_bank fr cr b \<longrightarrow> fst (dev w') i x = 0)"
  by (rule read_tick_snapshot [OF assms])

subsection \<open>When a tick's reads return\<close>

context nfp_firmware
begin

text \<open>The wait for a bank at rest is over with its first poll.\<close>

lemma wait_quiescent_rest:
  assumes "at_rest sta pro b (dev w)" "b < 2"
  shows "\<exists>w'. wait_quiescent api cpp (fst pro) (snd pro) b w = Some (True, w')"
proof -
  obtain a w1 where op: "open_area api cpp (fst pro) (snd pro) 8 w = (Some a, w1)"
      "place w1 = (place w)(a \<mapsto> (fst pro, snd pro))" "rely (dev w) (dev w1)"
    using open_law by blast
  have "place w1 a = Some (fst pro, snd pro)" "4 dvd unat (snd pro) + b * 4" using op(2) aligned(2) by simp_all
  from read_word_law [OF this] obtain s w2 where
    rd: "read_exact api a (b * 4) 4 w1 = (Some (mem_bytes (fst s (fst pro)) (snd pro) (b * 4) 4), w2)"
    and s: "rely (dev w1) s" by blast
  have "kept b (dev w) s" by (rule rest_kept [OF rely_trans [OF op(3) s] assms(2,1)])
  then have "readLe32 (mem_bytes (fst s (fst pro)) (snd pro) (b * 4) 4) 0 = 0"
    by (simp add: kept_def at_rest_def count_of_def)
  with rd have "await_idle api a (b * 4) w1 = Some (True, w2)" by (subst await_idle.simps) simp
  with op(1) show ?thesis by (simp add: wait_quiescent_def)
qed

lemma readCounterData_returns:
  assumes "at_rest sta pro b (dev w)" "b < 2" "sta = (cr_staCppId r, cr_staAddr r)" "pro = (cr_proCppId r, cr_proAddr r)"
  shows "readCounterData api r w \<noteq> None"
proof (cases "cr_cpp r = None \<or> cr_slotCount r = 0")
  case True
  then show ?thesis by (auto simp: readCounterData_def split: option.splits)
next
  case False
  then obtain cpp where cpp: "cr_cpp r = Some cpp" by auto
  have "active_of sta (fst (dev w)) \<noteq> b" "active_of sta (fst (dev w)) < 2"
    using assms(1) active_of_less by (simp_all add: at_rest_def)
  then have b: "1 - active_of sta (fst (dev w)) = b" using assms(2) by simp
  obtain w1 where sw: "retired_bank api cpp r w = (Some b, w1)" "rely (dev w) (dev w1)"
    using retired_bank_law [OF assms(3), of cpp w] unfolding b by blast
  have "at_rest sta pro b (dev w1)" using rest_kept [OF sw(2) assms(2,1)] by (simp add: kept_def)
  from wait_quiescent_rest [OF this assms(2), of cpp] obtain w2 where
    "wait_quiescent api cpp (cr_proCppId r) (cr_proAddr r) b w1 = Some (True, w2)" unfolding assms(4) by auto
  with cpp False sw(1) show ?thesis by (simp add: readCounterData_def split: prod.splits option.splits)
qed

lemma readFlowData_returns:
  assumes "sr_cpp r = Some cpp" "flow_sizes r" "sta = sta_word r" "b = active_of sta (fst (dev w))"
  shows "readFlowData api r w \<noteq> None \<longleftrightarrow>
    (\<exists>a w1 n. open_area api cpp (sr_proCppId r) (sr_proAddr r) 8 (sleep_ms api 1 (snd (switch_bank api cpp r w))) =
      (Some a, w1) \<and> idle_after api a (b * 4) n w1)"
proof -
  obtain w1 where sw: "switch_bank api cpp r w = (Some b, w1)" using switch_bank_law [OF assms(3,4)] by blast
  obtain a w2 where op: "open_area api cpp (sr_proCppId r) (sr_proAddr r) 8 (sleep_ms api 1 w1) = (Some a, w2)"
    using open_law by blast
  have "readFlowData api r w \<noteq> None \<longleftrightarrow>
      wait_quiescent api cpp (sr_proCppId r) (sr_proAddr r) b (sleep_ms api 1 w1) \<noteq> None"
    using assms(1,2) sw
    by (auto simp: readFlowData_def flow_sizes_def Let_def split: option.splits prod.splits bool.splits)
  also have "\<dots> \<longleftrightarrow> await_idle api a (b * 4) w2 \<noteq> None"
    using op by (auto simp: wait_quiescent_def split: option.splits)
  also have "\<dots> \<longleftrightarrow> (\<exists>n. idle_after api a (b * 4) n w2)" by (rule await_idle_returns)
  finally show ?thesis using sw op by simp
qed

end

lemma read_tick_waits:
  assumes "nfp_firmware api dev place rely (sta_word fr) (pro_word fr) (tick_bank fr cr)"
    and "sr_cpp fr = Some cpp" "flow_sizes fr" "sta_word fr = (cr_staCppId cr, cr_staAddr cr)"
    and "pro_word fr = (cr_proCppId cr, cr_proAddr cr)" "b = active_bank fr (fst (dev w))"
    and "words_apart (sta_word fr) (pro_word fr) (tick_bank fr cr b)"
  shows "read_tick api fr cr w \<noteq> None \<longleftrightarrow>
    (\<exists>a w1 n. open_area api cpp (sr_proCppId fr) (sr_proAddr fr) 8 (sleep_ms api 1 (snd (switch_bank api cpp fr w))) =
      (Some a, w1) \<and> idle_after api a (b * 4) n w1)"
proof -
  have b: "b = active_of (sta_word fr) (fst (dev w))" using assms(6) by (simp add: active_bank_def)
  have "read_tick api fr cr w \<noteq> None \<longleftrightarrow> readFlowData api fr w \<noteq> None"
  proof (cases "readFlowData api fr w")
    case (Some p)
    obtain flows fr' w1 where p: "p = ((flows, fr'), w1)" by (metis prod.exhaust)
    have sub: "flow_bank fr b \<subseteq> tick_bank fr cr b" by (auto simp: tick_bank_def)
    have "at_rest (sta_word fr) (pro_word fr) b (dev w1)"
      using nfp_firmware.readFlowData_law [OF assms(1) Some [unfolded p] assms(2,3) refl refl b sub assms(7)] by blast
    from nfp_firmware.readCounterData_returns [OF assms(1) this _ assms(4,5)] b active_of_less
    have "readCounterData api cr w1 \<noteq> None" by simp
    with Some p show ?thesis by (auto simp: read_tick_def split: option.splits prod.splits)
  qed (simp add: read_tick_def)
  also note nfp_firmware.readFlowData_returns [OF assms(1-3) refl b]
  finally show ?thesis .
qed

text \<open>
  C4 (termination). With the firmware keeping its side of the protocol, the reads of a tick return exactly when
  one of the flow reader's polls finds the count of the retired bank at zero: nothing else in them can wait
  for ever, and the counter reader's wait for the same bank is over with its first poll. While the count
  stays above zero the reads do not return, and the I/O thread cannot be shut down.
\<close>

theorem read_tick_returns:
  assumes "nfp_firmware api dev place rely (sta_word fr) (pro_word fr) (tick_bank fr cr)"
    and "sr_cpp fr = Some cpp" "flow_sizes fr" "sta_word fr = (cr_staCppId cr, cr_staAddr cr)"
    and "pro_word fr = (cr_proCppId cr, cr_proAddr cr)" "b = active_bank fr (fst (dev w))"
    and "words_apart (sta_word fr) (pro_word fr) (tick_bank fr cr b)"
  shows "read_tick api fr cr w \<noteq> None \<longleftrightarrow>
    (\<exists>a w1 n. open_area api cpp (sr_proCppId fr) (sr_proAddr fr) 8 (sleep_ms api 1 (snd (switch_bank api cpp fr w))) =
      (Some a, w1) \<and> idle_after api a (b * 4) n w1)"
  by (rule read_tick_waits [OF assms])

subsection \<open>A worked tick\<close>

text \<open>The flows of the worked flow read, and counters of interface 3 in the first slot of the same bank.\<close>

definition demo_counter_reader :: CounterReader where
  "demo_counter_reader = new_CounterReader mem_api (Some 0) 0 1 16 7 256 512 1024 2048 5 6 5 6 1"

definition demo_counter_bytes :: "u8 list" where
  "demo_counter_bytes = [9, 0, 0, 10, 3, 0, 0, 0, 100, 0, 0, 0, 0, 0, 0, 0, 200, 0, 0, 0, 0, 0, 0, 0,
     16, 39, 0, 0, 0, 0, 0, 0]"

definition demo_tick_world :: mem_world where
  "demo_tick_world = (mem_at [(1, 0, [1, 0, 0, 0]), (12, 512, [0, 0, 0, 0, 3, 0, 0, 0]),
     (13, 2048, replicate 32 0 @ demo_key_bytes), (14, 8192, replicate 32 0 @ demo_data_bytes),
     (5, 512, [3, 0, 0, 0]), (6, 2048, demo_counter_bytes)])\<lparr> chosen := {1} \<rparr>"

lemma demo_tick_run:
  "(case read_tick (nic_api busy_firmware) demo_flow_reader demo_counter_reader demo_tick_world of
     Some ((flows, counters, fr), w) \<Rightarrow> map (\<lambda>c. if_speed (cd_data c)) counters = [10000] \<and> length flows = 2
   | None \<Rightarrow> False)"
  by code_simp

lemma demo_counter_facts:
  "cr_cpp demo_counter_reader = Some 0" "counter_sizes demo_counter_reader"
  "sta_word demo_flow_reader = (cr_staCppId demo_counter_reader, cr_staAddr demo_counter_reader)"
  "pro_word demo_flow_reader = (cr_proCppId demo_counter_reader, cr_proAddr demo_counter_reader)"
  unfolding demo_flow_words
  by (simp_all add: demo_counter_reader_def new_CounterReader_def counter_sizes_def sizeof_stored_counter_def
      Let_def mem_api_def)

lemma demo_counter_islands: "(i, x) \<in> counter_bank demo_counter_reader b \<Longrightarrow> i \<in> {5, 6}"
  by (cases "b = 0") (auto simp: counter_bank_def demo_counter_reader_def new_CounterReader_def mem_api_def bank_def Let_def)

lemma demo_tick_islands:
  "(i, x) \<in> tick_bank demo_flow_reader demo_counter_reader 0 \<Longrightarrow> i \<in> {2, 3, 4, 5, 6}"
  "(i, x) \<in> tick_bank demo_flow_reader demo_counter_reader 1 \<Longrightarrow> i \<in> {5, 6, 12, 13, 14}"
  unfolding tick_bank_def by ((elim UnE; drule demo_flow_islands demo_counter_islands; auto)+)

interpretation busy_ticks: nfp_firmware "nic_api busy_firmware" mem_dev mem_place "runs busy_firmware" "(1, 0)" "(7, 16)"
  "tick_bank demo_flow_reader demo_counter_reader"
  by (rule busy_protocol) (use demo_tick_islands(1) in fastforce)

lemmas busy_tick_firmware = busy_ticks.nfp_firmware_axioms [folded demo_flow_words]

lemma demo_tick_apart:
  "words_apart (sta_word demo_flow_reader) (pro_word demo_flow_reader) (tick_bank demo_flow_reader demo_counter_reader 1)"
  "flow_bank demo_flow_reader 1 \<inter> counter_bank demo_counter_reader 1 = {}"
proof -
  have "fst p \<in> {5, 6, 12, 13, 14}" if "p \<in> tick_bank demo_flow_reader demo_counter_reader 1" for p
    using demo_tick_islands(2) [of "fst p" "snd p"] that by simp
  then show "words_apart (sta_word demo_flow_reader) (pro_word demo_flow_reader) (tick_bank demo_flow_reader demo_counter_reader 1)"
    unfolding demo_flow_words by (fastforce simp: words_apart_def)
  show "flow_bank demo_flow_reader 1 \<inter> counter_bank demo_counter_reader 1 = {}"
    using demo_flow_islands(2) demo_counter_islands by fastforce
qed

theorem read_tick_one_snapshot_witness:
  "\<exists>flows counters fr w. read_tick (nic_api busy_firmware) demo_flow_reader demo_counter_reader demo_tick_world =
      Some ((flows, counters, fr), w) \<and> length flows = 2 \<and> length counters = 1 \<and>
    active_bank demo_flow_reader (cells w) = 0 \<and>
    (\<exists>c. flows = map (flow_at demo_flow_reader c 1) (flow_slots demo_flow_reader c 1) \<and>
      counters = map (counter_at demo_counter_reader c 1) (counter_slots demo_counter_reader c 1))"
proof (cases "read_tick (nic_api busy_firmware) demo_flow_reader demo_counter_reader demo_tick_world")
  case (Some p)
  obtain flows counters fr w where p: "p = ((flows, counters, fr), w)" by (metis prod.exhaust)
  have act: "1 = active_bank demo_flow_reader (fst (mem_dev demo_tick_world))" by code_simp
  have "length flows = 2" "length counters = 1" using demo_tick_run by (auto simp: Some p map_eq_Cons_conv)
  with read_tick_one_snapshot [OF busy_tick_firmware Some [unfolded p] demo_flow_facts(1,2)
      demo_counter_facts(1-3) act demo_tick_apart] Some p show ?thesis by (auto simp: mem_dev_def)
qed (use demo_tick_run in simp)

text \<open>The worked firmware needs two polls: at the first one its thread is still writing.\<close>

theorem read_tick_returns_witness:
  "\<exists>a w1 n. open_area (nic_api busy_firmware) 0 (sr_proCppId demo_flow_reader) (sr_proAddr demo_flow_reader) 8
      (sleep_ms (nic_api busy_firmware) 1 (snd (switch_bank (nic_api busy_firmware) 0 demo_flow_reader demo_tick_world))) =
      (Some a, w1) \<and> idle_after (nic_api busy_firmware) a 4 n w1"
proof -
  have act: "1 = active_bank demo_flow_reader (fst (mem_dev demo_tick_world))" by code_simp
  have "read_tick (nic_api busy_firmware) demo_flow_reader demo_counter_reader demo_tick_world \<noteq> None"
  proof
    assume "read_tick (nic_api busy_firmware) demo_flow_reader demo_counter_reader demo_tick_world = None"
    with demo_tick_run show False by simp
  qed
  with read_tick_returns [OF busy_tick_firmware demo_flow_facts(1,2) demo_counter_facts(3,4) act demo_tick_apart(1)]
  show ?thesis by simp
qed

definition demo_counter_world :: mem_world where
  "demo_counter_world = mem_at [(1, 0, [0, 0, 0, 0]), (5, 512, [3, 0, 0, 0]), (6, 2048, demo_counter_bytes)]"

theorem readCounterData_discipline_witness:
  "\<exists>es w'. readCounterData (traced mem_api) demo_counter_reader (demo_counter_world, []) = Some (es, w') \<and>
    areas_of (snd w') = Some ({#}, {#})"
proof -
  have "(case readCounterData (traced mem_api) demo_counter_reader (demo_counter_world, []) of None \<Rightarrow> False | _ \<Rightarrow> True)"
    by code_simp
  then have "readCounterData (traced mem_api) demo_counter_reader (demo_counter_world, []) \<noteq> None"
    by (auto split: option.splits)
  then obtain es w' where
    run: "readCounterData (traced mem_api) demo_counter_reader (demo_counter_world, []) = Some (es, w')"
    by (metis not_None_eq prod.exhaust)
  from readCounterData_discipline [OF _ run] run show ?thesis by simp
qed

end
