(* ===== verification/Std_Map.thy ===== *)
theory Std_Map
  imports Prelude "HOL-Library.Product_Lexorder" "HOL-Library.List_Lexorder" "HOL-Library.Char_ord"
begin

text \<open>
  \<^verbatim>\<open>std::map\<close>: an association list in ascending key order, the order in which the code iterates over
  it. The locale \<open>std_map\<close> is what its users rely on, with the two loops the program builds maps by:
  assignment in a loop, where the last value of a key stays, and accumulation under a key.
\<close>

type_synonym ('k, 'v) omap = "('k \<times> 'v) list"

text \<open>\<^verbatim>\<open>m[k] = v\<close>.\<close>

fun map_update :: "'k::linorder \<Rightarrow> 'v \<Rightarrow> ('k, 'v) omap \<Rightarrow> ('k, 'v) omap" where
  "map_update k v [] = [(k, v)]"
| "map_update k v ((k', v') # m) =
    (if k < k' then (k, v) # (k', v') # m
     else if k = k' then (k, v) # m
     else (k', v') # map_update k v m)"

definition ordered :: "('k::linorder, 'v) omap \<Rightarrow> bool" where
  "ordered m \<longleftrightarrow> sorted_wrt (<) (map fst m)"

locale std_map =
  fixes upd :: "'k \<Rightarrow> 'v \<Rightarrow> 'm \<Rightarrow> 'm"
    and find :: "'m \<Rightarrow> 'k \<Rightarrow> 'v option"
    and empty :: 'm
    and inv :: "'m \<Rightarrow> bool"
  assumes find_empty: "find empty k = None"
    and find_upd: "inv m \<Longrightarrow> find (upd k v m) k' = (if k' = k then Some v else find m k')"
    and inv_empty: "inv empty"
    and inv_upd: "inv m \<Longrightarrow> inv (upd k v m)"
begin

lemma inv_fold: "inv m \<Longrightarrow> inv (foldl (\<lambda>m x. upd (key x) (val x m) m) m xs)"
  by (induction xs arbitrary: m) (auto intro: inv_upd)

lemma find_assigned:
  "inv m \<Longrightarrow> find (foldl (\<lambda>m x. upd (key x) (val x) m) m xs) k =
    (case filter (\<lambda>x. key x = k) xs of [] \<Rightarrow> find m k | ys \<Rightarrow> Some (val (last ys)))"
proof (induction xs arbitrary: m)
  case (Cons x xs)
  from Cons.IH [OF inv_upd [OF Cons.prems]] Cons.prems show ?case
    by (auto simp: find_upd split: list.splits)
qed simp

lemma find_grouped:
  "inv m \<Longrightarrow> find (foldl (\<lambda>m x. upd (key x) (stp x (case find m (key x) of None \<Rightarrow> z | Some v \<Rightarrow> v)) m) m xs) k =
    (case filter (\<lambda>x. key x = k) xs of [] \<Rightarrow> find m k
     | ys \<Rightarrow> Some (foldl (\<lambda>v x. stp x v) (case find m k of None \<Rightarrow> z | Some v \<Rightarrow> v) ys))"
proof (induction xs arbitrary: m)
  case (Cons x xs)
  from Cons.IH [OF inv_upd [OF Cons.prems]] Cons.prems show ?case
    by (auto simp: find_upd split: list.splits)
qed simp

end

lemma map_update_keys: "set (map fst (map_update k v m)) = insert k (set (map fst m))"
  by (induction k v m rule: map_update.induct) auto

lemma ordered_update: "ordered m \<Longrightarrow> ordered (map_update k v m)"
proof (induction k v m rule: map_update.induct)
  case (2 k v k' v' m)
  have "set (map fst (map_update k v m)) = insert k (set (map fst m))" by (rule map_update_keys)
  with 2 show ?case by (auto simp: ordered_def)
qed (simp add: ordered_def)

lemma map_of_update: "ordered m \<Longrightarrow> map_of (map_update k v m) k' = (if k' = k then Some v else map_of m k')"
proof (induction k v m rule: map_update.induct)
  case (2 k v k1 v1 m)
  have "map_of m k = None" if "k < k1"
    using 2(2) that by (force simp: ordered_def map_of_eq_None_iff)
  with 2 show ?case by (auto simp: ordered_def)
qed simp

interpretation omap: std_map map_update map_of "[]" ordered
  by unfold_locales (auto simp: map_of_update ordered_update, simp add: ordered_def)

lemma ordered_distinct: "ordered m \<Longrightarrow> distinct (map fst m)"
  by (simp add: ordered_def strict_sorted_iff)

lemma map_update_ne [simp]: "map_update k v m \<noteq> []"
  by (induction k v m rule: map_update.induct) auto

lemma fold_update_empty:
  "foldl (\<lambda>m x. map_update (key x) (val x m) m) m xs = [] \<longleftrightarrow> m = [] \<and> xs = []"
  by (induction xs arbitrary: m) auto

text \<open>An assignment changes a sum over the values by the difference of the old and the new value.\<close>

lemma sum_update:
  fixes f :: "'v \<Rightarrow> 'a::comm_monoid_add"
  shows "ordered m \<Longrightarrow> sum_list (map (\<lambda>p. f (snd p)) (map_update k v m)) +
    (case map_of m k of None \<Rightarrow> 0 | Some v0 \<Rightarrow> f v0) = sum_list (map (\<lambda>p. f (snd p)) m) + f v"
proof (induction k v m rule: map_update.induct)
  case (2 k v k1 v1 m)
  have none: "map_of m k = None" if "k < k1"
    using 2(2) that by (force simp: ordered_def map_of_eq_None_iff)
  have ord: "ordered m" using 2(2) by (simp add: ordered_def)
  show ?case
  proof (cases "k < k1 \<or> k = k1")
    case True
    with none show ?thesis by (auto simp: ac_simps)
  next
    case False
    with 2(1) ord have "sum_list (map (\<lambda>p. f (snd p)) (map_update k v m)) +
      (case map_of m k of None \<Rightarrow> 0 | Some v0 \<Rightarrow> f v0) = sum_list (map (\<lambda>p. f (snd p)) m) + f v" by blast
    with False show ?thesis by (simp add: add.assoc)
  qed
qed simp

end
