(* ===== verification/Aggregation.thy ===== *)
theory Aggregation
  imports Counter_Reader Std_Map
begin

text \<open>
  What the I/O thread of \<^verbatim>\<open>src/main.cpp\<close> makes of one tick's records: flow records are grouped by their
  five-tuple, counters are kept per agent interface. The conversion of time stamps, which may throw, is
  a parameter here and the clock calibration's in the next theory.
\<close>

subsection \<open>Keys\<close>

datatype Tuple = Tuple (t_src_ip: u32) (t_dst_ip: u32) (t_src_port: u16) (t_dst_port: u16) (t_protocol: u16)

datatype CounterAgent = CounterAgent (ca_agent_ip: u32) (ca_if_idx: u32)

text \<open>The \<^verbatim>\<open>operator<\<close> of the keys: \<^verbatim>\<open>std::tie\<close> compares member by member.\<close>

definition tie_Tuple :: "Tuple \<Rightarrow> u32 \<times> u32 \<times> u16 \<times> u16 \<times> u16" where
  "tie_Tuple t = (t_src_ip t, t_dst_ip t, t_src_port t, t_dst_port t, t_protocol t)"

definition tie_CounterAgent :: "CounterAgent \<Rightarrow> u32 \<times> u32" where
  "tie_CounterAgent a = (ca_agent_ip a, ca_if_idx a)"

lemma tie_inject [simp]: "tie_Tuple s = tie_Tuple t \<longleftrightarrow> s = t" "tie_CounterAgent a = tie_CounterAgent b \<longleftrightarrow> a = b"
  by (auto simp: tie_Tuple_def tie_CounterAgent_def intro: Tuple.expand CounterAgent.expand)

instantiation Tuple :: linorder
begin

definition less_eq_Tuple :: "Tuple \<Rightarrow> Tuple \<Rightarrow> bool" where
  "s \<le> t \<longleftrightarrow> tie_Tuple s \<le> tie_Tuple t"

definition less_Tuple :: "Tuple \<Rightarrow> Tuple \<Rightarrow> bool" where
  "s < t \<longleftrightarrow> tie_Tuple s < tie_Tuple t"

instance
proof
  fix s t u :: Tuple
  show "s < t \<longleftrightarrow> s \<le> t \<and> \<not> t \<le> s" unfolding less_eq_Tuple_def less_Tuple_def by (rule less_le_not_le)
  show "s \<le> s" by (simp add: less_eq_Tuple_def)
  show "s \<le> t \<Longrightarrow> t \<le> u \<Longrightarrow> s \<le> u" unfolding less_eq_Tuple_def by (rule order_trans)
  show "s \<le> t \<Longrightarrow> t \<le> s \<Longrightarrow> s = t" unfolding less_eq_Tuple_def using order_antisym tie_inject by blast
  show "s \<le> t \<or> t \<le> s" unfolding less_eq_Tuple_def by (rule linear)
qed

end

instantiation CounterAgent :: linorder
begin

definition less_eq_CounterAgent :: "CounterAgent \<Rightarrow> CounterAgent \<Rightarrow> bool" where
  "a \<le> b \<longleftrightarrow> tie_CounterAgent a \<le> tie_CounterAgent b"

definition less_CounterAgent :: "CounterAgent \<Rightarrow> CounterAgent \<Rightarrow> bool" where
  "a < b \<longleftrightarrow> tie_CounterAgent a < tie_CounterAgent b"

instance
proof
  fix s t u :: CounterAgent
  show "s < t \<longleftrightarrow> s \<le> t \<and> \<not> t \<le> s" unfolding less_eq_CounterAgent_def less_CounterAgent_def by (rule less_le_not_le)
  show "s \<le> s" by (simp add: less_eq_CounterAgent_def)
  show "s \<le> t \<Longrightarrow> t \<le> u \<Longrightarrow> s \<le> u" unfolding less_eq_CounterAgent_def by (rule order_trans)
  show "s \<le> t \<Longrightarrow> t \<le> s \<Longrightarrow> s = t" unfolding less_eq_CounterAgent_def using order_antisym tie_inject by blast
  show "s \<le> t \<or> t \<le> s" unfolding less_eq_CounterAgent_def by (rule linear)
qed

end

subsection \<open>Records\<close>

record Agent =
  aip :: u32
  a_in_if :: u32
  a_out_if :: u32
  a_byte_cnt :: u64
  a_packet_cnt :: u64
  a_sampling_rate :: u32
  a_tcp_flag :: u16
  a_index :: u32

record FlowRecord =
  agents :: "Agent list"
  fr_start_time :: i64
  fr_end_time :: i64
  start_time_ns :: i64
  end_time_ns :: i64

record CounterRecord =
  cr_in_octets :: u64
  cr_out_octets :: u64
  cr_if_speed :: u64

definition new_FlowRecord :: FlowRecord where
  "new_FlowRecord = \<lparr> agents = [], fr_start_time = i64_max, fr_end_time = i64_min,
     start_time_ns = i64_max, end_time_ns = i64_min \<rparr>"

subsection \<open>One entry\<close>

text \<open>
  Ports and interfaces change places: the SmartNIC stores them from the other side. Protocol and flags
  are cut to 16 bits.
\<close>

definition flow_key :: "flow_data \<Rightarrow> Tuple" where
  "flow_key entry = Tuple (src_ip (fd_key entry)) (dst_ip (fd_key entry)) (dst_port (fd_key entry))
     (src_port (fd_key entry)) (ucast (protocol (fd_key entry)))"

definition flow_agent :: "flow_data \<Rightarrow> Agent" where
  "flow_agent entry = \<lparr> aip = agent_ip (fd_key entry), a_in_if = ucast (out_if (fd_key entry)),
     a_out_if = ucast (in_if (fd_key entry)), a_byte_cnt = byte_cnt (fd_data entry),
     a_packet_cnt = packet_cnt (fd_data entry), a_sampling_rate = sampling_rate (fd_key entry),
     a_tcp_flag = ucast (tcp_flag (fd_key entry)), a_index = fd_index entry \<rparr>"

definition add_to_record :: "Agent \<Rightarrow> i64 \<Rightarrow> i64 \<Rightarrow> FlowRecord \<Rightarrow> FlowRecord" where
  "add_to_record agent startTimeNs endTimeNs record =
    (let s = min (start_time_ns record) startTimeNs; e = max (end_time_ns record) endTimeNs in
     record\<lparr> agents := agents record @ [agent], start_time_ns := s, end_time_ns := e,
       fr_start_time := s sdiv 1000000, fr_end_time := e sdiv 1000000 \<rparr>)"

type_synonym converter = "u32 \<Rightarrow> u32 \<Rightarrow> i64 outcome"

text \<open>Both conversions come before the map is touched; the first that throws ends the loop.\<close>

definition add_flow ::
  "converter \<Rightarrow> flow_data \<Rightarrow> (Tuple, FlowRecord) omap \<Rightarrow> (Tuple, FlowRecord) omap outcome" where
  "add_flow conv entry m =
    (case conv (sec (start_time (fd_data entry))) (nsec (start_time (fd_data entry))) of
       Inl ex \<Rightarrow> Inl ex
     | Inr startTimeNs \<Rightarrow>
    (case conv (sec (end_time (fd_data entry))) (nsec (end_time (fd_data entry))) of
       Inl ex \<Rightarrow> Inl ex
     | Inr endTimeNs \<Rightarrow>
       let key = flow_key entry;
           record = (case map_of m key of None \<Rightarrow> new_FlowRecord | Some r \<Rightarrow> r)
       in Inr (map_update key (add_to_record (flow_agent entry) startTimeNs endTimeNs record) m)))"

fun aggregate_flows ::
  "converter \<Rightarrow> flow_data list \<Rightarrow> (Tuple, FlowRecord) omap \<Rightarrow> (Tuple, FlowRecord) omap outcome" where
  "aggregate_flows conv [] m = Inr m"
| "aggregate_flows conv (entry # es) m =
    (case add_flow conv entry m of Inl ex \<Rightarrow> Inl ex | Inr m \<Rightarrow> aggregate_flows conv es m)"

definition counter_key_of :: "counter_data \<Rightarrow> CounterAgent" where
  "counter_key_of entry = CounterAgent (ck_agent_ip (sc_key (cd_data entry))) (ck_if_idx (sc_key (cd_data entry)))"

definition counter_record_of :: "counter_data \<Rightarrow> CounterRecord" where
  "counter_record_of entry = \<lparr> cr_in_octets = in_octets (cd_data entry),
     cr_out_octets = out_octets (cd_data entry), cr_if_speed = if_speed (cd_data entry) \<rparr>"

definition aggregate_counters :: "counter_data list \<Rightarrow> (CounterAgent, CounterRecord) omap" where
  "aggregate_counters entries =
    foldl (\<lambda>m entry. map_update (counter_key_of entry) (counter_record_of entry) m) [] entries"

subsection \<open>What the maps hold\<close>

definition converts :: "converter \<Rightarrow> flow_data \<Rightarrow> bool" where
  "converts conv entry \<longleftrightarrow>
     (\<exists>s e. conv (sec (start_time (fd_data entry))) (nsec (start_time (fd_data entry))) = Inr s \<and>
       conv (sec (end_time (fd_data entry))) (nsec (end_time (fd_data entry))) = Inr e)"

definition start_ns :: "converter \<Rightarrow> flow_data \<Rightarrow> i64" where
  "start_ns conv entry = (case conv (sec (start_time (fd_data entry))) (nsec (start_time (fd_data entry))) of
     Inr s \<Rightarrow> s | _ \<Rightarrow> 0)"

definition end_ns :: "converter \<Rightarrow> flow_data \<Rightarrow> i64" where
  "end_ns conv entry = (case conv (sec (end_time (fd_data entry))) (nsec (end_time (fd_data entry))) of
     Inr e \<Rightarrow> e | _ \<Rightarrow> 0)"

definition record_step :: "converter \<Rightarrow> flow_data \<Rightarrow> FlowRecord \<Rightarrow> FlowRecord" where
  "record_step conv entry = add_to_record (flow_agent entry) (start_ns conv entry) (end_ns conv entry)"

lemma add_flow_converts:
  "converts conv entry \<Longrightarrow> add_flow conv entry m = Inr (map_update (flow_key entry)
     (record_step conv entry (case map_of m (flow_key entry) of None \<Rightarrow> new_FlowRecord | Some r \<Rightarrow> r)) m)"
  by (auto simp: add_flow_def converts_def record_step_def start_ns_def end_ns_def Let_def)

lemma add_flow_throws: "\<not> converts conv entry \<Longrightarrow> \<exists>ex. add_flow conv entry m = Inl ex"
  by (auto simp: add_flow_def converts_def split: sum.splits)

lemma aggregate_flows_fold:
  "list_all (converts conv) es \<Longrightarrow> aggregate_flows conv es m =
    Inr (foldl (\<lambda>m x. map_update (flow_key x)
      (record_step conv x (case map_of m (flow_key x) of None \<Rightarrow> new_FlowRecord | Some r \<Rightarrow> r)) m) m es)"
  by (induction es arbitrary: m) (simp_all add: add_flow_converts)

lemma aggregate_flows_throws:
  "\<not> list_all (converts conv) es \<Longrightarrow> \<exists>ex. aggregate_flows conv es m = Inl ex"
proof (induction es arbitrary: m)
  case (Cons e es)
  then show ?case
    using add_flow_throws [of conv e m] by (cases "converts conv e") (auto simp: add_flow_converts)
qed simp

text \<open>The record that a list of entries leaves.\<close>

lemma record_fold:
  "es \<noteq> [] \<Longrightarrow> foldl (\<lambda>r x. record_step conv x r) r0 es =
    \<lparr> agents = agents r0 @ map flow_agent es,
      fr_start_time = min (start_time_ns r0) (Min (start_ns conv ` set es)) sdiv 1000000,
      fr_end_time = max (end_time_ns r0) (Max (end_ns conv ` set es)) sdiv 1000000,
      start_time_ns = min (start_time_ns r0) (Min (start_ns conv ` set es)),
      end_time_ns = max (end_time_ns r0) (Max (end_ns conv ` set es)) \<rparr>"
proof (induction es arbitrary: r0)
  case (Cons e es)
  show ?case
  proof (cases "es = []")
    case True
    then show ?thesis by (simp add: record_step_def add_to_record_def Let_def)
  next
    case False
    from Cons.IH [OF this, of "record_step conv e r0"] False show ?thesis
      by (simp add: record_step_def add_to_record_def Let_def min.assoc max.assoc)
  qed
qed simp

lemma ordered_flows:
  assumes "list_all (converts conv) es" "aggregate_flows conv es [] = Inr m"
  shows "ordered m"
  using assms omap.inv_fold [OF omap.inv_empty, where key = flow_key and xs = es and
      val = "\<lambda>x m. record_step conv x (case map_of m (flow_key x) of None \<Rightarrow> new_FlowRecord | Some r \<Rightarrow> r)"]
  by (simp add: aggregate_flows_fold)

lemma aggregate_flows_spec:
  assumes "list_all (converts conv) es" "\<forall>s n t. conv s n = Inr t \<longrightarrow> in_i64 t"
  shows "\<exists>m. aggregate_flows conv es [] = Inr m \<and> ordered m \<and>
    (\<forall>k. map_of m k = (let ys = filter (\<lambda>x. flow_key x = k) es in
      if ys = [] then None else Some \<lparr> agents = map flow_agent ys,
        fr_start_time = Min (start_ns conv ` set ys) sdiv 1000000,
        fr_end_time = Max (end_ns conv ` set ys) sdiv 1000000,
        start_time_ns = Min (start_ns conv ` set ys), end_time_ns = Max (end_ns conv ` set ys) \<rparr>))"
proof -
  let ?m = "foldl (\<lambda>m x. map_update (flow_key x)
      (record_step conv x (case map_of m (flow_key x) of None \<Rightarrow> new_FlowRecord | Some r \<Rightarrow> r)) m) [] es"
  have m: "aggregate_flows conv es [] = Inr ?m" by (rule aggregate_flows_fold [OF assms(1)])
  have rng: "in_i64 (start_ns conv x) \<and> in_i64 (end_ns conv x)" if "x \<in> set es" for x
    using assms that by (auto simp: list_all_iff converts_def start_ns_def end_ns_def split: sum.splits)
  have "map_of ?m k = (let ys = filter (\<lambda>x. flow_key x = k) es in
      if ys = [] then None else Some \<lparr> agents = map flow_agent ys,
        fr_start_time = Min (start_ns conv ` set ys) sdiv 1000000,
        fr_end_time = Max (end_ns conv ` set ys) sdiv 1000000,
        start_time_ns = Min (start_ns conv ` set ys), end_time_ns = Max (end_ns conv ` set ys) \<rparr>)" for k
  proof (cases "filter (\<lambda>x. flow_key x = k) es = []")
    case True
    then show ?thesis using omap.find_grouped [OF omap.inv_empty, of flow_key "record_step conv" new_FlowRecord es k]
      by simp
  next
    case False
    let ?ys = "filter (\<lambda>x. flow_key x = k) es"
    have f: "finite (start_ns conv ` set ?ys)" "start_ns conv ` set ?ys \<noteq> {}"
      "finite (end_ns conv ` set ?ys)" "end_ns conv ` set ?ys \<noteq> {}"
      using False by (simp_all del: set_filter)
    have "Min (start_ns conv ` set ?ys) \<in> start_ns conv ` set ?ys" by (rule Min_in [OF f(1,2)])
    then have "in_i64 (Min (start_ns conv ` set ?ys))" using rng by (auto simp del: in_i64_numeric)
    then have mn: "min i64_max (Min (start_ns conv ` set ?ys)) = Min (start_ns conv ` set ?ys)"
      by (auto simp: i64_max_def in_i64_def min_def)
    have "Max (end_ns conv ` set ?ys) \<in> end_ns conv ` set ?ys" by (rule Max_in [OF f(3,4)])
    then have "in_i64 (Max (end_ns conv ` set ?ys))" using rng by (auto simp del: in_i64_numeric)
    then have mx: "max i64_min (Max (end_ns conv ` set ?ys)) = Max (end_ns conv ` set ?ys)"
      by (auto simp: i64_min_def in_i64_def max_def)
    have "map_of ?m k = Some (foldl (\<lambda>r x. record_step conv x r) new_FlowRecord ?ys)"
      using omap.find_grouped [OF omap.inv_empty, of flow_key "record_step conv" new_FlowRecord es k] False
      by (simp add: neq_Nil_conv) (auto split: list.splits)
    then show ?thesis
      using False record_fold [OF False, of conv new_FlowRecord]
      by (simp add: new_FlowRecord_def mn mx Let_def del: set_filter)
  qed
  with m ordered_flows [OF assms(1) m] show ?thesis by blast
qed

text \<open>
  C5 (equivalence). Grouping the flow records one by one gives, under every five-tuple, exactly what one
  computes from the list of all records of that five-tuple: their agents in the order of the slots, the
  earliest start and the latest end, and these times cut to milliseconds. The map is in key order.
\<close>

theorem aggregate_flows_correct:
  assumes "list_all (converts conv) es" "\<forall>s n t. conv s n = Inr t \<longrightarrow> in_i64 t"
  shows "\<exists>m. aggregate_flows conv es [] = Inr m \<and> ordered m \<and>
    (\<forall>k. map_of m k = (let ys = filter (\<lambda>x. flow_key x = k) es in
      if ys = [] then None else Some \<lparr> agents = map flow_agent ys,
        fr_start_time = Min (start_ns conv ` set ys) sdiv 1000000,
        fr_end_time = Max (end_ns conv ` set ys) sdiv 1000000,
        start_time_ns = Min (start_ns conv ` set ys), end_time_ns = Max (end_ns conv ` set ys) \<rparr>))"
  by (rule aggregate_flows_spec [OF assms])

lemma sum_agents_fold:
  assumes "ordered m"
  shows "sum_list (map (\<lambda>p. mset (agents (snd p))) (foldl (\<lambda>m x. map_update (flow_key x)
      (record_step conv x (case map_of m (flow_key x) of None \<Rightarrow> new_FlowRecord | Some r \<Rightarrow> r)) m) m es)) =
    sum_list (map (\<lambda>p. mset (agents (snd p))) m) + mset (map flow_agent es)"
  using assms
proof (induction es arbitrary: m)
  case (Cons e es)
  let ?r = "case map_of m (flow_key e) of None \<Rightarrow> new_FlowRecord | Some r \<Rightarrow> r"
  have ag: "mset (agents (record_step conv e ?r)) =
      (case map_of m (flow_key e) of None \<Rightarrow> {#} | Some r \<Rightarrow> mset (agents r)) + {#flow_agent e#}"
    by (auto simp: record_step_def add_to_record_def Let_def new_FlowRecord_def split: option.splits)
  from sum_update [OF Cons.prems, of "\<lambda>r. mset (agents r)" "flow_key e" "record_step conv e ?r"]
  have "sum_list (map (\<lambda>p. mset (agents (snd p))) (map_update (flow_key e) (record_step conv e ?r) m)) =
      sum_list (map (\<lambda>p. mset (agents (snd p))) m) + {#flow_agent e#}"
    unfolding ag by (auto simp: ac_simps split: option.splits)
  with Cons.IH [OF ordered_update [OF Cons.prems]] show ?case by (simp add: ac_simps)
qed simp

lemma aggregate_flows_empty:
  assumes "aggregate_flows conv es [] = Inr m"
  shows "m = [] \<longleftrightarrow> es = []"
proof -
  have "list_all (converts conv) es" using assms aggregate_flows_throws [of conv es "[]"] by auto
  with assms show ?thesis by (auto simp: aggregate_flows_fold fold_update_empty)
qed

lemma aggregate_counters_empty: "aggregate_counters es = [] \<longleftrightarrow> es = []"
  unfolding aggregate_counters_def fold_update_empty by simp

text \<open>
  No flow record is lost or counted twice: the agents of all records of the map are the agents of the
  entries, each as often as it was read.
\<close>

lemma aggregate_agents:
  assumes "aggregate_flows conv es [] = Inr m"
  shows "sum_list (map (\<lambda>p. mset (agents (snd p))) m) = mset (map flow_agent es)"
proof -
  have "list_all (converts conv) es" using assms aggregate_flows_throws [of conv es "[]"] by auto
  with assms sum_agents_fold [OF omap.inv_empty, of conv es] show ?thesis
    by (simp add: aggregate_flows_fold)
qed

lemma aggregate_counters_find:
  "ordered (aggregate_counters es) \<and>
    map_of (aggregate_counters es) k =
      (case filter (\<lambda>x. counter_key_of x = k) es of [] \<Rightarrow> None | ys \<Rightarrow> Some (counter_record_of (last ys)))"
  unfolding aggregate_counters_def
  using omap.find_assigned [OF omap.inv_empty, of counter_key_of counter_record_of es k]
    omap.inv_fold [OF omap.inv_empty, where key = counter_key_of and val = "\<lambda>x m. counter_record_of x" and xs = es]
  by (auto split: list.splits)

subsection \<open>What an export says of the records\<close>

text \<open>
  The contract of the two maps, in the fields of the records alone. A flow record belongs under a five-tuple whose ports
  are its own in exchange, and an agent reports its record with the interfaces exchanged; the 32-bit protocol and
  flags count modulo \<open>2 ^ 16\<close>.
\<close>

definition under_tuple :: "Tuple \<Rightarrow> flow_data \<Rightarrow> bool" where
  "under_tuple k e \<longleftrightarrow> t_src_ip k = src_ip (fd_key e) \<and> t_dst_ip k = dst_ip (fd_key e) \<and>
     t_src_port k = dst_port (fd_key e) \<and> t_dst_port k = src_port (fd_key e) \<and>
     uint (t_protocol k) = uint (protocol (fd_key e)) mod 65536"

definition agent_reports :: "Agent \<Rightarrow> flow_data \<Rightarrow> bool" where
  "agent_reports a e \<longleftrightarrow> aip a = agent_ip (fd_key e) \<and> uint (a_in_if a) = uint (out_if (fd_key e)) \<and>
     uint (a_out_if a) = uint (in_if (fd_key e)) \<and> a_byte_cnt a = byte_cnt (fd_data e) \<and>
     a_packet_cnt a = packet_cnt (fd_data e) \<and> a_sampling_rate a = sampling_rate (fd_key e) \<and>
     uint (a_tcp_flag a) = uint (tcp_flag (fd_key e)) mod 65536 \<and> a_index a = fd_index e"

text \<open>
  The record of a five-tuple: an agent per flow record in their order, and among the converted time stamps the
  earliest start and the latest end, also cut to milliseconds.
\<close>

definition converted :: "converter \<Rightarrow> mac_time_data \<Rightarrow> i64 \<Rightarrow> bool" where
  "converted conv stamp t \<longleftrightarrow> conv (sec stamp) (nsec stamp) = Inr t"

definition sums_up :: "converter \<Rightarrow> FlowRecord \<Rightarrow> flow_data list \<Rightarrow> bool" where
  "sums_up conv r es \<longleftrightarrow> list_all2 agent_reports (agents r) es \<and>
     (\<exists>starts ends. list_all2 (\<lambda>e t. converted conv (start_time (fd_data e)) t) es starts \<and>
       list_all2 (\<lambda>e t. converted conv (end_time (fd_data e)) t) es ends \<and>
       start_time_ns r = Min (set starts) \<and> end_time_ns r = Max (set ends)) \<and>
     fr_start_time r = start_time_ns r sdiv 1000000 \<and> fr_end_time r = end_time_ns r sdiv 1000000"

definition flows_exported :: "converter \<Rightarrow> flow_data list \<Rightarrow> (Tuple, FlowRecord) omap \<Rightarrow> bool" where
  "flows_exported conv es m \<longleftrightarrow> ordered m \<and>
     (\<forall>k. case map_of m k of None \<Rightarrow> \<forall>e \<in> set es. \<not> under_tuple k e
       | Some r \<Rightarrow> filter (under_tuple k) es \<noteq> [] \<and> sums_up conv r (filter (under_tuple k) es))"

text \<open>An interface has the values of the last of its counters.\<close>

definition of_interface :: "CounterAgent \<Rightarrow> counter_data \<Rightarrow> bool" where
  "of_interface a e \<longleftrightarrow> ca_agent_ip a = ck_agent_ip (sc_key (cd_data e)) \<and> ca_if_idx a = ck_if_idx (sc_key (cd_data e))"

definition counters_exported :: "counter_data list \<Rightarrow> (CounterAgent, CounterRecord) omap \<Rightarrow> bool" where
  "counters_exported es m \<longleftrightarrow> ordered m \<and>
     (\<forall>a. case map_of m a of None \<Rightarrow> \<forall>e \<in> set es. \<not> of_interface a e
       | Some r \<Rightarrow> filter (of_interface a) es \<noteq> [] \<and>
           (let e = last (filter (of_interface a) es) in cr_in_octets r = in_octets (cd_data e) \<and>
             cr_out_octets r = out_octets (cd_data e) \<and> cr_if_speed r = if_speed (cd_data e)))"

lemma cut_16: "uint (ucast (x :: u32) :: u16) = uint x mod 65536"
  by (simp add: unsigned_ucast_eq take_bit_eq_mod)

lemma wide_32: "uint (ucast (x :: u16) :: u32) = uint x"
  by (simp add: uint_up_ucast is_up)

lemma under_flow_key: "under_tuple k e \<longleftrightarrow> flow_key e = k"
  by (cases k) (auto simp: under_tuple_def flow_key_def cut_16 word_uint_eq_iff [of _ "ucast (protocol (fd_key e))"]
      word_uint_eq_iff [of "ucast (protocol (fd_key e))"])

lemma agent_reports_flow: "agent_reports (flow_agent e) e"
  by (simp add: agent_reports_def flow_agent_def cut_16 wide_32)

lemma of_counter_key: "of_interface a e \<longleftrightarrow> counter_key_of e = a"
  by (cases a) (auto simp: of_interface_def counter_key_of_def)

lemma sums_up_record:
  assumes "list_all (converts conv) ys"
  shows "sums_up conv \<lparr> agents = map flow_agent ys,
    fr_start_time = Min (start_ns conv ` set ys) sdiv 1000000,
    fr_end_time = Max (end_ns conv ` set ys) sdiv 1000000,
    start_time_ns = Min (start_ns conv ` set ys), end_time_ns = Max (end_ns conv ` set ys) \<rparr> ys"
proof -
  have "list_all2 (\<lambda>e t. converted conv (start_time (fd_data e)) t) ys (map (start_ns conv) ys)"
    "list_all2 (\<lambda>e t. converted conv (end_time (fd_data e)) t) ys (map (end_ns conv) ys)"
    using assms by (auto simp: list_all2_conv_all_nth list_all_length converts_def converted_def start_ns_def end_ns_def
        split: sum.splits)
  then show ?thesis
    unfolding sums_up_def
    by (intro conjI exI [of _ "map (start_ns conv) ys"] exI [of _ "map (end_ns conv) ys"])
      (simp_all add: list_all2_conv_all_nth agent_reports_flow)
qed

lemma aggregate_flows_exported:
  assumes "aggregate_flows conv es [] = Inr m" "\<forall>s n t. conv s n = Inr t \<longrightarrow> in_i64 t"
  shows "flows_exported conv es m"
proof -
  have c: "list_all (converts conv) es" using assms(1) aggregate_flows_throws [of conv es "[]"] by auto
  let ?ys = "\<lambda>k. filter (\<lambda>x. flow_key x = k) es"
  have "ordered m" and f: "map_of m k = (if ?ys k = [] then None else Some \<lparr> agents = map flow_agent (?ys k),
        fr_start_time = Min (start_ns conv ` set (?ys k)) sdiv 1000000,
        fr_end_time = Max (end_ns conv ` set (?ys k)) sdiv 1000000,
        start_time_ns = Min (start_ns conv ` set (?ys k)), end_time_ns = Max (end_ns conv ` set (?ys k)) \<rparr>)" for k
    using aggregate_flows_spec [OF c assms(2)] assms(1) unfolding Let_def by auto
  moreover have "list_all (converts conv) (?ys k)" for k using c by (simp add: list_all_iff)
  ultimately show ?thesis
    using sums_up_record [of conv] unfolding flows_exported_def under_flow_key f
    by (auto simp: filter_empty_conv simp del: set_filter)
qed

lemma aggregate_counters_exported: "counters_exported es (aggregate_counters es)"
proof -
  have "ordered (aggregate_counters es)"
    and f: "map_of (aggregate_counters es) k =
      (case filter (\<lambda>x. counter_key_of x = k) es of [] \<Rightarrow> None | ys \<Rightarrow> Some (counter_record_of (last ys)))" for k
    using aggregate_counters_find by blast+
  then show ?thesis
    unfolding counters_exported_def of_counter_key f
    by (auto simp: filter_empty_conv counter_record_of_def Let_def split: list.splits)
qed

subsection \<open>A worked aggregation\<close>

definition demo_flow :: "u32 \<Rightarrow> u32 \<Rightarrow> u32 \<Rightarrow> flow_data" where
  "demo_flow proto start i = \<lparr> fd_key = \<lparr> src_ip = 1, dst_ip = 2, sampling_rate = 1024, agent_ip = 9, in_if = 3,
     out_if = 5, src_port = 80, dst_port = 8080, protocol = proto, tcp_flag = 65538 \<rparr>,
     fd_data = \<lparr> byte_cnt = 1500, packet_cnt = 1, start_time = \<lparr> sec = start, nsec = 5000000 \<rparr>,
       end_time = \<lparr> sec = start + 1, nsec = 7000000 \<rparr> \<rparr>, fd_index = i \<rparr>"

definition demo_flows :: "flow_data list" where
  "demo_flows = [demo_flow 6 100 0, demo_flow 17 90 1, demo_flow 65542 95 2]"

definition demo_conv :: converter where
  "demo_conv s n = Inr (uint s * 1000000000 + uint n)"

lemma demo_conv_range: "\<forall>s n t. demo_conv s n = Inr t \<longrightarrow> in_i64 t"
proof (intro allI impI)
  fix s n t
  assume "demo_conv s n = Inr t"
  moreover have "uint (s :: u32) < 2 ^ 32" "uint (n :: u32) < 2 ^ 32" "0 \<le> uint s" "0 \<le> uint n"
    using uint_bounded [of s] uint_bounded [of n] by simp_all
  ultimately have "0 \<le> t \<and> t < 9223372036854775808" by (auto simp: demo_conv_def)
  then show "in_i64 t" by (simp add: in_i64_def)
qed

lemma demo_converts: "list_all (converts demo_conv) demo_flows"
  by (simp add: demo_flows_def converts_def demo_conv_def)

theorem aggregate_flows_correct_witness:
  "\<exists>m. aggregate_flows demo_conv demo_flows [] = Inr m \<and> ordered m"
  using aggregate_flows_correct [OF demo_converts demo_conv_range] by blast

end
