(* ===== verification/Transmit.thy ===== *)
theory Transmit
  imports Aggregation
begin

text \<open>
  The payloads of \<^verbatim>\<open>transmitThread\<close> (\<^verbatim>\<open>src/main.cpp\<close>): one JSON object per flow record and per
  counter, and one combined object per batch for the debug file. The JSON library is a data type of
  values whose objects are \<^verbatim>\<open>std::map\<close>s, as they are there; turning a value into text is the
  library's \<^verbatim>\<open>dump\<close>, a parameter.
\<close>

datatype json =
    JUnsigned nat
  | JInteger int
  | JFloat rat
  | JArray "json list"
  | JObject "(string, json) omap"

record ExportData =
  execution_time :: rat
  flowMap :: "(Tuple, FlowRecord) omap"
  counterMap :: "(CounterAgent, CounterRecord) omap"

text \<open>An object built by assigning its members one after the other.\<close>

definition object :: "(string \<times> json) list \<Rightarrow> json" where
  "object members = JObject (foldl (\<lambda>m p. map_update (fst p) (snd p) m) [] members)"

definition agent_json :: "Agent \<Rightarrow> json" where
  "agent_json ag = object [(''aip'', JUnsigned (unat (aip ag))), (''in_if'', JUnsigned (unat (a_in_if ag))),
     (''out_if'', JUnsigned (unat (a_out_if ag))), (''byte_cnt'', JUnsigned (unat (a_byte_cnt ag))),
     (''packet_cnt'', JUnsigned (unat (a_packet_cnt ag))),
     (''sampling_rate'', JUnsigned (unat (a_sampling_rate ag))),
     (''tcp_flag'', JUnsigned (unat (a_tcp_flag ag))), (''index'', JUnsigned (unat (a_index ag)))]"

definition flow_item :: "Tuple \<times> FlowRecord \<Rightarrow> json" where
  "flow_item p = (case p of (key, record) \<Rightarrow>
     object [(''src_ip'', JUnsigned (unat (t_src_ip key))), (''dst_ip'', JUnsigned (unat (t_dst_ip key))),
       (''src_port'', JUnsigned (unat (t_src_port key))), (''dst_port'', JUnsigned (unat (t_dst_port key))),
       (''protocol'', JUnsigned (unat (t_protocol key))),
       (''start_time'', JInteger (fr_start_time record)), (''end_time'', JInteger (fr_end_time record)),
       (''agent'', JArray (map agent_json (agents record)))])"

definition counter_item :: "CounterAgent \<times> CounterRecord \<Rightarrow> json" where
  "counter_item p = (case p of (key, record) \<Rightarrow>
     object [(''agent_ip'', JUnsigned (unat (ca_agent_ip key))), (''if_idx'', JUnsigned (unat (ca_if_idx key))),
       (''if_speed'', JUnsigned (unat (cr_if_speed record))),
       (''in_octets'', JUnsigned (unat (cr_in_octets record))),
       (''out_octets'', JUnsigned (unat (cr_out_octets record)))])"

definition flow_payload :: "Tuple \<times> FlowRecord \<Rightarrow> json" where
  "flow_payload p = object [(''flowMap'', JArray [flow_item p])]"

definition counter_payload :: "CounterAgent \<times> CounterRecord \<Rightarrow> json" where
  "counter_payload p = object [(''counterMap'', JArray [counter_item p])]"

text \<open>The payloads sent for a batch, in order, and the combined record.\<close>

definition transmit_batch :: "ExportData \<Rightarrow> json list \<times> json" where
  "transmit_batch data =
    (map flow_payload (flowMap data) @ map counter_payload (counterMap data),
     object [(''execution_time'', JFloat (execution_time data)),
       (''flowMap'', JArray (map flow_item (flowMap data))),
       (''counterMap'', JArray (map counter_item (counterMap data)))])"

text \<open>What a batch does: the texts handed to the socket, and the lines for the debug file.\<close>

definition send_batch :: "(json \<Rightarrow> string) \<Rightarrow> bool \<Rightarrow> ExportData \<Rightarrow> string list \<times> string list" where
  "send_batch dump debug data = (case transmit_batch data of (payloads, for_record) \<Rightarrow>
     (map dump payloads, if debug then [dump for_record] else []))"

subsection \<open>Reading a payload back\<close>

fun member :: "string \<Rightarrow> json \<Rightarrow> json option" where
  "member k (JObject m) = map_of m k"
| "member k _ = None"

fun items :: "json option \<Rightarrow> json list option" where
  "items (Some (JArray js)) = Some js"
| "items _ = None"

fun unsigned_of :: "json option \<Rightarrow> nat option" where
  "unsigned_of (Some (JUnsigned n)) = Some n"
| "unsigned_of _ = None"

fun integer_of :: "json option \<Rightarrow> int option" where
  "integer_of (Some (JInteger n)) = Some n"
| "integer_of _ = None"

definition field :: "string \<Rightarrow> json \<Rightarrow> 'a::len word option" where
  "field k j = map_option of_nat (unsigned_of (member k j))"

definition parse_agent :: "json \<Rightarrow> Agent option" where
  "parse_agent j = (case (field ''aip'' j, field ''in_if'' j, field ''out_if'' j, field ''byte_cnt'' j,
       field ''packet_cnt'' j, field ''sampling_rate'' j, field ''tcp_flag'' j, field ''index'' j) of
     (Some a, Some i, Some p, Some b, Some n, Some s, Some f, Some x) \<Rightarrow>
       Some \<lparr> aip = a, a_in_if = i, a_out_if = p, a_byte_cnt = b, a_packet_cnt = n, a_sampling_rate = s,
         a_tcp_flag = f, a_index = x \<rparr>
   | _ \<Rightarrow> None)"

definition parse_tuple :: "json \<Rightarrow> Tuple option" where
  "parse_tuple j = (case (field ''src_ip'' j, field ''dst_ip'' j, field ''src_port'' j, field ''dst_port'' j,
       field ''protocol'' j) of
     (Some s, Some d, Some sp, Some dp, Some p) \<Rightarrow> Some (Tuple s d sp dp p)
   | _ \<Rightarrow> None)"

text \<open>A flow payload: its single item gives the five-tuple, the agents and the times.\<close>

definition parse_flow_payload :: "json \<Rightarrow> (Tuple \<times> Agent list \<times> i64 \<times> i64) option" where
  "parse_flow_payload j = (case items (member ''flowMap'' j) of
     Some [item] \<Rightarrow>
       (case (parse_tuple item, items (member ''agent'' item), integer_of (member ''start_time'' item),
           integer_of (member ''end_time'' item)) of
          (Some t, Some js, Some s, Some e) \<Rightarrow> Some (t, List.map_filter parse_agent js, s, e)
        | _ \<Rightarrow> None)
   | _ \<Rightarrow> None)"

definition parse_counter_payload :: "json \<Rightarrow> (CounterAgent \<times> CounterRecord) option" where
  "parse_counter_payload j = (case items (member ''counterMap'' j) of
     Some [item] \<Rightarrow>
       (case (field ''agent_ip'' item, field ''if_idx'' item, field ''in_octets'' item, field ''out_octets'' item,
           field ''if_speed'' item) of
          (Some a, Some i, Some ic, Some oc, Some sp) \<Rightarrow>
            Some (CounterAgent a i, \<lparr> cr_in_octets = ic, cr_out_octets = oc, cr_if_speed = sp \<rparr>)
        | _ \<Rightarrow> None)
   | _ \<Rightarrow> None)"

lemma member_object:
  "member k (object ms) = (case filter (\<lambda>p. fst p = k) ms of [] \<Rightarrow> None | ys \<Rightarrow> Some (snd (last ys)))"
  using omap.find_assigned [OF omap.inv_empty, of fst snd ms k] by (auto simp: object_def split: list.splits)

lemma field_unat [simp]: "map_option of_nat (unsigned_of (Some (JUnsigned (unat (x :: 'a::len word))))) = Some x"
  by simp

lemma parse_agent_json: "parse_agent (agent_json ag) = Some ag"
  by (simp add: parse_agent_def agent_json_def field_def member_object)

lemma parse_agents: "List.map_filter parse_agent (map agent_json ags) = ags"
  by (induction ags) (simp_all add: parse_agent_json List.map_filter_simps)

text \<open>
  C27 (roundtrip). A receiver reads back from a flow payload the five-tuple, every agent with all its counts, and
  the start and end in whole milliseconds (the nanosecond times of the record are not sent); and from a counter
  payload the interface and its three counters.
\<close>

theorem payload_roundtrip:
  "parse_flow_payload (flow_payload (key, record)) =
      Some (key, agents record, fr_start_time record, fr_end_time record) \<and>
    parse_counter_payload (counter_payload (ckey, crecord)) = Some (ckey, crecord)"
  by (cases key; cases ckey)
    (simp add: parse_flow_payload_def flow_payload_def flow_item_def parse_tuple_def member_object field_def
      parse_agents parse_counter_payload_def counter_payload_def counter_item_def)

end
