(* ===== verification/Clock_Types.thy ===== *)
theory Clock_Types
  imports Prelude
begin

text \<open>
  The data of the clock pipeline (\<^verbatim>\<open>include/ClockSampler.hpp\<close>): the clock state the firmware exports,
  the observation of one read with the host clock bounds around it, and the sample of one observed
  transition; and the arithmetic on them that several components share.
\<close>

definition kNanosecondsPerSecond :: i64 where
  "kNanosecondsPerSecond = 1000000000"

record HostClockBounds =
  realtime_before_ns :: i64
  realtime_after_ns :: i64
  monotonic_before_ns :: i64
  monotonic_after_ns :: i64

record MacTimeStateHost =
  mac_time_s :: u32
  mac_time_ns :: u32
  me_time :: u32
  conv_mult :: u32
  conv_rshift :: u32

record MacStateObservation =
  obs_state :: MacTimeStateHost
  obs_bounds :: HostClockBounds
  read_latency_ns :: i64
  valid :: bool
  reject_reason :: string

record PublicationSample =
  smartnic_ns :: i64
  host_realtime_ns :: i64
  host_monotonic_ns :: i64
  uncertainty_ns :: i64
  transition_start_mono_ns :: i64
  transition_end_mono_ns :: i64
  ps_me_time :: u32
  ps_conv_mult :: u32
  ps_conv_rshift :: u32

text \<open>The values of the default member initialisers.\<close>

definition zero_bounds :: HostClockBounds where
  "zero_bounds = \<lparr> realtime_before_ns = 0, realtime_after_ns = 0,
     monotonic_before_ns = 0, monotonic_after_ns = 0 \<rparr>"

definition zero_state :: MacTimeStateHost where
  "zero_state = \<lparr> mac_time_s = 0, mac_time_ns = 0, me_time = 0, conv_mult = 0, conv_rshift = 0 \<rparr>"

definition zero_observation :: MacStateObservation where
  "zero_observation = \<lparr> obs_state = zero_state, obs_bounds = zero_bounds,
     read_latency_ns = 0, valid = False, reject_reason = [] \<rparr>"

definition state_eq :: "MacTimeStateHost \<Rightarrow> MacTimeStateHost \<Rightarrow> bool" where
  "state_eq this other \<longleftrightarrow>
     mac_time_s this = mac_time_s other \<and>
     mac_time_ns this = mac_time_ns other \<and>
     me_time this = me_time other \<and>
     conv_mult this = conv_mult other \<and>
     conv_rshift this = conv_rshift other"

definition state_neq :: "MacTimeStateHost \<Rightarrow> MacTimeStateHost \<Rightarrow> bool" where
  "state_neq this other \<longleftrightarrow> \<not> state_eq this other"

lemma state_eq_iff: "state_eq a b \<longleftrightarrow> a = b"
  by (cases a; cases b) (simp add: state_eq_def)

subsection \<open>Seconds and nanoseconds as one count\<close>

definition nanos_valid :: "u32 \<Rightarrow> bool" where
  "nanos_valid ns \<longleftrightarrow> uint ns < kNanosecondsPerSecond"

definition mac_ns :: "u32 \<Rightarrow> u32 \<Rightarrow> i64" where
  "mac_ns sec nsec = s64 (s64 (uint sec * kNanosecondsPerSecond) + uint nsec)"

lemma uint_u32_bounds: "0 \<le> uint (x :: u32)" "uint (x :: u32) < 4294967296"
  using unsigned_less [of x, where ?'a = int] by simp_all

text \<open>A 32-bit second count in nanoseconds fits 63 bits, whatever the nanoseconds are.\<close>

lemma mac_ns_exact: "mac_ns sec nsec = uint sec * 1000000000 + uint nsec"
proof -
  have "in_i64 (uint sec * 1000000000)" "in_i64 (uint sec * 1000000000 + uint nsec)"
    unfolding in_i64_numeric using uint_u32_bounds [of sec] uint_u32_bounds [of nsec] by linarith+
  then show ?thesis by (simp add: mac_ns_def kNanosecondsPerSecond_def s64_id)
qed

lemma mac_ns_bounds [i64_simps]: "0 \<le> mac_ns sec nsec" "mac_ns sec nsec < 4294967296000000000 + 4294967296"
  unfolding mac_ns_exact using uint_u32_bounds [of sec] uint_u32_bounds [of nsec] by linarith+

lemma mac_ns_in_i64 [i64_simps]: "in_i64 (mac_ns sec nsec)"
  unfolding in_i64_numeric using mac_ns_bounds [of sec nsec] by linarith

text \<open>On valid nanoseconds the count orders and identifies the pair.\<close>

lemma mac_ns_less_iff:
  assumes "nanos_valid n1" "nanos_valid n2"
  shows "mac_ns s1 n1 < mac_ns s2 n2 \<longleftrightarrow> uint s1 < uint s2 \<or> uint s1 = uint s2 \<and> uint n1 < uint n2"
  using assms uint_u32_bounds(1) [of n1] uint_u32_bounds(1) [of n2]
  unfolding mac_ns_exact nanos_valid_def kNanosecondsPerSecond_def by linarith

lemma mac_ns_inject:
  assumes "nanos_valid n1" "nanos_valid n2" "mac_ns s1 n1 = mac_ns s2 n2"
  shows "s1 = s2 \<and> n1 = n2"
proof -
  have "uint s1 = uint s2 \<and> uint n1 = uint n2"
    using assms mac_ns_less_iff [of n1 n2 s1 s2] mac_ns_less_iff [of n2 n1 s2 s1] by auto
  then show ?thesis by (simp add: word_uint_eq_iff)
qed

subsection \<open>Midpoints\<close>

definition midpoint :: "i64 \<Rightarrow> i64 \<Rightarrow> i64" where
  "midpoint first second = s64 (first + s64 (second - first) sdiv 2)"

lemma midpoint_exact:
  assumes "in_i64 first" "in_i64 second" "in_i64 (second - first)"
  shows "midpoint first second = first + (second - first) sdiv 2"
    and "min first second \<le> midpoint first second" "midpoint first second \<le> max first second"
proof -
  have b: "min first second \<le> first + (second - first) sdiv 2"
    "first + (second - first) sdiv 2 \<le> max first second"
    by (cases "first \<le> second"; simp add: sdiv_nonneg sdiv_neg)+
  with assms have "in_i64 (first + (second - first) sdiv 2)"
    by (auto simp: in_i64_def min_def max_def split: if_splits)
  with assms show e: "midpoint first second = first + (second - first) sdiv 2"
    by (simp add: midpoint_def s64_id)
  from b show "min first second \<le> midpoint first second" "midpoint first second \<le> max first second"
    by (simp_all add: e)
qed

lemma midpoint_in_i64 [simp, i64_simps]: "in_i64 (midpoint a b)"
  by (simp add: midpoint_def)

end
