(* ===== verification/Mac_Clock_Reader.thy ===== *)
theory Mac_Clock_Reader
  imports Mem_Device Clock_Types
begin

text \<open>
  \<^verbatim>\<open>MacClockReader\<close> (\<^verbatim>\<open>src/MacClockReader.cpp\<close>): one read of the clock state the firmware exports. The
  read picks one of three layouts of the conversion fields, the validation rejects impossible values
  and a clock that ran backwards, and every rejection is counted under its reason. The reader is the
  program's implementation of \<^verbatim>\<open>IClockStateReader\<close>, stated here as the locale \<open>clock_state_reader\<close>.
\<close>

subsection \<open>State and construction\<close>

record MacClockReaderStatus =
  reject_reasons :: "string \<rightharpoonup> nat"
  read_attempts :: nat
  read_failures :: nat
  valid_reads :: nat

record MacClockReader =
  mr_cpp :: nfp_cpp
  mr_symbolName :: string
  mr_address :: u64
  mr_symbolSize :: u64
  mr_domain :: int
  mr_target :: int
  mr_type :: int
  mr_expectedSize :: nat
  mr_cppId :: u32
  hasLastState :: bool
  lastState :: MacTimeStateHost
  mr_status :: MacClockReaderStatus

definition sizeof_MacTimeStateHost :: nat where
  "sizeof_MacTimeStateHost = 20"

definition new_MacClockReader ::
  "'w nfp_api \<Rightarrow> nfp_cpp option \<Rightarrow> nfp_rtsym option \<Rightarrow> string \<Rightarrow> nat \<Rightarrow> MacClockReader outcome" where
  "new_MacClockReader api cpp symbol symbolName expectedSize =
    (case cpp of
       None \<Rightarrow> Inl (invalid_argument ''MacClockReader requires a valid CPP handle'')
     | Some cpp' \<Rightarrow>
    (case symbol of
       None \<Rightarrow> Inl (invalid_argument ''MacClockReader requires a resolved mac_time symbol'')
     | Some symb \<Rightarrow>
       if expectedSize \<noteq> sizeof_MacTimeStateHost then
         Inl (invalid_argument ''MacClockReader expected size does not match host structure'')
       else if sym_size symb \<noteq> 0 \<and> sym_size symb < 16 then
         Inl (runtime_error ''mac_time symbol is too small to contain mandatory fields'')
       else Inr \<lparr> mr_cpp = cpp', mr_symbolName = symbolName, mr_address = sym_addr symb,
         mr_symbolSize = sym_size symb, mr_domain = sym_domain symb, mr_target = sym_target symb,
         mr_type = sym_type symb, mr_expectedSize = expectedSize,
         mr_cppId = island_id api kCppTargetMem kCppActionReadWrite 0 (sym_domain symb),
         hasLastState = False, lastState = zero_state,
         mr_status = \<lparr> reject_reasons = Map.empty, read_attempts = 0,
           read_failures = 0, valid_reads = 0 \<rparr> \<rparr>))"

subsection \<open>Reading\<close>

definition hasValidConversion :: "MacTimeStateHost \<Rightarrow> bool" where
  "hasValidConversion state \<longleftrightarrow> conv_mult state \<noteq> 0 \<and> conv_rshift state < 32"

definition bytesToRead :: "MacClockReader \<Rightarrow> nat" where
  "bytesToRead r = (if 20 \<le> mr_symbolSize r then 20
     else if 16 \<le> mr_symbolSize r then 16 else mr_expectedSize r)"

text \<open>The choice of layout, from the bytes that were read.\<close>

definition decode_state :: "nat \<Rightarrow> u8 list \<Rightarrow> MacTimeStateHost" where
  "decode_state n raw =
    (let packed = \<lparr> mac_time_s = readLe32 raw 0, mac_time_ns = readLe32 raw 4,
           me_time = readLe32 raw 8, conv_mult = ucast (readLe16 raw 12),
           conv_rshift = ucast (readLe16 raw 14) \<rparr>;
         swapped = packed\<lparr> conv_mult := ucast (readLe16 raw 14),
           conv_rshift := ucast (readLe16 raw 12) \<rparr>;
         aligned = packed\<lparr> conv_mult := readLe32 raw 12, conv_rshift := readLe32 raw 16 \<rparr>
     in if hasValidConversion packed then packed
        else if hasValidConversion swapped then swapped
        else if 20 \<le> n \<and> hasValidConversion aligned then aligned
        else packed)"

definition readRaw ::
  "'w nfp_api \<Rightarrow> MacClockReader \<Rightarrow> 'w \<Rightarrow> (string + MacTimeStateHost) \<times> 'w" where
  "readRaw api r w =
    (let n = bytesToRead r in
     case area_alloc api (mr_cpp r) (mr_cppId r) (mr_address r) n w of
       (None, w) \<Rightarrow> (Inl ''area-alloc-failed'', w)
     | (Some a, w) \<Rightarrow>
    (case area_acquire api a w of (rc, w) \<Rightarrow>
       if rc < 0 then (Inl ''area-acquire-failed'', area_free api a w)
       else case area_read api a 0 n w of ((got, raw), w) \<Rightarrow>
         let w = area_release_free api a w in
         if got \<noteq> s32 (int n) then (Inl ''short-read'', w)
         else (Inr (decode_state n raw), w)))"

definition validateState :: "MacClockReader \<Rightarrow> MacTimeStateHost \<Rightarrow> string option" where
  "validateState r state =
    (if \<not> nanos_valid (mac_time_ns state) then Some ''invalid-nanoseconds''
     else if 32 \<le> conv_rshift state then Some ''invalid-rshift''
     else if conv_mult state = 0 then Some ''invalid-conv-mult''
     else if mac_time_s state = 0 \<and> mac_time_ns state = 0 \<and> me_time state = 0 \<and>
       conv_mult state = 0 \<and> conv_rshift state = 0 then Some ''all-zero-state''
     else if hasLastState r \<and>
       mac_ns (mac_time_s state) (mac_time_ns state)
         < mac_ns (mac_time_s (lastState r)) (mac_time_ns (lastState r))
     then Some ''mac-time-rollback''
     else None)"

definition reject :: "string \<Rightarrow> MacClockReaderStatus \<Rightarrow> MacClockReaderStatus" where
  "reject reason st =
    (let key = (if reason = [] then ''unknown'' else reason)
     in st\<lparr> reject_reasons := (reject_reasons st)(key \<mapsto>
          (case reject_reasons st key of None \<Rightarrow> 1 | Some n \<Rightarrow> Suc n)) \<rparr>)"

definition readState ::
  "'w nfp_api \<Rightarrow> MacClockReader \<Rightarrow> 'w \<Rightarrow> MacStateObservation \<times> MacClockReader \<times> 'w" where
  "readState api r w =
    (let st = (mr_status r)\<lparr> read_attempts := Suc (read_attempts (mr_status r)) \<rparr> in
     case readRaw api r w of
       (Inl reason, w) \<Rightarrow>
         (zero_observation\<lparr> valid := False, reject_reason := reason \<rparr>,
          r\<lparr> mr_status := reject reason (st\<lparr> read_failures := Suc (read_failures st) \<rparr>) \<rparr>, w)
     | (Inr state, w) \<Rightarrow>
        (case validateState r state of
           Some reason \<Rightarrow>
             (zero_observation\<lparr> obs_state := state, valid := False, reject_reason := reason \<rparr>,
              r\<lparr> mr_status := reject reason st \<rparr>, w)
         | None \<Rightarrow>
             (zero_observation\<lparr> obs_state := state, valid := True \<rparr>,
              r\<lparr> mr_status := st\<lparr> valid_reads := Suc (valid_reads st) \<rparr>,
                 lastState := state, hasLastState := True \<rparr>, w)))"

subsection \<open>The interface \<^verbatim>\<open>IClockStateReader\<close>\<close>

text \<open>
  What the clock sampler may rely on: an observation that is marked valid has a nanosecond part below
  one second and a usable conversion, and its time is not below \<open>last_ns r\<close>, the time of the latest valid
  observation of this reader, which it becomes. An invalid observation leaves \<open>last_ns\<close> alone.
\<close>

definition state_ns :: "MacTimeStateHost \<Rightarrow> i64" where
  "state_ns s = mac_ns (mac_time_s s) (mac_time_ns s)"

text \<open>A sequence of reads through the interface.\<close>

fun reads ::
  "('r \<Rightarrow> 'w \<Rightarrow> MacStateObservation \<times> 'r \<times> 'w) \<Rightarrow> nat \<Rightarrow> 'r \<Rightarrow> 'w \<Rightarrow>
    MacStateObservation list \<times> 'r \<times> 'w" where
  "reads rd 0 r w = ([], r, w)"
| "reads rd (Suc n) r w = (case rd r w of (obs, r, w) \<Rightarrow>
     case reads rd n r w of (os, r, w) \<Rightarrow> (obs # os, r, w))"

locale clock_state_reader =
  fixes read :: "'r \<Rightarrow> 'w \<Rightarrow> MacStateObservation \<times> 'r \<times> 'w"
    and last_ns :: "'r \<Rightarrow> i64 option"
  assumes read_valid: "read r w = (obs, r', w') \<Longrightarrow> valid obs \<Longrightarrow>
      nanos_valid (mac_time_ns (obs_state obs)) \<and> hasValidConversion (obs_state obs) \<and>
      last_ns r' = Some (state_ns (obs_state obs)) \<and>
      (\<forall>t. last_ns r = Some t \<longrightarrow> t \<le> state_ns (obs_state obs))"
    and read_invalid: "read r w = (obs, r', w') \<Longrightarrow> \<not> valid obs \<Longrightarrow> last_ns r' = last_ns r"
begin

lemma reads_times:
  "reads read n r w = (os, r', w') \<Longrightarrow>
    sorted (map (\<lambda>ob. state_ns (obs_state ob)) (filter valid os)) \<and>
    (\<forall>t. last_ns r = Some t \<longrightarrow> (\<forall>ob \<in> set os. valid ob \<longrightarrow> t \<le> state_ns (obs_state ob)))"
proof (induction n arbitrary: r w os)
  case (Suc n)
  obtain obs r1 w1 where rd: "read r w = (obs, r1, w1)" by (cases "read r w")
  obtain os' where os: "os = obs # os'" and rs: "reads read n r1 w1 = (os', r', w')"
    using Suc.prems rd by (auto split: prod.splits)
  note IH = Suc.IH [OF rs]
  show ?case
  proof (cases "valid obs")
    case True
    from IH read_valid [OF rd True] show ?thesis by (auto simp: os)
  next
    case False
    from IH read_invalid [OF rd False] False show ?thesis by (auto simp: os)
  qed
qed auto

end

definition reader_last :: "MacClockReader \<Rightarrow> i64 option" where
  "reader_last r = (if hasLastState r then Some (state_ns (lastState r)) else None)"

lemma validateState_None:
  assumes "validateState r s = None"
  shows "nanos_valid (mac_time_ns s)" "hasValidConversion s"
    "hasLastState r \<Longrightarrow> state_ns (lastState r) \<le> state_ns s"
  using assms by (auto simp: validateState_def hasValidConversion_def state_ns_def split: if_splits)

text \<open>The possible outcomes of a read, by the raw read and the validation.\<close>

lemma readState_cases:
  assumes "readState api r w = (obs, r', w')"
  obtains (failed) reason where "readRaw api r w = (Inl reason, w')" "\<not> valid obs"
      "reject_reason obs = reason" "lastState r' = lastState r" "hasLastState r' = hasLastState r"
  | (rejected) s reason where "readRaw api r w = (Inr s, w')" "validateState r s = Some reason"
      "\<not> valid obs" "obs_state obs = s" "reject_reason obs = reason"
      "lastState r' = lastState r" "hasLastState r' = hasLastState r"
  | (accepted) s where "readRaw api r w = (Inr s, w')" "validateState r s = None"
      "valid obs" "obs_state obs = s" "lastState r' = s" "hasLastState r'"
  using assms
  by (auto simp: readState_def Let_def zero_observation_def split: prod.splits sum.splits option.splits)

interpretation mac: clock_state_reader "readState api" reader_last for api :: "'w nfp_api"
proof (unfold_locales, goal_cases)
  case (1 r w obs r' w')
  then show ?case
    by (elim readState_cases) (auto simp: reader_last_def dest: validateState_None)
next
  case (2 r w obs r' w')
  then show ?case by (elim readState_cases) (auto simp: reader_last_def)
qed

subsection \<open>Layouts of the exported state\<close>

text \<open>
  The three byte layouts the decoder is written for: two 16-bit conversion fields in either order, and
  the layout of the host structure with 32-bit fields.
\<close>

definition time_bytes :: "MacTimeStateHost \<Rightarrow> u8 list" where
  "time_bytes s = le_bytes 4 (unat (mac_time_s s)) @ le_bytes 4 (unat (mac_time_ns s)) @
     le_bytes 4 (unat (me_time s))"

definition packed_bytes :: "MacTimeStateHost \<Rightarrow> u8 list" where
  "packed_bytes s = time_bytes s @ le_bytes 2 (unat (conv_mult s)) @ le_bytes 2 (unat (conv_rshift s))"

definition swapped_bytes :: "MacTimeStateHost \<Rightarrow> u8 list" where
  "swapped_bytes s = time_bytes s @ le_bytes 2 (unat (conv_rshift s)) @ le_bytes 2 (unat (conv_mult s))"

definition aligned_bytes :: "MacTimeStateHost \<Rightarrow> u8 list" where
  "aligned_bytes s = time_bytes s @ le_bytes 4 (unat (conv_mult s)) @ le_bytes 4 (unat (conv_rshift s))"

lemma unat_u32_less: "unat (x :: u32) < 4294967296"
  using unsigned_less [of x, where ?'a = nat] by simp

lemma readLe32_le_bytes:
  "readLe32 (le_bytes 4 (unat a) @ bs) 0 = a" "4 \<le> off \<Longrightarrow> readLe32 (le_bytes 4 k @ bs) off = readLe32 bs (off - 4)"
  using unat_u32_less [of a] by (simp_all add: readLe32_def le_field_here le_field_skip)

lemma readLe16_le_bytes:
  "readLe16 (le_bytes 2 k @ bs) 0 = of_nat k" "4 \<le> off \<Longrightarrow> readLe16 (le_bytes 4 k @ bs) off = readLe16 bs (off - 4)"
  "2 \<le> off \<Longrightarrow> readLe16 (le_bytes 2 k @ bs) off = readLe16 bs (off - 2)"
  by (simp_all add: readLe16_def le_field_here le_field_skip word_of_nat_eq_iff take_bit_eq_mod)

lemma le_bytes_4: "le_bytes 4 k = le_bytes 2 k @ le_bytes 2 (k div 65536)"
  using le_bytes_add [of 2 2 k] by simp

lemma readLe16_le_bytes_4:
  "readLe16 (le_bytes 4 k @ bs) 0 = of_nat k" "readLe16 (le_bytes 4 k @ bs) 2 = of_nat (k div 65536)"
  by (simp_all add: le_bytes_4 readLe16_le_bytes)

lemma layout_fields:
  "readLe32 (time_bytes s @ bs) 0 = mac_time_s s" "readLe32 (time_bytes s @ bs) 4 = mac_time_ns s"
  "readLe32 (time_bytes s @ bs) 8 = me_time s"
  "12 \<le> off \<Longrightarrow> readLe16 (time_bytes s @ bs) off = readLe16 bs (off - 12)"
  "12 \<le> off \<Longrightarrow> readLe32 (time_bytes s @ bs) off = readLe32 bs (off - 12)"
  by (simp_all add: time_bytes_def readLe32_le_bytes readLe16_le_bytes)

lemma u16_u32: "unat (x :: u32) < 65536 \<Longrightarrow> ucast (ucast x :: u16) = x"
  by (simp add: word_unat_eq_iff unsigned_ucast_eq unsigned_take_bit_eq take_bit_nat_eq_self)

lemmas layout_simps = layout_fields readLe16_le_bytes readLe16_le_bytes_4 hasValidConversion_def Let_def

text \<open>
  C38 (roundtrip). A state with a usable conversion of 16-bit fields is read back exactly from the packed layout,
  whatever follows it and whichever size was read. From the swapped layout it is read back exactly if its
  bytes are not also those of a usable packed state, that is, if the shift is zero or the multiplier is at least 32;
  otherwise multiplier and shift come back exchanged.
\<close>

theorem packed_layout_roundtrip:
  assumes "hasValidConversion s" "unat (conv_mult s) < 65536"
  shows "decode_state n (packed_bytes s @ rest) = s \<and>
    decode_state n (swapped_bytes s @ rest) =
      (if conv_rshift s = 0 \<or> 32 \<le> conv_mult s then s
       else s\<lparr> conv_mult := conv_rshift s, conv_rshift := conv_mult s \<rparr>)"
proof -
  have r: "unat (conv_rshift s) < 65536"
    using assms(1) by (simp add: hasValidConversion_def word_less_nat_alt)
  have rd: "readLe16 (le_bytes 2 a @ le_bytes 2 b @ rest) 0 = of_nat a"
    "readLe16 (le_bytes 2 a @ le_bytes 2 b @ rest) 2 = of_nat b" for a b
    by (simp_all add: readLe16_le_bytes)
  note f = layout_simps rd u16_u32 [OF assms(2)] u16_u32 [OF r]
  have "decode_state n (packed_bytes s @ rest) = s"
    using assms(1) by (simp add: decode_state_def packed_bytes_def f)
  moreover have "decode_state n (swapped_bytes s @ rest) = s" if "conv_rshift s = 0 \<or> 32 \<le> conv_mult s"
    using assms(1) that by (auto simp add: decode_state_def swapped_bytes_def f not_less)
  moreover have "decode_state n (swapped_bytes s @ rest) = s\<lparr> conv_mult := conv_rshift s, conv_rshift := conv_mult s \<rparr>"
    if "\<not> (conv_rshift s = 0 \<or> 32 \<le> conv_mult s)"
    using assms(1) that by (simp add: decode_state_def swapped_bytes_def f not_le)
  ultimately show ?thesis by simp
qed

text \<open>A multiplier of 100 survives either order, a multiplier of 16 only the first.\<close>

definition test_conversion :: "u32 \<Rightarrow> u32 \<Rightarrow> MacTimeStateHost" where
  "test_conversion m r = \<lparr> mac_time_s = 10, mac_time_ns = 5, me_time = 7, conv_mult = m, conv_rshift = r \<rparr>"

theorem packed_layout_roundtrip_witness:
  "decode_state 16 (packed_bytes (test_conversion 100 3) @ []) = test_conversion 100 3 \<and>
   decode_state 16 (swapped_bytes (test_conversion 100 3) @ []) = test_conversion 100 3 \<and>
   decode_state 20 (packed_bytes (test_conversion 16 3) @ [0, 0, 0, 0]) = test_conversion 16 3 \<and>
   decode_state 20 (swapped_bytes (test_conversion 16 3) @ [0, 0, 0, 0]) = test_conversion 3 16"
  using packed_layout_roundtrip [of "test_conversion 100 3" 16 "[]"]
    packed_layout_roundtrip [of "test_conversion 16 3" 20 "[0, 0, 0, 0]"]
  by (simp add: hasValidConversion_def test_conversion_def)

text \<open>
  The layout of the host structure itself, two 32-bit fields, is only ever read back
  with a shift of zero when its multiplier is below \<open>2 ^ 16\<close>: its bytes are taken for a packed state
  first.
\<close>

theorem aligned_layout_misread:
  assumes "hasValidConversion s" "unat (conv_mult s) < 65536"
  shows "decode_state n (aligned_bytes s @ rest) = s\<lparr> conv_rshift := 0 \<rparr>"
proof -
  have "unat (conv_mult s) div 65536 = 0" using assms(2) by simp
  then have rd: "readLe16 (le_bytes 4 (unat (conv_mult s)) @ bs) 0 = ucast (conv_mult s)"
    "readLe16 (le_bytes 4 (unat (conv_mult s)) @ bs) 2 = 0" for bs
    using readLe16_le_bytes_4 [of "unat (conv_mult s)" bs] by simp_all
  show ?thesis
    using assms(1)
    by (simp add: decode_state_def aligned_bytes_def layout_fields hasValidConversion_def Let_def rd
        u16_u32 [OF assms(2)])
qed

theorem aligned_layout_misread_witness:
  "decode_state 20 (aligned_bytes \<lparr> mac_time_s = 10, mac_time_ns = 5, me_time = 7, conv_mult = 16,
     conv_rshift = 3 \<rparr> @ []) \<noteq>
   \<lparr> mac_time_s = 10, mac_time_ns = 5, me_time = 7, conv_mult = 16, conv_rshift = 3 \<rparr>"
  using aligned_layout_misread [of "\<lparr> mac_time_s = 10, mac_time_ns = 5, me_time = 7, conv_mult = 16,
     conv_rshift = 3 \<rparr>" 20 "[]"]
  by (simp add: hasValidConversion_def)

subsection \<open>The status counters\<close>

definition raw_reasons :: "string list" where
  "raw_reasons = [''area-alloc-failed'', ''area-acquire-failed'', ''short-read'']"

definition state_reasons :: "string list" where
  "state_reasons = [''invalid-nanoseconds'', ''invalid-rshift'', ''invalid-conv-mult'', ''mac-time-rollback'']"

definition reason_count :: "MacClockReaderStatus \<Rightarrow> string \<Rightarrow> nat" where
  "reason_count st k = (case reject_reasons st k of None \<Rightarrow> 0 | Some n \<Rightarrow> n)"

definition status_inv :: "MacClockReaderStatus \<Rightarrow> bool" where
  "status_inv st \<longleftrightarrow>
     (\<forall>k. k \<notin> set (raw_reasons @ state_reasons) \<longrightarrow> reject_reasons st k = None) \<and>
     read_failures st = sum_list (map (reason_count st) raw_reasons) \<and>
     read_attempts st = valid_reads st + read_failures st + sum_list (map (reason_count st) state_reasons)"

lemma readRaw_reasons: "readRaw api r w = (Inl reason, w') \<Longrightarrow> reason \<in> set raw_reasons"
  by (auto simp: readRaw_def Let_def raw_reasons_def split: prod.splits option.splits if_splits)

lemma validateState_reasons: "validateState r s = Some reason \<Longrightarrow> reason \<in> set state_reasons"
  by (auto simp: validateState_def state_reasons_def split: if_splits)

lemma reason_count_reject:
  "reason \<noteq> [] \<Longrightarrow> reason_count (reject reason st) k = reason_count st k + of_bool (k = reason)"
  by (auto simp: reason_count_def reject_def split: option.splits)

lemma reject_keys:
  "reason \<noteq> [] \<Longrightarrow> k \<noteq> reason \<Longrightarrow> reject_reasons (reject reason st) k = reject_reasons st k"
  by (simp add: reject_def)

lemma reject_other [simp]:
  "read_attempts (reject reason st) = read_attempts st"
  "read_failures (reject reason st) = read_failures st"
  "valid_reads (reject reason st) = valid_reads st"
  by (simp_all add: reject_def Let_def)

lemma reason_count_cong [simp]:
  "reason_count (st\<lparr> read_attempts := n \<rparr>) = reason_count st"
  "reason_count (st\<lparr> read_failures := n \<rparr>) = reason_count st"
  "reason_count (st\<lparr> valid_reads := n \<rparr>) = reason_count st"
  by (simp_all add: reason_count_def fun_eq_iff)

lemma status_inv_raw:
  assumes "status_inv st" "reason \<in> set raw_reasons"
  shows "status_inv (reject reason (st\<lparr> read_attempts := Suc (read_attempts st),
    read_failures := Suc (read_failures st) \<rparr>))"
proof -
  have ne: "reason \<noteq> []" using assms(2) by (auto simp: raw_reasons_def)
  show ?thesis
    using assms unfolding status_inv_def
    by (auto simp: reject_keys [OF ne] reason_count_reject [OF ne] raw_reasons_def state_reasons_def)
qed

lemma status_inv_state:
  assumes "status_inv st" "reason \<in> set state_reasons"
  shows "status_inv (reject reason (st\<lparr> read_attempts := Suc (read_attempts st) \<rparr>))"
proof -
  have ne: "reason \<noteq> []" using assms(2) by (auto simp: state_reasons_def)
  show ?thesis
    using assms unfolding status_inv_def
    by (auto simp: reject_keys [OF ne] reason_count_reject [OF ne] raw_reasons_def state_reasons_def)
qed

text \<open>
  Every read is accounted for: it is valid or counted under exactly one of seven
  reasons, a failed raw read under one of the first three. The reasons \<open>all-zero-state\<close> and \<open>unknown\<close>,
  which the code also names, are never counted.
\<close>

theorem readState_status_inv:
  "status_inv (mr_status r) \<Longrightarrow> status_inv (mr_status (fst (snd (readState api r w))))"
proof (cases "readRaw api r w")
  case (Pair res w1)
  assume inv: "status_inv (mr_status r)"
  show ?thesis
  proof (cases res)
    case (Inl reason)
    then show ?thesis
      using status_inv_raw [OF inv] readRaw_reasons [of api r w reason w1] Pair
      by (simp add: readState_def)
  next
    case (Inr s)
    have ok: "status_inv (st\<lparr> read_attempts := Suc (read_attempts st), valid_reads := Suc (valid_reads st) \<rparr>)"
      if "status_inv st" for st
      using that by (simp add: status_inv_def)
    show ?thesis
    proof (cases "validateState r s")
      case None
      with Pair Inr ok [OF inv] show ?thesis by (simp add: readState_def)
    next
      case (Some reason)
      with Pair Inr status_inv_state [OF inv] validateState_reasons show ?thesis
        by (simp add: readState_def)
    qed
  qed
qed

theorem readState_status_inv_witness:
  "status_inv (mr_status (fst (snd (readState mem_api
     (case new_MacClockReader mem_api (Some 0) (Some \<lparr> sym_name = ''_mac_time'', sym_addr = 4096,
        sym_size = 16, sym_domain = 4, sym_target = 7, sym_type = 1 \<rparr>) ''_mac_time'' 20 of Inr r \<Rightarrow> r)
     (mem_at [])))))"
  by (rule readState_status_inv)
    (simp add: new_MacClockReader_def sizeof_MacTimeStateHost_def status_inv_def reason_count_def
      raw_reasons_def state_reasons_def)

text \<open>
  C37 (safety). After a valid read at time \<open>T\<close>, a device whose clock has restarted below \<open>T\<close> is never
  read as valid again, for as long as its clock stays below \<open>T\<close>: the remembered time is not updated by
  a rejected read.
\<close>

theorem mac_rollback_stuck:
  assumes "hasLastState r"
    and "reads (readState api) n r w = (os, r', w')"
    and "\<forall>ob \<in> set os. state_ns (obs_state ob) < state_ns (lastState r)"
  shows "(\<forall>ob \<in> set os. \<not> valid ob) \<and> lastState r' = lastState r"
  using assms
proof (induction n arbitrary: r w os)
  case (Suc n)
  obtain obs r1 w1 where rd: "readState api r w = (obs, r1, w1)" by (cases "readState api r w")
  obtain os' where os: "os = obs # os'" and rs: "reads (readState api) n r1 w1 = (os', r', w')"
    using Suc.prems(2) rd by (auto split: prod.splits)
  have step: "\<not> valid obs \<and> lastState r1 = lastState r \<and> hasLastState r1"
    using rd
  proof (cases rule: readState_cases)
    case (accepted s)
    then have "state_ns (lastState r) \<le> state_ns s" "state_ns s < state_ns (lastState r)"
      using validateState_None(3) [OF accepted(2) Suc.prems(1)] Suc.prems(3) by (auto simp: os)
    then show ?thesis by simp
  qed (use Suc.prems(1) in auto)
  have "(\<forall>ob \<in> set os'. \<not> valid ob) \<and> lastState r' = lastState r1"
    by (rule Suc.IH [OF _ rs]) (use step Suc.prems(3) os in auto)
  with step show ?case by (simp add: os)
qed simp

definition restarted_reader :: MacClockReader where
  "restarted_reader = \<lparr> mr_cpp = 0, mr_symbolName = ''_mac_time'', mr_address = 4096, mr_symbolSize = 16,
     mr_domain = 4, mr_target = 7, mr_type = 1, mr_expectedSize = 20, mr_cppId = 4,
     hasLastState = True,
     lastState = \<lparr> mac_time_s = 100, mac_time_ns = 0, me_time = 0, conv_mult = 16, conv_rshift = 3 \<rparr>,
     mr_status = \<lparr> reject_reasons = Map.empty, read_attempts = 1, read_failures = 0, valid_reads = 1 \<rparr> \<rparr>"

definition restarted_world :: mem_world where
  "restarted_world = mem_at [(4, 4096, packed_bytes \<lparr> mac_time_s = 1, mac_time_ns = 500, me_time = 9,
     conv_mult = 16, conv_rshift = 3 \<rparr>)]"

theorem mac_rollback_stuck_witness:
  "filter valid (fst (reads (readState mem_api) 3 restarted_reader restarted_world)) = []"
proof -
  obtain os r' w' where rs: "reads (readState mem_api) 3 restarted_reader restarted_world = (os, r', w')"
    by (cases "reads (readState mem_api) 3 restarted_reader restarted_world")
  have "list_all (\<lambda>ob. state_ns (obs_state ob) < state_ns (lastState restarted_reader))
     (fst (reads (readState mem_api) 3 restarted_reader restarted_world))"
    by code_simp
  with rs have "\<forall>ob \<in> set os. state_ns (obs_state ob) < state_ns (lastState restarted_reader)"
    by (simp add: list_all_iff)
  moreover have "hasLastState restarted_reader" by (simp add: restarted_reader_def)
  ultimately show ?thesis using mac_rollback_stuck [OF _ rs] rs by (simp add: filter_empty_conv)
qed

text \<open>
  C36 (invariant). The valid observations of any sequence of reads carry times in ascending order.
\<close>

theorem mac_reads_sorted:
  "reads (readState api) n r w = (os, r', w') \<Longrightarrow>
    sorted (map (\<lambda>ob. state_ns (obs_state ob)) (filter valid os))"
  by (drule mac.reads_times) simp

text \<open>A device that exports one state after the other; the third of them lies before the second.\<close>

definition scripted_api :: "u8 list list nfp_api" where
  "scripted_api = \<lparr> island_id = (\<lambda>_ _ _ i. of_int i), area_alloc = (\<lambda>_ _ _ _ w. (Some 0, w)),
     area_acquire = (\<lambda>_ w. (0, w)),
     area_read = (\<lambda>_ _ _ w. case w of [] \<Rightarrow> ((- 1, []), []) | raw # rest \<Rightarrow> ((int (length raw), raw), rest)),
     area_write = (\<lambda>_ _ bs w. (int (length bs), w)), area_fill = (\<lambda>_ _ _ _ w. (0, w)),
     area_free = (\<lambda>_ w. w), area_release_free = (\<lambda>_ w. w), sleep_ms = (\<lambda>_ w. w) \<rparr>"

definition exported_at :: "u32 \<Rightarrow> u8 list" where
  "exported_at t = packed_bytes \<lparr> mac_time_s = t, mac_time_ns = 500, me_time = 9, conv_mult = 16, conv_rshift = 3 \<rparr>"

theorem mac_reads_sorted_witness:
  "map (\<lambda>ob. state_ns (obs_state ob)) (filter valid (fst (reads (readState scripted_api) 4 restarted_reader
      (map exported_at [101, 102, 101, 103])))) = [101000000500, 102000000500, 103000000500] \<and>
   sorted (map (\<lambda>ob. state_ns (obs_state ob)) (filter valid (fst (reads (readState scripted_api) 4 restarted_reader
      (map exported_at [101, 102, 101, 103])))))"
proof
  show "map (\<lambda>ob. state_ns (obs_state ob)) (filter valid (fst (reads (readState scripted_api) 4 restarted_reader
      (map exported_at [101, 102, 101, 103])))) = [101000000500, 102000000500, 103000000500]"
    by code_simp
  obtain os r' w' where "reads (readState scripted_api) 4 restarted_reader (map exported_at [101, 102, 101, 103]) =
      (os, r', w')" by (rule prod_cases3)
  with mac_reads_sorted [OF this] show "sorted (map (\<lambda>ob. state_ns (obs_state ob)) (filter valid
      (fst (reads (readState scripted_api) 4 restarted_reader (map exported_at [101, 102, 101, 103])))))" by simp
qed

lemma readRaw_holds:
  assumes "readRaw (traced api) r w = (res, w')" "holds B w"
  shows "holds B w'"
proof -
  obtain u l where w: "w = (u, l)" by (cases w)
  let ?n = "bytesToRead r"
  obtain ra wa where al: "area_alloc api (mr_cpp r) (mr_cppId r) (mr_address r) ?n u = (ra, wa)"
    by fastforce
  show ?thesis
  proof (cases ra)
    case None
    with assms al show ?thesis by (auto simp: w readRaw_def holds_def)
  next
    case (Some a)
    obtain rc wb where ac: "area_acquire api a wa = (rc, wb)" by fastforce
    obtain got raw wc where rd: "area_read api a 0 ?n wb = ((got, raw), wc)"
      by (metis prod.exhaust)
    from assms al Some ac rd show ?thesis
      by (cases "rc < 0"; cases "got = s32 (int ?n)") (auto simp: w readRaw_def holds_def Let_def)
  qed
qed

lemma readState_holds:
  assumes "readState (traced api) r w = (obs, r', w')" "holds B w"
  shows "holds B w'"
  using assms(1) by (rule readState_cases) (auto intro: readRaw_holds [OF _ assms(2)])

text \<open>
  A read opens one area and closes it, on every path and whatever the SDK calls return.
\<close>

theorem readState_areas:
  assumes "areas_of l = Some ({#}, B)" "readState (traced api) r (w, l) = (obs, r', (w', l'))"
  shows "areas_of l' = Some ({#}, B)"
  using readState_holds [OF assms(2), of B] assms(1) by (simp add: holds_def)

theorem readState_areas_witness:
  "areas_of (snd (snd (snd (readState (traced mem_api) restarted_reader (restarted_world, []))))) =
    Some ({#}, {#})"
proof -
  obtain obs r' w' l'
    where e: "readState (traced mem_api) restarted_reader (restarted_world, []) = (obs, r', (w', l'))"
    by (metis prod.exhaust)
  show ?thesis using readState_areas [OF _ e, of "{#}"] e by simp
qed

end
