(* ===== verification/Clock_Sampler.thy ===== *)
theory Clock_Sampler
  imports Mac_Clock_Reader
begin

text \<open>
  \<^verbatim>\<open>ClockSampler\<close> (\<^verbatim>\<open>src/ClockSampler.cpp\<close>): polls the clock state reader between two readings of each
  host clock and emits a sample when it sees the exported state change. The reader and the two clocks
  are parameters, as they are constructor arguments in the code: the clocks may throw, and reader and
  clocks act on one state of the outside world.
\<close>

record ClockSamplerCounters =
  observations :: nat
  accepted_transitions :: nat
  duplicate_states :: nat
  invalid_observations :: nat
  rejected_transitions :: nat
  host_clock_steps :: nat
  device_resets :: nat

record ClockSampler =
  maximumUncertaintyNs :: i64
  lastObservation :: "MacStateObservation option"
  previousRealtimeMidpointNs :: i64
  previousMonotonicMidpointNs :: i64
  sampler_counters :: ClockSamplerCounters

text \<open>What a poll reads from outside: the clock state reader and the two host clocks.\<close>

record ('r, 'w) clock_source =
  src_read :: "'r \<Rightarrow> 'w \<Rightarrow> MacStateObservation \<times> 'r \<times> 'w"
  src_realtime :: "'w \<Rightarrow> i64 outcome \<times> 'w"
  src_monotonic :: "'w \<Rightarrow> i64 outcome \<times> 'w"

definition zero_counters :: ClockSamplerCounters where
  "zero_counters = \<lparr> observations = 0, accepted_transitions = 0, duplicate_states = 0,
     invalid_observations = 0, rejected_transitions = 0, host_clock_steps = 0, device_resets = 0 \<rparr>"

definition new_ClockSampler :: "i64 \<Rightarrow> ClockSampler" where
  "new_ClockSampler maximumUncertainty = \<lparr> maximumUncertaintyNs = maximumUncertainty,
     lastObservation = None, previousRealtimeMidpointNs = 0, previousMonotonicMidpointNs = 0,
     sampler_counters = zero_counters \<rparr>"

definition sampler_reset :: "ClockSampler \<Rightarrow> ClockSampler" where
  "sampler_reset s = s\<lparr> lastObservation := None, previousRealtimeMidpointNs := 0,
     previousMonotonicMidpointNs := 0 \<rparr>"

text \<open>Counter increments; the record update of \<^verbatim>\<open>++counters_.f\<close>.\<close>

definition tally :: "((nat \<Rightarrow> nat) \<Rightarrow> ClockSamplerCounters \<Rightarrow> ClockSamplerCounters) \<Rightarrow>
    ClockSampler \<Rightarrow> ClockSampler" where
  "tally upd s = s\<lparr> sampler_counters := upd Suc (sampler_counters s) \<rparr>"

definition stateTimeNs :: "MacTimeStateHost \<Rightarrow> i64 option" where
  "stateTimeNs state = (if \<not> nanos_valid (mac_time_ns state) then None
     else Some (mac_ns (mac_time_s state) (mac_time_ns state)))"

text \<open>\<^verbatim>\<open>isPlausibleTransition\<close>: no reason for a plausible transition.\<close>

definition transition_problem :: "MacTimeStateHost \<Rightarrow> MacTimeStateHost \<Rightarrow> string option" where
  "transition_problem previous current =
    (if conv_mult current \<noteq> conv_mult previous \<or> conv_rshift current \<noteq> conv_rshift previous
     then Some ''conversion-changed''
     else case (stateTimeNs previous, stateTimeNs current) of
       (Some previousNs, Some currentNs) \<Rightarrow>
         if currentNs \<le> previousNs then Some ''mac-time-rollback'' else None
     | _ \<Rightarrow> Some ''invalid-time'')"

subsection \<open>One poll\<close>

text \<open>
  The part of \<^verbatim>\<open>poll\<close> after both clocks were read on both sides of the observation: the checks in the
  order of the code, each with its counters.
\<close>

definition check_host_step :: "i64 \<Rightarrow> i64 \<Rightarrow> ClockSampler \<Rightarrow> ClockSampler" where
  "check_host_step realtimeMidpoint monotonicMidpoint s =
    (if previousMonotonicMidpointNs s \<noteq> 0 \<and>
        llabs (s64 (s64 (realtimeMidpoint - previousRealtimeMidpointNs s) -
                    s64 (monotonicMidpoint - previousMonotonicMidpointNs s))) > 500000
     then sampler_reset (tally host_clock_steps_update s)
     else s)"

definition transition_sample ::
  "MacStateObservation \<Rightarrow> MacStateObservation \<Rightarrow> i64 \<Rightarrow> PublicationSample" where
  "transition_sample lastObs obs smartnicNs =
    (let transitionMonoStart = monotonic_after_ns (obs_bounds lastObs);
         transitionMonoEnd = monotonic_after_ns (obs_bounds obs);
         transitionWidth = s64 (transitionMonoEnd - transitionMonoStart)
     in \<lparr> smartnic_ns = smartnicNs,
          host_realtime_ns = midpoint (realtime_after_ns (obs_bounds lastObs))
            (realtime_after_ns (obs_bounds obs)),
          host_monotonic_ns = midpoint transitionMonoStart transitionMonoEnd,
          uncertainty_ns = s64 (transitionWidth + read_latency_ns obs),
          transition_start_mono_ns = transitionMonoStart,
          transition_end_mono_ns = transitionMonoEnd,
          ps_me_time = me_time (obs_state obs),
          ps_conv_mult = conv_mult (obs_state obs),
          ps_conv_rshift = conv_rshift (obs_state obs) \<rparr>)"

definition transition_width :: "MacStateObservation \<Rightarrow> MacStateObservation \<Rightarrow> i64" where
  "transition_width lastObs obs =
     s64 (monotonic_after_ns (obs_bounds obs) - monotonic_after_ns (obs_bounds lastObs))"

definition judge_observation ::
  "MacStateObservation \<Rightarrow> ClockSampler \<Rightarrow> PublicationSample option \<times> ClockSampler" where
  "judge_observation obs s =
    (if \<not> valid obs then (None, tally invalid_observations_update s)
     else case lastObservation s of
       None \<Rightarrow> (None, s\<lparr> lastObservation := Some obs \<rparr>)
     | Some lastObs \<Rightarrow>
        if state_eq (obs_state obs) (obs_state lastObs) then
          (None, (tally duplicate_states_update s)\<lparr> lastObservation := Some obs \<rparr>)
        else if transition_problem (obs_state lastObs) (obs_state obs) \<noteq> None then
          (None, (tally rejected_transitions_update (tally device_resets_update s))
            \<lparr> lastObservation := Some obs \<rparr>)
        else case stateTimeNs (obs_state obs) of
          None \<Rightarrow> (None, (tally rejected_transitions_update s)\<lparr> lastObservation := Some obs \<rparr>)
        | Some smartnicNs \<Rightarrow>
           let sample = transition_sample lastObs obs smartnicNs in
           if transition_width lastObs obs < 0 \<or> uncertainty_ns sample > maximumUncertaintyNs s then
             (None, (tally rejected_transitions_update s)\<lparr> lastObservation := Some obs \<rparr>)
           else (Some sample, (tally accepted_transitions_update s)\<lparr> lastObservation := Some obs \<rparr>))"

definition settle ::
  "HostClockBounds \<Rightarrow> MacStateObservation \<Rightarrow> ClockSampler \<Rightarrow> PublicationSample option \<times> ClockSampler" where
  "settle bounds observation s =
    (let obs = observation\<lparr> obs_bounds := bounds, read_latency_ns :=
           s64 (monotonic_after_ns bounds - monotonic_before_ns bounds) \<rparr> in
     if realtime_after_ns bounds < realtime_before_ns bounds \<or>
        monotonic_after_ns bounds < monotonic_before_ns bounds
     then (None, tally invalid_observations_update s)
     else
       let realtimeMidpoint = midpoint (realtime_before_ns bounds) (realtime_after_ns bounds);
           monotonicMidpoint = midpoint (monotonic_before_ns bounds) (monotonic_after_ns bounds);
           s = (check_host_step realtimeMidpoint monotonicMidpoint s)
             \<lparr> previousRealtimeMidpointNs := realtimeMidpoint,
               previousMonotonicMidpointNs := monotonicMidpoint \<rparr>
       in judge_observation obs s)"

text \<open>
  The whole poll. A clock that throws ends it; the sampler is not returned then, because no caller of
  the program goes on with it (the exception leaves the constructor or the I/O thread).
\<close>

definition poll ::
  "('r, 'w) clock_source \<Rightarrow> ClockSampler \<Rightarrow> 'r \<Rightarrow> 'w \<Rightarrow>
    (PublicationSample option \<times> ClockSampler \<times> 'r) outcome \<times> 'w" where
  "poll src s r w =
    (let s = tally observations_update s in
     and_then (src_realtime src w) (\<lambda>rb w.
     and_then (src_monotonic src w) (\<lambda>mb w.
     (case src_read src r w of (observation, r, w) \<Rightarrow>
     and_then (src_monotonic src w) (\<lambda>ma w.
     and_then (src_realtime src w) (\<lambda>ra w.
       (case settle \<lparr> realtime_before_ns = rb, realtime_after_ns = ra,
                 monotonic_before_ns = mb, monotonic_after_ns = ma \<rparr> observation s of
         (sample, s) \<Rightarrow> (Inr (sample, s, r), w))))))))"

subsection \<open>Samples are observed transitions\<close>

lemma tally_simps [simp]:
  "lastObservation (tally f s) = lastObservation s"
  "maximumUncertaintyNs (tally f s) = maximumUncertaintyNs s"
  "previousRealtimeMidpointNs (tally f s) = previousRealtimeMidpointNs s"
  "previousMonotonicMidpointNs (tally f s) = previousMonotonicMidpointNs s"
  "sampler_counters (tally f s) = f Suc (sampler_counters s)"
  by (simp_all add: tally_def)

lemma transition_problem_None:
  "transition_problem p c = None \<longleftrightarrow>
    conv_mult c = conv_mult p \<and> conv_rshift c = conv_rshift p \<and>
    nanos_valid (mac_time_ns p) \<and> nanos_valid (mac_time_ns c) \<and> state_ns p < state_ns c"
  by (auto simp: transition_problem_def stateTimeNs_def state_ns_def)

text \<open>When a judged observation becomes a sample, and what the sample is.\<close>

lemma judge_Some_iff:
  "judge_observation obs s = (Some sample, s') \<longleftrightarrow>
    (\<exists>prev. valid obs \<and> lastObservation s = Some prev \<and>
      transition_problem (obs_state prev) (obs_state obs) = None \<and>
      sample = transition_sample prev obs (state_ns (obs_state obs)) \<and>
      0 \<le> transition_width prev obs \<and> uncertainty_ns sample \<le> maximumUncertaintyNs s \<and>
      s' = (tally accepted_transitions_update s)\<lparr> lastObservation := Some obs \<rparr>)"
  (is "?L \<longleftrightarrow> ?R")
proof
  assume ?L
  then show ?R
    by (auto simp: judge_observation_def Let_def stateTimeNs_def state_ns_def split: option.splits if_splits)
next
  assume ?R
  then obtain prev where p: "valid obs" "lastObservation s = Some prev"
      "transition_problem (obs_state prev) (obs_state obs) = None"
      "sample = transition_sample prev obs (state_ns (obs_state obs))"
      "0 \<le> transition_width prev obs" "uncertainty_ns sample \<le> maximumUncertaintyNs s"
      "s' = (tally accepted_transitions_update s)\<lparr> lastObservation := Some obs \<rparr>"
    by auto
  from p(3) have "\<not> state_eq (obs_state obs) (obs_state prev)"
    "stateTimeNs (obs_state obs) = Some (state_ns (obs_state obs))"
    by (auto simp: transition_problem_None state_eq_iff stateTimeNs_def state_ns_def)
  with p show ?L by (simp add: judge_observation_def Let_def not_less)
qed

text \<open>The observation a poll judges, with its bounds filled in.\<close>

definition bounded :: "HostClockBounds \<Rightarrow> MacStateObservation \<Rightarrow> MacStateObservation" where
  "bounded b ob = ob\<lparr> obs_bounds := b,
     read_latency_ns := s64 (monotonic_after_ns b - monotonic_before_ns b) \<rparr>"

lemma bounded_simps [simp]:
  "obs_state (bounded b ob) = obs_state ob" "obs_bounds (bounded b ob) = b"
  "valid (bounded b ob) = valid ob"
  "read_latency_ns (bounded b ob) = s64 (monotonic_after_ns b - monotonic_before_ns b)"
  by (simp_all add: bounded_def)

lemma settle_Some:
  assumes "settle b ob s = (Some sample, s')"
  shows "\<exists>prev. valid ob \<and> lastObservation s = Some prev \<and> lastObservation s' = Some (bounded b ob) \<and>
    transition_problem (obs_state prev) (obs_state ob) = None \<and>
    sample = transition_sample prev (bounded b ob) (state_ns (obs_state ob)) \<and>
    0 \<le> transition_width prev (bounded b ob) \<and> uncertainty_ns sample \<le> maximumUncertaintyNs s \<and>
    realtime_before_ns b \<le> realtime_after_ns b \<and> monotonic_before_ns b \<le> monotonic_after_ns b"
  using assms
  by (auto simp: settle_def Let_def judge_Some_iff check_host_step_def sampler_reset_def
      simp flip: bounded_def split: if_splits)

text \<open>The four clock readings and the observation of a poll that returns.\<close>

lemma poll_cases:
  assumes "poll src s r w = (Inr (sample, s', r'), w')"
  obtains rb mb ma ra ob w1 w2 w3 w4 where
    "src_realtime src w = (Inr rb, w1)" "src_monotonic src w1 = (Inr mb, w2)"
    "src_read src r w2 = (ob, r', w3)"
    "src_monotonic src w3 = (Inr ma, w4)" "src_realtime src w4 = (Inr ra, w')"
    "settle \<lparr> realtime_before_ns = rb, realtime_after_ns = ra, monotonic_before_ns = mb,
       monotonic_after_ns = ma \<rparr> ob (tally observations_update s) = (sample, s')"
  using assms unfolding poll_def Let_def and_then_Inr_iff
  by (force simp: and_then_def split: prod.splits sum.splits)

subsection \<open>Ranges\<close>

text \<open>
  Host clocks that read between 0 and \<open>2 ^ 62\<close> nanoseconds (146 years) never make the arithmetic of a
  poll wrap around.
\<close>

definition clock_value :: "i64 \<Rightarrow> bool" where
  "clock_value v \<longleftrightarrow> 0 \<le> v \<and> v < 2 ^ 62"

definition clock_range :: "('r, 'w) clock_source \<Rightarrow> bool" where
  "clock_range src \<longleftrightarrow> (\<forall>w v w'. src_realtime src w = (Inr v, w') \<or> src_monotonic src w = (Inr v, w')
     \<longrightarrow> clock_value v)"

definition bounds_ok :: "HostClockBounds \<Rightarrow> bool" where
  "bounds_ok b \<longleftrightarrow> clock_value (realtime_before_ns b) \<and> clock_value (realtime_after_ns b) \<and>
     clock_value (monotonic_before_ns b) \<and> clock_value (monotonic_after_ns b) \<and>
     realtime_before_ns b \<le> realtime_after_ns b \<and> monotonic_before_ns b \<le> monotonic_after_ns b"

definition sampler_inv :: "ClockSampler \<Rightarrow> bool" where
  "sampler_inv s \<longleftrightarrow> (\<forall>ob. lastObservation s = Some ob \<longrightarrow> valid ob \<and> bounds_ok (obs_bounds ob))"

lemma clock_diff [i64_simps]:
  "clock_value a \<Longrightarrow> clock_value b \<Longrightarrow> in_i64 (a - b)" "clock_value a \<Longrightarrow> in_i64 a"
  "clock_value a \<Longrightarrow> clock_value b \<Longrightarrow> s64 (a - b) = a - b"
  by (auto simp: clock_value_def in_i64_numeric intro!: s64_id)

lemma sampler_inv_new: "sampler_inv (new_ClockSampler u)"
  by (simp add: sampler_inv_def new_ClockSampler_def)

lemma judge_last:
  assumes "judge_observation ob s = (x, s')"
  shows "lastObservation s' = (if valid ob then Some ob else lastObservation s)"
  using assms by (auto simp: judge_observation_def Let_def split: option.splits if_splits)

lemma settle_last:
  assumes "settle b ob s = (x, s')" "lastObservation s' = Some ob'"
  shows "lastObservation s = Some ob' \<or> ob' = bounded b ob \<and> valid ob \<and>
    realtime_before_ns b \<le> realtime_after_ns b \<and> monotonic_before_ns b \<le> monotonic_after_ns b"
  using assms
  by (auto simp: settle_def Let_def check_host_step_def sampler_reset_def simp flip: bounded_def
      dest!: judge_last split: if_splits)

lemma poll_clock_values:
  assumes "clock_range src" "poll src s r w = (Inr (sample, s', r'), w')"
  obtains b ob w1 w2 where "settle b ob (tally observations_update s) = (sample, s')"
    "src_read src r w1 = (ob, r', w2)"
    "clock_value (realtime_before_ns b)" "clock_value (realtime_after_ns b)"
    "clock_value (monotonic_before_ns b)" "clock_value (monotonic_after_ns b)"
  using assms(2)
proof (cases rule: poll_cases)
  case (1 rb mb ma ra ob w1 w2 w3 w4)
  with assms(1) have "clock_value rb" "clock_value mb" "clock_value ma" "clock_value ra"
    unfolding clock_range_def by blast+
  with 1 show ?thesis by (intro that) auto
qed

text \<open>
  The observation the sampler remembers is a valid one whose clock bounds are in order,
  through every poll.
\<close>

theorem poll_sampler_inv:
  assumes "clock_range src" "sampler_inv s" "poll src s r w = (Inr (sample, s', r'), w')"
  shows "sampler_inv s'"
proof -
  obtain b ob w1 w2 where st: "settle b ob (tally observations_update s) = (sample, s')"
    and cv: "clock_value (realtime_before_ns b)" "clock_value (realtime_after_ns b)"
      "clock_value (monotonic_before_ns b)" "clock_value (monotonic_after_ns b)"
    by (rule poll_clock_values [OF assms(1,3)])
  show ?thesis
    using assms(2) settle_last [OF st] cv by (auto simp: sampler_inv_def bounds_ok_def)
qed

lemma poll_sample_spec:
  assumes "poll src s r w = (Inr (Some sample, s', r'), w')"
  shows "\<exists>prev ob. lastObservation s = Some prev \<and> lastObservation s' = Some ob \<and> valid ob \<and>
    conv_mult (obs_state ob) = conv_mult (obs_state prev) \<and>
    conv_rshift (obs_state ob) = conv_rshift (obs_state prev) \<and>
    state_ns (obs_state prev) < smartnic_ns sample \<and> smartnic_ns sample = state_ns (obs_state ob) \<and>
    ps_me_time sample = me_time (obs_state ob) \<and> uncertainty_ns sample \<le> maximumUncertaintyNs s"
  using assms
proof (cases rule: poll_cases)
  case (1 rb mb ma ra ob w1 w2 w3 w4)
  let ?b = "\<lparr> realtime_before_ns = rb, realtime_after_ns = ra, monotonic_before_ns = mb,
    monotonic_after_ns = ma \<rparr>"
  from settle_Some [OF 1(6)] obtain prev where "lastObservation s = Some prev"
      "lastObservation s' = Some (bounded ?b ob)" "valid ob"
      "transition_problem (obs_state prev) (obs_state ob) = None"
      "sample = transition_sample prev (bounded ?b ob) (state_ns (obs_state ob))"
      "uncertainty_ns sample \<le> maximumUncertaintyNs s"
    by auto
  then show ?thesis
    by (intro exI [of _ prev] exI [of _ "bounded ?b ob"])
      (simp add: transition_problem_None transition_sample_def Let_def)
qed

text \<open>
  C24 (functional). A poll that returns a sample has seen the exported clock advance: the remembered
  observation and the new one are both valid, have the same conversion, and the sample carries the new
  time, which is strictly later, and the new ME time; the sampler then remembers the new observation.
\<close>

theorem poll_sample_sound:
  assumes "poll src s r w = (Inr (Some sample, s', r'), w')"
  shows "\<exists>prev ob. lastObservation s = Some prev \<and> lastObservation s' = Some ob \<and> valid ob \<and>
    conv_mult (obs_state ob) = conv_mult (obs_state prev) \<and>
    conv_rshift (obs_state ob) = conv_rshift (obs_state prev) \<and>
    state_ns (obs_state prev) < smartnic_ns sample \<and> smartnic_ns sample = state_ns (obs_state ob) \<and>
    ps_me_time sample = me_time (obs_state ob) \<and> uncertainty_ns sample \<le> maximumUncertaintyNs s"
  by (rule poll_sample_spec [OF assms])

text \<open>
  C23 (bounds). With host clocks in range, the host instant a sample assigns to the transition lies
  inside the interval in which the transition was seen, and the uncertainty is at least the width of
  that interval and within the configured limit, so the true instant is never further away.
\<close>

theorem poll_sample_bounds:
  assumes "clock_range src" "sampler_inv s" "poll src s r w = (Inr (Some sample, s', r'), w')"
  shows "transition_start_mono_ns sample \<le> host_monotonic_ns sample \<and>
    host_monotonic_ns sample \<le> transition_end_mono_ns sample \<and>
    transition_end_mono_ns sample - transition_start_mono_ns sample \<le> uncertainty_ns sample \<and>
    uncertainty_ns sample \<le> maximumUncertaintyNs s \<and>
    0 \<le> host_realtime_ns sample"
proof -
  obtain b ob w1 w2 where st: "settle b ob (tally observations_update s) = (Some sample, s')"
    and cv: "clock_value (realtime_before_ns b)" "clock_value (realtime_after_ns b)"
      "clock_value (monotonic_before_ns b)" "clock_value (monotonic_after_ns b)"
    by (rule poll_clock_values [OF assms(1,3)])
  from settle_Some [OF st] obtain prev where prev: "lastObservation s = Some prev"
    and smp: "sample = transition_sample prev (bounded b ob) (state_ns (obs_state ob))"
    and wd: "0 \<le> transition_width prev (bounded b ob)"
    and un: "uncertainty_ns sample \<le> maximumUncertaintyNs s"
    and ord: "monotonic_before_ns b \<le> monotonic_after_ns b"
    by auto
  define st0 where "st0 = monotonic_after_ns (obs_bounds prev)"
  define rt0 where "rt0 = realtime_after_ns (obs_bounds prev)"
  have cp: "clock_value st0" "clock_value rt0"
    using assms(2) prev by (auto simp: sampler_inv_def bounds_ok_def st0_def rt0_def)
  have width: "st0 \<le> monotonic_after_ns b"
    using wd cp cv by (simp add: transition_width_def st0_def [symmetric] clock_diff)
  have mid: "st0 \<le> midpoint st0 (monotonic_after_ns b)" "midpoint st0 (monotonic_after_ns b) \<le> monotonic_after_ns b"
    using midpoint_exact(2,3) [of st0 "monotonic_after_ns b"] width cp cv
    by (simp_all add: clock_diff min_def max_def)
  have rmid: "0 \<le> midpoint rt0 (realtime_after_ns b)"
    using midpoint_exact(2) [of rt0 "realtime_after_ns b"] cp cv
    by (auto simp: clock_diff clock_value_def min_def split: if_splits)
  have u: "uncertainty_ns sample = (monotonic_after_ns b - st0) + (monotonic_after_ns b - monotonic_before_ns b)"
    using cp cv by (simp add: smp transition_sample_def Let_def st0_def [symmetric] clock_diff)
      (auto simp: clock_value_def in_i64_numeric intro!: s64_id)
  show ?thesis
    using mid rmid u un width ord
    by (simp add: smp transition_sample_def Let_def st0_def [symmetric] rt0_def [symmetric])
qed

subsection \<open>Counters\<close>

definition outcomes :: "ClockSamplerCounters \<Rightarrow> nat" where
  "outcomes c = accepted_transitions c + duplicate_states c + invalid_observations c + rejected_transitions c"

definition counters_inv :: "ClockSamplerCounters \<Rightarrow> bool" where
  "counters_inv c \<longleftrightarrow> outcomes c \<le> observations c \<and> device_resets c \<le> rejected_transitions c \<and>
     host_clock_steps c \<le> observations c"

lemma judge_counters:
  assumes "judge_observation ob s = (x, s')"
  shows "observations (sampler_counters s') = observations (sampler_counters s) \<and>
    host_clock_steps (sampler_counters s') = host_clock_steps (sampler_counters s) \<and>
    outcomes (sampler_counters s') \<le> Suc (outcomes (sampler_counters s)) \<and>
    accepted_transitions (sampler_counters s') =
      accepted_transitions (sampler_counters s) + of_bool (x \<noteq> None) \<and>
    device_resets (sampler_counters s') + rejected_transitions (sampler_counters s)
      \<le> device_resets (sampler_counters s) + rejected_transitions (sampler_counters s')"
  using assms
  by (auto simp: judge_observation_def Let_def outcomes_def split: option.splits if_splits)

lemma settle_counters:
  assumes "settle b ob s = (x, s')"
  shows "observations (sampler_counters s') = observations (sampler_counters s) \<and>
    host_clock_steps (sampler_counters s') \<le> Suc (host_clock_steps (sampler_counters s)) \<and>
    outcomes (sampler_counters s') \<le> Suc (outcomes (sampler_counters s)) \<and>
    accepted_transitions (sampler_counters s') =
      accepted_transitions (sampler_counters s) + of_bool (x \<noteq> None) \<and>
    device_resets (sampler_counters s') + rejected_transitions (sampler_counters s)
      \<le> device_resets (sampler_counters s) + rejected_transitions (sampler_counters s')"
  using assms
  by (auto simp: settle_def Let_def check_host_step_def sampler_reset_def outcomes_def
      dest!: judge_counters split: if_splits)

text \<open>
  Every poll counts one observation and at most one outcome; a sample is returned
  exactly when an accepted transition is counted, and a device reset is always also a rejection.
\<close>

theorem poll_counters:
  assumes "counters_inv (sampler_counters s)" "poll src s r w = (Inr (x, s', r'), w')"
  shows "counters_inv (sampler_counters s') \<and>
    observations (sampler_counters s') = Suc (observations (sampler_counters s)) \<and>
    accepted_transitions (sampler_counters s') =
      accepted_transitions (sampler_counters s) + of_bool (x \<noteq> None)"
  using assms(2)
proof (cases rule: poll_cases)
  case (1 rb mb ma ra ob w1 w2 w3 w4)
  from settle_counters [OF 1(6)] assms(1) show ?thesis
    by (auto simp: counters_inv_def outcomes_def)
qed

subsection \<open>Through the clock state reader\<close>

text \<open>The time of the remembered observation never exceeds the time the reader remembers.\<close>

definition linked :: "('r \<Rightarrow> i64 option) \<Rightarrow> ClockSampler \<Rightarrow> 'r \<Rightarrow> bool" where
  "linked last_ns s r \<longleftrightarrow> (\<forall>ob. lastObservation s = Some ob \<longrightarrow>
     nanos_valid (mac_time_ns (obs_state ob)) \<and>
     (\<exists>t. last_ns r = Some t \<and> state_ns (obs_state ob) \<le> t))"

context clock_state_reader
begin

lemma linked_settle:
  assumes rd: "read r w = (ob, r', w')" and l: "linked last_ns s r" and st: "settle b ob s = (x, s')"
  shows "linked last_ns s' r'"
proof -
  have keep: "linked last_ns s r'"
  proof (cases "valid ob")
    case True
    from l read_valid [OF rd True] show ?thesis by (fastforce simp: linked_def)
  next
    case False
    from l read_invalid [OF rd False] show ?thesis by (simp add: linked_def)
  qed
  show ?thesis
    unfolding linked_def
  proof (intro allI impI)
    fix ob'
    assume "lastObservation s' = Some ob'"
    from settle_last [OF st this] show "nanos_valid (mac_time_ns (obs_state ob')) \<and>
        (\<exists>t. last_ns r' = Some t \<and> state_ns (obs_state ob') \<le> t)"
      using keep read_valid [OF rd] by (auto simp: linked_def)
  qed
qed

lemma linked_transition:
  assumes rd: "read r w = (ob, r', w')" and l: "linked last_ns s r" "lastObservation s = Some prev" "valid ob"
    and pr: "transition_problem (obs_state prev) (obs_state ob) \<noteq> None"
  shows "conv_mult (obs_state ob) \<noteq> conv_mult (obs_state prev) \<or>
    conv_rshift (obs_state ob) \<noteq> conv_rshift (obs_state prev) \<or>
    state_ns (obs_state ob) = state_ns (obs_state prev)"
proof -
  obtain t where t: "last_ns r = Some t" "state_ns (obs_state prev) \<le> t"
      and nv: "nanos_valid (mac_time_ns (obs_state prev))"
    using l(1,2) by (auto simp: linked_def)
  note v = read_valid [OF rd l(3)]
  with t have "state_ns (obs_state prev) \<le> state_ns (obs_state ob)" by force
  with pr v nv show ?thesis by (auto simp: transition_problem_None)
qed

end

lemma judge_reset_cause:
  assumes "judge_observation ob s = (x, s')"
    "device_resets (sampler_counters s') \<noteq> device_resets (sampler_counters s)"
  shows "\<exists>prev. valid ob \<and> lastObservation s = Some prev \<and>
    transition_problem (obs_state prev) (obs_state ob) \<noteq> None"
  using assms by (auto simp: judge_observation_def Let_def split: option.splits if_splits)

lemma settle_reset_cause:
  assumes "settle b ob s = (x, s')"
    "device_resets (sampler_counters s') \<noteq> device_resets (sampler_counters s)"
  shows "\<exists>prev. valid ob \<and> lastObservation s = Some prev \<and>
    transition_problem (obs_state prev) (obs_state ob) \<noteq> None"
  using assms
  by (auto simp: settle_def Let_def check_host_step_def sampler_reset_def simp flip: bounded_def
      dest!: judge_reset_cause split: if_splits)

lemma linked_observed [simp]: "linked last_ns (tally f s) r = linked last_ns s r"
  by (simp add: linked_def)

text \<open>
  On top of the program's own reader, a device reset is counted only for a changed
  conversion or an unchanged time with a different ME time. A clock that runs backwards never reaches
  the sampler, because the reader rejects it first: the reset the sampler's rollback check looks for is
  not one it can see.
\<close>

theorem mac_device_reset_causes:
  assumes "src_read src = readState api" "linked reader_last s r"
    and "poll src s r w = (Inr (x, s', r'), w')"
  shows "linked reader_last s' r' \<and>
    (device_resets (sampler_counters s') \<noteq> device_resets (sampler_counters s) \<longrightarrow>
      (\<exists>prev ob. lastObservation s = Some prev \<and> lastObservation s' = Some ob \<and>
        (conv_mult (obs_state ob) \<noteq> conv_mult (obs_state prev) \<or>
         conv_rshift (obs_state ob) \<noteq> conv_rshift (obs_state prev) \<or>
         state_ns (obs_state ob) = state_ns (obs_state prev))))"
  using assms(3)
proof (cases rule: poll_cases)
  case (1 rb mb ma ra ob w1 w2 w3 w4)
  let ?s = "tally observations_update s"
  have rd: "readState api r w2 = (ob, r', w3)" using 1(3) assms(1) by simp
  have l: "linked reader_last ?s r" using assms(2) by simp
  have "linked reader_last s' r'" by (rule mac.linked_settle [OF rd l 1(6)])
  moreover have "\<exists>prev ob. lastObservation s = Some prev \<and> lastObservation s' = Some ob \<and>
        (conv_mult (obs_state ob) \<noteq> conv_mult (obs_state prev) \<or>
         conv_rshift (obs_state ob) \<noteq> conv_rshift (obs_state prev) \<or>
         state_ns (obs_state ob) = state_ns (obs_state prev))"
    if dr: "device_resets (sampler_counters s') \<noteq> device_resets (sampler_counters s)"
  proof -
    obtain prev where prev: "valid ob" "lastObservation s = Some prev"
        "transition_problem (obs_state prev) (obs_state ob) \<noteq> None"
      using settle_reset_cause [OF 1(6)] dr by auto
    have last: "\<exists>ob'. lastObservation s' = Some ob' \<and> obs_state ob' = obs_state ob"
      using 1(6) prev(1) dr
      by (auto simp: settle_def Let_def check_host_step_def sampler_reset_def dest!: judge_last split: if_splits)
    with mac.linked_transition [OF rd assms(2) prev(2,1,3)] prev(2) show ?thesis by metis
  qed
  ultimately show ?thesis by blast
qed

subsection \<open>Scripted sources\<close>

text \<open>
  The fakes of \<^verbatim>\<open>test/clock_sampler_test.cpp\<close>: a reader that returns a list of states one by one, and
  clocks that return lists of readings and throw when these are used up.
\<close>

type_synonym script = "i64 list \<times> i64 list"

definition fake_read ::
  "MacTimeStateHost list \<Rightarrow> script \<Rightarrow> MacStateObservation \<times> MacTimeStateHost list \<times> script" where
  "fake_read states w = (case states of
     [] \<Rightarrow> (zero_observation\<lparr> valid := False, reject_reason := ''empty'' \<rparr>, [], w)
   | st # rest \<Rightarrow> (zero_observation\<lparr> obs_state := st, valid := True \<rparr>, rest, w))"

definition fake_realtime :: "script \<Rightarrow> i64 outcome \<times> script" where
  "fake_realtime w = (case w of
     ([], ms) \<Rightarrow> (Inl (runtime_error ''fake clock exhausted''), ([], ms))
   | (t # ts, ms) \<Rightarrow> (Inr t, (ts, ms)))"

definition fake_monotonic :: "script \<Rightarrow> i64 outcome \<times> script" where
  "fake_monotonic w = (case w of
     (ts, []) \<Rightarrow> (Inl (runtime_error ''fake clock exhausted''), (ts, []))
   | (ts, m # ms) \<Rightarrow> (Inr m, (ts, ms)))"

definition fake_source :: "(MacTimeStateHost list, script) clock_source" where
  "fake_source = \<lparr> src_read = fake_read, src_realtime = fake_realtime, src_monotonic = fake_monotonic \<rparr>"

text \<open>The test's helper \<^verbatim>\<open>state\<close>.\<close>

definition test_state :: "u32 \<Rightarrow> u32 \<Rightarrow> MacTimeStateHost" where
  "test_state seconds nanoseconds = \<lparr> mac_time_s = seconds, mac_time_ns = nanoseconds,
     me_time = seconds * 1000 + nanoseconds div 1000000, conv_mult = 16, conv_rshift = 0 \<rparr>"

fun polls :: "('r, 'w) clock_source \<Rightarrow> nat \<Rightarrow> ClockSampler \<Rightarrow> 'r \<Rightarrow> 'w \<Rightarrow>
    (PublicationSample option list \<times> ClockSampler \<times> 'r) outcome \<times> 'w" where
  "polls src 0 s r w = (Inr ([], s, r), w)"
| "polls src (Suc n) s r w = and_then (poll src s r w) (\<lambda>(x, s, r) w.
     and_then (polls src n s r w) (\<lambda>(xs, s, r) w. (Inr (x # xs, s, r), w)))"

text \<open>
  The three scenarios of the test program, with the results the tests require.
\<close>

lemma duplicate_states_do_not_emit:
  "(case polls fake_source 3 (new_ClockSampler 10000)
      [test_state 10 0, test_state 10 0, test_state 10 0]
      ([1000, 1100, 2000, 2100, 3000, 3100], [500, 600, 1500, 1600, 2500, 2600]) of
    (Inr (xs, s, _), _) \<Rightarrow> xs = [None, None, None] \<and> duplicate_states (sampler_counters s) = 2 \<and>
      accepted_transitions (sampler_counters s) = 0 | _ \<Rightarrow> False)"
  by code_simp

lemma transition_interval_sample:
  "(case polls fake_source 3 (new_ClockSampler 10000)
      [test_state 10 0, test_state 10 0, test_state 10 1000]
      ([1000, 1100, 2000, 2100, 3000, 3100], [500, 600, 1500, 1600, 2500, 2600]) of
    (Inr ([None, None, Some x], _, _), _) \<Rightarrow> smartnic_ns x = 10 * kNanosecondsPerSecond + 1000 \<and>
      host_realtime_ns x = 2600 \<and> host_monotonic_ns x = 2100 \<and> uncertainty_ns x = 1100 | _ \<Rightarrow> False)"
  by code_simp

lemma rollback_is_rejected_as_reset:
  "(case polls fake_source 2 (new_ClockSampler 10000)
      [test_state 10 1000, test_state 9 999999999] ([1000, 1100, 2000, 2100], [500, 600, 1500, 1600]) of
    (Inr ([None, None], s, _), _) \<Rightarrow> device_resets (sampler_counters s) = 1 \<and>
      rejected_transitions (sampler_counters s) = 1 | _ \<Rightarrow> False)"
  by code_simp

text \<open>A source whose clocks always read the same values, and one poll that returns a sample.\<close>

definition seen :: MacStateObservation where
  "seen = \<lparr> obs_state = test_state 10 0, obs_bounds = \<lparr> realtime_before_ns = 1000, realtime_after_ns = 1000,
     monotonic_before_ns = 500, monotonic_after_ns = 500 \<rparr>, read_latency_ns = 0, valid = True,
     reject_reason = [] \<rparr>"

definition warm_sampler :: ClockSampler where
  "warm_sampler = (new_ClockSampler 10000)\<lparr> lastObservation := Some seen,
     previousRealtimeMidpointNs := 1000, previousMonotonicMidpointNs := 500 \<rparr>"

definition steady_source :: "(MacTimeStateHost list, script) clock_source" where
  "steady_source = \<lparr> src_read = fake_read, src_realtime = (\<lambda>w. (Inr 1600, w)),
     src_monotonic = (\<lambda>w. (Inr 1100, w)) \<rparr>"

definition poll_sample :: "PublicationSample" where
  "poll_sample = \<lparr> smartnic_ns = 10000001000, host_realtime_ns = 1300, host_monotonic_ns = 800,
     uncertainty_ns = 600, transition_start_mono_ns = 500, transition_end_mono_ns = 1100,
     ps_me_time = 10000, ps_conv_mult = 16, ps_conv_rshift = 0 \<rparr>"

definition polled_sampler :: ClockSampler where
  "polled_sampler = (case poll steady_source warm_sampler [test_state 10 1000] ([], []) of
     (Inr (_, s, _), _) \<Rightarrow> s | _ \<Rightarrow> warm_sampler)"

lemma steady_poll:
  "poll steady_source warm_sampler [test_state 10 1000] ([], []) =
    (Inr (Some poll_sample, polled_sampler, []), ([], []))"
  by code_simp

lemma warm_inv: "clock_range steady_source" "sampler_inv warm_sampler"
  by (simp_all add: clock_range_def clock_value_def steady_source_def sampler_inv_def warm_sampler_def
      seen_def bounds_ok_def)


theorem poll_sampler_inv_witness: "sampler_inv polled_sampler"
  by (rule poll_sampler_inv [OF warm_inv steady_poll])

theorem poll_sample_sound_witness:
  "\<exists>prev ob. lastObservation warm_sampler = Some prev \<and> lastObservation polled_sampler = Some ob \<and>
    state_ns (obs_state prev) < smartnic_ns poll_sample \<and> smartnic_ns poll_sample = state_ns (obs_state ob)"
  using poll_sample_sound [OF steady_poll] by blast

theorem poll_sample_bounds_witness:
  "(500::int) \<le> 800 \<and> transition_end_mono_ns poll_sample - transition_start_mono_ns poll_sample
    \<le> uncertainty_ns poll_sample"
  using poll_sample_bounds [OF warm_inv steady_poll] by simp

theorem poll_counters_witness:
  "observations (sampler_counters polled_sampler) = 1 \<and> accepted_transitions (sampler_counters polled_sampler) = 1"
  using poll_counters [OF _ steady_poll]
  by (simp add: warm_sampler_def new_ClockSampler_def zero_counters_def counters_inv_def outcomes_def)

text \<open>A device whose conversion changed between two polls: counted as a reset.\<close>

definition mac_source :: "(MacClockReader, mem_world) clock_source" where
  "mac_source = \<lparr> src_read = readState mem_api, src_realtime = (\<lambda>w. (Inr 1600, w)),
     src_monotonic = (\<lambda>w. (Inr 1100, w)) \<rparr>"

definition changed_world :: mem_world where
  "changed_world = mem_at [(4, 4096, packed_bytes \<lparr> mac_time_s = 100, mac_time_ns = 500, me_time = 9,
     conv_mult = 17, conv_rshift = 3 \<rparr>)]"

definition linked_sampler :: ClockSampler where
  "linked_sampler = (new_ClockSampler 10000)\<lparr>
     lastObservation := Some (seen\<lparr> obs_state := lastState restarted_reader \<rparr>) \<rparr>"

theorem mac_device_reset_causes_witness:
  "\<exists>s' r' w'. poll mac_source linked_sampler restarted_reader changed_world = (Inr (None, s', r'), w') \<and>
    device_resets (sampler_counters s') = 1 \<and> linked reader_last s' r'"
proof -
  have run: "(case poll mac_source linked_sampler restarted_reader changed_world of
      (Inr (x, s', r'), w') \<Rightarrow> x = None \<and> device_resets (sampler_counters s') = 1 | _ \<Rightarrow> False)"
    by code_simp
  then obtain s' r' w' where p: "poll mac_source linked_sampler restarted_reader changed_world = (Inr (None, s', r'), w')"
    and d: "device_resets (sampler_counters s') = 1"
    by (auto split: prod.splits sum.splits)
  have "linked reader_last linked_sampler restarted_reader"
    by (simp add: linked_def linked_sampler_def restarted_reader_def reader_last_def seen_def nanos_valid_def
        kNanosecondsPerSecond_def)
  with mac_device_reset_causes [OF _ _ p] d p show ?thesis by (auto simp: mac_source_def)
qed

end
