(* ===== verification/Float_Model.thy ===== *)
theory Float_Model
  imports Prelude
begin

text \<open>
  The floating-point arithmetic of the clock model. \<^verbatim>\<open>double\<close> and \<^verbatim>\<open>long double\<close> values are rationals;
  an operation computes the exact result and rounds it to the nearest value with 53 (binary64) or 64
  (x87 extended, the \<^verbatim>\<open>long double\<close> of x86-64 hosts) significant bits, ties to even. The values the
  code computes stay far away from the ends of the exponent range, so the exponent is unbounded here,
  except that a \<^verbatim>\<open>double\<close> of magnitude \<open>2 ^ 1024\<close> or more counts as not finite.
\<close>

subsection \<open>Powers of two and binary exponents\<close>

definition pow2 :: "int \<Rightarrow> rat" where
  "pow2 e = (if 0 \<le> e then of_int (2 ^ nat e) else 1 / of_int (2 ^ nat (- e)))"

function int_log2 :: "int \<Rightarrow> int" where
  "int_log2 n = (if n \<le> 1 then 0 else 1 + int_log2 (n div 2))"
  by pat_completeness auto
termination
  by (relation "measure nat") auto

declare int_log2.simps [simp del]

text \<open>The exponent of the leading bit of a positive rational.\<close>

definition ilog2 :: "rat \<Rightarrow> int" where
  "ilog2 x = (case quotient_of x of (a, b) \<Rightarrow>
     let k = int_log2 a - int_log2 b in if pow2 k \<le> x then k else k - 1)"

lemma pow2_powi: "pow2 e = 2 powi e"
  by (simp add: pow2_def power_int_def power_inverse field_simps)

lemma pow2_pos [simp]: "0 < pow2 e"
  by (simp add: pow2_powi)

lemma pow2_neq_0 [simp]: "pow2 e \<noteq> 0"
  by (simp add: pow2_powi)

lemma pow2_add: "pow2 (a + b) = pow2 a * pow2 b"
  by (simp add: pow2_powi power_int_add)

lemma pow2_diff: "pow2 (a - b) = pow2 a / pow2 b"
  by (simp add: pow2_powi power_int_diff)

lemma pow2_0 [simp]: "pow2 0 = 1"
  by (simp add: pow2_def)

lemma pow2_1: "pow2 1 = 2"
  by (simp add: pow2_def)

lemma pow2_nat: "pow2 (int n) = 2 ^ n"
  by (simp add: pow2_def)

lemma pow2_mono: "a \<le> b \<Longrightarrow> pow2 a \<le> pow2 b"
  by (simp add: pow2_powi power_int_increasing)

lemma pow2_strict_mono: "a < b \<Longrightarrow> pow2 a < pow2 b"
  by (simp add: pow2_powi power_int_strict_increasing)

lemma pow2_less_iff: "pow2 a < pow2 b \<longleftrightarrow> a < b"
  by (metis linorder_not_less pow2_mono pow2_strict_mono)

lemma int_log2_nonneg: "0 \<le> int_log2 n"
  by (induction n rule: int_log2.induct) (subst int_log2.simps, auto)

lemma int_log2_bounds:
  "0 < n \<Longrightarrow> 2 ^ nat (int_log2 n) \<le> n \<and> n < 2 * 2 ^ nat (int_log2 n)"
proof (induction n rule: int_log2.induct)
  case (1 n)
  show ?case
  proof (cases "n \<le> 1")
    case True
    with 1 show ?thesis by (simp add: int_log2.simps [of n])
  next
    case False
    with 1 have IH: "2 ^ nat (int_log2 (n div 2)) \<le> n div 2"
        "n div 2 < 2 * 2 ^ nat (int_log2 (n div 2))"
      by auto
    have "nat (1 + int_log2 (n div 2)) = Suc (nat (int_log2 (n div 2)))"
      using int_log2_nonneg [of "n div 2"] by simp
    with False have "int_log2 n = 1 + int_log2 (n div 2)"
        "2 ^ nat (1 + int_log2 (n div 2)) = (2::int) * 2 ^ nat (int_log2 (n div 2))"
      by (simp_all add: int_log2.simps [of n])
    with IH show ?thesis by (simp del: power_Suc) linarith
  qed
qed

lemma int_log2_pow2:
  assumes "0 < n"
  shows "pow2 (int_log2 n) \<le> of_int n" "of_int n < pow2 (int_log2 n + 1)"
proof -
  have p: "pow2 (int_log2 n) = of_int (2 ^ nat (int_log2 n))"
    by (simp add: pow2_def int_log2_nonneg)
  show "pow2 (int_log2 n) \<le> of_int n"
    unfolding p using int_log2_bounds [OF assms] by (simp only: of_int_le_iff)
  have "of_int n < (of_int (2 * 2 ^ nat (int_log2 n)) :: rat)"
    using int_log2_bounds [OF assms] by (simp only: of_int_less_iff)
  then show "of_int n < pow2 (int_log2 n + 1)"
    by (simp add: pow2_add pow2_1 p)
qed

lemma ilog2_bounds:
  assumes "0 < x"
  shows "pow2 (ilog2 x) \<le> x" "x < pow2 (ilog2 x + 1)"
proof -
  obtain a b where q: "quotient_of x = (a, b)" by (cases "quotient_of x")
  have b: "0 < b" using quotient_of_denom_pos [OF q] .
  have x: "x = of_int a / of_int b" using quotient_of_div [OF q] .
  with assms b have a: "0 < a" by (simp add: zero_less_divide_iff)
  define k where "k = int_log2 a - int_log2 b"
  have "x < pow2 (int_log2 a + 1) / pow2 (int_log2 b)"
    unfolding x using int_log2_pow2 [OF a] int_log2_pow2 [OF b] a b
    by (intro frac_less) auto
  then have up: "x < pow2 (k + 1)"
    by (simp add: k_def pow2_add pow2_diff)
  have "pow2 (int_log2 a) / pow2 (int_log2 b + 1) \<le> x"
    unfolding x using int_log2_pow2 [OF a] int_log2_pow2 [OF b] a b
    by (intro frac_le) auto
  then have lo: "pow2 (k - 1) \<le> x"
    by (simp add: k_def pow2_add pow2_diff pow2_1)
  have l: "ilog2 x = (if pow2 k \<le> x then k else k - 1)"
    by (simp add: ilog2_def q k_def)
  show "pow2 (ilog2 x) \<le> x" "x < pow2 (ilog2 x + 1)"
    using up lo by (auto simp: l)
qed

lemma ilog2_unique:
  assumes "pow2 e \<le> x" "x < pow2 (e + 1)"
  shows "ilog2 x = e"
proof -
  have "0 < x" using assms(1) pow2_pos [of e] by linarith
  note b = ilog2_bounds [OF this]
  have "pow2 e < pow2 (ilog2 x + 1)" "pow2 (ilog2 x) < pow2 (e + 1)"
    using assms b by linarith+
  then show ?thesis by (simp add: pow2_less_iff)
qed

lemma ilog2_mono: "0 < x \<Longrightarrow> x \<le> y \<Longrightarrow> ilog2 x \<le> ilog2 y"
proof -
  assume x: "0 < x" and y: "x \<le> y"
  have "pow2 (ilog2 x) < pow2 (ilog2 y + 1)"
    using ilog2_bounds(1) [OF x] ilog2_bounds(2) [of y] x y by linarith
  then show ?thesis by (simp add: pow2_less_iff)
qed

subsection \<open>Rounding to the nearest integer\<close>

definition round_half_even :: "rat \<Rightarrow> int" where
  "round_half_even x = (let f = \<lfloor>x\<rfloor>; d = x - of_int f in
     if d < 1 / 2 then f else if 1 / 2 < d then f + 1 else if even f then f else f + 1)"

text \<open>\<^verbatim>\<open>std::llround\<close>: halfway cases away from zero; the value of the x86-64 conversion out of range.\<close>

definition round_half_away :: "rat \<Rightarrow> int" where
  "round_half_away x = (if 0 \<le> x then \<lfloor>x + 1 / 2\<rfloor> else - \<lfloor>1 / 2 - x\<rfloor>)"

definition llround :: "rat \<Rightarrow> i64" where
  "llround x = (let r = round_half_away x in if in_i64 r then r else i64_min)"

lemma round_half_even_of_int [simp]: "round_half_even (of_int n) = n"
  by (simp add: round_half_even_def)

lemma round_half_even_error: "\<bar>of_int (round_half_even x) - x\<bar> \<le> 1 / 2"
  unfolding round_half_even_def Let_def
  using floor_correct [of x] by (auto simp: abs_le_iff)

lemma round_half_even_bounds: "\<lfloor>x\<rfloor> \<le> round_half_even x" "round_half_even x \<le> \<lfloor>x\<rfloor> + 1"
  by (auto simp: round_half_even_def Let_def)

lemma round_half_even_mono:
  assumes "x \<le> y"
  shows "round_half_even x \<le> round_half_even y"
proof (cases "\<lfloor>x\<rfloor> = \<lfloor>y\<rfloor>")
  case True
  with assms show ?thesis by (auto simp: round_half_even_def Let_def)
next
  case False
  with floor_mono [OF assms] have "\<lfloor>x\<rfloor> + 1 \<le> \<lfloor>y\<rfloor>" by simp
  with round_half_even_bounds(2) [of x] round_half_even_bounds(1) [of y]
  show ?thesis by linarith
qed

lemma round_half_even_minus: "round_half_even (- x) = - round_half_even x"
proof (cases "x \<in> \<int>")
  case True
  then obtain n where "x = of_int n" by (auto elim: Ints_cases)
  then show ?thesis using round_half_even_of_int [of "- n"] by simp
next
  case False
  then have c: "\<lfloor>- x\<rfloor> = - \<lfloor>x\<rfloor> - 1"
    by (simp add: floor_minus ceiling_altdef) (metis Ints_of_int)
  show ?thesis
    by (auto simp: round_half_even_def Let_def c)
qed

lemma round_half_away_of_int [simp]: "round_half_away (of_int n) = n"
proof -
  have "\<lfloor>of_int n + (1 / 2 :: rat)\<rfloor> = n" "\<lfloor>(1 / 2 :: rat) - of_int n\<rfloor> = - n"
    by (simp_all add: floor_eq_iff)
  then show ?thesis by (simp add: round_half_away_def)
qed

lemma round_half_away_error: "\<bar>of_int (round_half_away x) - x\<bar> \<le> 1 / 2"
proof (cases "0 \<le> x")
  case True
  have "of_int \<lfloor>x + 1 / 2\<rfloor> \<le> x + 1 / 2" "x + 1 / 2 < of_int \<lfloor>x + 1 / 2\<rfloor> + 1"
    by linarith+
  with True show ?thesis unfolding round_half_away_def abs_le_iff by (simp only: if_True) linarith
next
  case False
  have "of_int \<lfloor>1 / 2 - x\<rfloor> \<le> 1 / 2 - x" "1 / 2 - x < of_int \<lfloor>1 / 2 - x\<rfloor> + 1"
    by linarith+
  with False show ?thesis
    unfolding round_half_away_def abs_le_iff by (simp only: if_False of_int_minus) linarith
qed

lemma round_half_away_mono:
  assumes "x \<le> y"
  shows "round_half_away x \<le> round_half_away y"
proof -
  have up: "\<lfloor>x + 1 / 2\<rfloor> \<le> \<lfloor>y + 1 / 2\<rfloor>" and lo: "\<lfloor>1 / 2 - y\<rfloor> \<le> \<lfloor>1 / 2 - x\<rfloor>"
    using assms by (auto intro: floor_mono)
  consider "0 \<le> x" | "x < 0" "0 \<le> y" | "y < 0" using assms by linarith
  then show ?thesis
  proof cases
    case 2
    then have "0 \<le> round_half_away y" "round_half_away x \<le> 0"
      by (simp_all add: round_half_away_def)
    then show ?thesis by linarith
  qed (use assms up lo in \<open>simp_all add: round_half_away_def\<close>)
qed

lemma llround_of_int [simp]: "in_i64 n \<Longrightarrow> llround (of_int n) = n"
  by (simp add: llround_def)

lemma llround_in_i64 [simp, i64_simps]: "in_i64 (llround x)"
  by (simp add: llround_def Let_def i64_min_def in_i64_def)

subsection \<open>Rounding to a precision\<close>

definition fl :: "nat \<Rightarrow> rat \<Rightarrow> rat" where
  "fl p x = (if x = 0 then 0 else
     let u = pow2 (ilog2 \<bar>x\<bar> - (int p - 1)) in of_int (round_half_even (x / u)) * u)"

lemma fl_0 [simp]: "fl p 0 = 0"
  by (simp add: fl_def)

lemma fl_minus: "fl p (- x) = - fl p x"
  by (simp add: fl_def Let_def round_half_even_minus)

lemma fl_eq:
  assumes "0 < x"
  shows "fl p x = of_int (round_half_even (x / pow2 (ilog2 x - (int p - 1))))
    * pow2 (ilog2 x - (int p - 1))"
  using assms by (simp add: fl_def Let_def)

lemma fl_scaled_bounds:
  assumes "0 < x"
  shows "pow2 (int p - 1) \<le> x / pow2 (ilog2 x - (int p - 1))"
    and "x / pow2 (ilog2 x - (int p - 1)) < pow2 (int p)"
proof -
  have "pow2 (int p - 1) * pow2 (ilog2 x - (int p - 1)) = pow2 (ilog2 x)"
    "pow2 (int p) * pow2 (ilog2 x - (int p - 1)) = pow2 (ilog2 x + 1)"
    by (simp_all flip: pow2_add)
  with ilog2_bounds [OF assms]
  show "pow2 (int p - 1) \<le> x / pow2 (ilog2 x - (int p - 1))"
    and "x / pow2 (ilog2 x - (int p - 1)) < pow2 (int p)"
    by (simp_all add: pos_le_divide_eq pos_divide_less_eq)
qed

lemma pow2_of_int: "0 \<le> e \<Longrightarrow> pow2 e = of_int (2 ^ nat e)"
  by (simp add: pow2_def)

lemma fl_binade:
  assumes "0 < x" "1 \<le> p"
  shows "pow2 (ilog2 x) \<le> fl p x" "fl p x \<le> pow2 (ilog2 x + 1)"
proof -
  let ?u = "pow2 (ilog2 x - (int p - 1))"
  let ?r = "round_half_even (x / ?u)"
  have lo: "of_int (2 ^ nat (int p - 1)) \<le> x / ?u" and hi: "x / ?u \<le> of_int (2 ^ p)"
    using fl_scaled_bounds [OF assms(1), of p] assms(2)
    by (simp_all add: pow2_of_int)
  have "2 ^ nat (int p - 1) \<le> ?r" "?r \<le> 2 ^ p"
    using round_half_even_mono [OF lo] round_half_even_mono [OF hi] by (simp_all only: round_half_even_of_int)
  then have "(of_int (2 ^ nat (int p - 1)) :: rat) \<le> of_int ?r" "of_int ?r \<le> (of_int (2 ^ p) :: rat)"
    by (simp_all only: of_int_le_iff)
  then have "pow2 (int p - 1) * ?u \<le> of_int ?r * ?u" "of_int ?r * ?u \<le> pow2 (int p) * ?u"
    using assms(2) by (simp_all add: pow2_of_int)
  then show "pow2 (ilog2 x) \<le> fl p x" "fl p x \<le> pow2 (ilog2 x + 1)"
    by (simp_all add: fl_eq [OF assms(1)] flip: pow2_add)
qed

lemma fl_pos: "0 < x \<Longrightarrow> 1 \<le> p \<Longrightarrow> 0 < fl p x"
  using fl_binade(1) [of x p] pow2_pos [of "ilog2 x"] by linarith

lemma fl_nonneg: "0 \<le> x \<Longrightarrow> 1 \<le> p \<Longrightarrow> 0 \<le> fl p x"
  using fl_pos [of x p] by (cases "x = 0") (auto simp: less_le)

lemma fl_mono_pos:
  assumes "0 < x" "x \<le> y" "1 \<le> p"
  shows "fl p x \<le> fl p y"
proof (cases "ilog2 x = ilog2 y")
  case True
  have "x / pow2 (ilog2 y - (int p - 1)) \<le> y / pow2 (ilog2 y - (int p - 1))"
    using assms by (simp add: divide_right_mono less_imp_le)
  then show ?thesis using assms True
    by (simp add: fl_eq round_half_even_mono)
next
  case False
  with ilog2_mono [OF assms(1,2)] have "ilog2 x + 1 \<le> ilog2 y" by simp
  then have "pow2 (ilog2 x + 1) \<le> pow2 (ilog2 y)" by (rule pow2_mono)
  with fl_binade [of x p] fl_binade [of y p] assms show ?thesis by linarith
qed

lemma fl_mono:
  assumes "x \<le> y" "1 \<le> p"
  shows "fl p x \<le> fl p y"
proof -
  consider "0 < x" | "y < 0" | "x \<le> 0" "0 \<le> y" using assms by linarith
  then show ?thesis
  proof cases
    case 1 with assms show ?thesis by (intro fl_mono_pos)
  next
    case 2
    have "fl p (- y) \<le> fl p (- x)" using 2 assms by (intro fl_mono_pos) auto
    then show ?thesis by (simp add: fl_minus)
  next
    case 3
    have "0 \<le> fl p (- x)" "0 \<le> fl p y" using 3 assms by (auto intro: fl_nonneg)
    then show ?thesis by (simp add: fl_minus)
  qed
qed

lemma fl_error: "1 \<le> p \<Longrightarrow> \<bar>fl p x - x\<bar> \<le> pow2 (- int p) * \<bar>x\<bar>"
proof (cases "x = 0")
  case False
  let ?u = "pow2 (ilog2 \<bar>x\<bar> - (int p - 1))"
  have "fl p x - x = (of_int (round_half_even (x / ?u)) - x / ?u) * ?u"
    using False by (simp add: fl_def Let_def left_diff_distrib)
  then have "\<bar>fl p x - x\<bar> = \<bar>of_int (round_half_even (x / ?u)) - x / ?u\<bar> * ?u"
    by (simp only: abs_mult abs_of_pos [OF pow2_pos])
  also have "\<dots> \<le> 1 / 2 * ?u"
    using round_half_even_error by (intro mult_right_mono) (auto simp: less_imp_le)
  also have "\<dots> = pow2 (- int p) * pow2 (ilog2 \<bar>x\<bar>)"
  proof -
    have "ilog2 \<bar>x\<bar> - (int p - 1) = - int p + ilog2 \<bar>x\<bar> + 1" by simp
    then have "?u = pow2 (- int p) * pow2 (ilog2 \<bar>x\<bar>) * 2" by (simp only: pow2_add pow2_1)
    then show ?thesis by simp
  qed
  also have "\<dots> \<le> pow2 (- int p) * \<bar>x\<bar>"
    using False ilog2_bounds(1) [of "\<bar>x\<bar>"] by (intro mult_left_mono) (auto simp: less_imp_le)
  finally show ?thesis .
qed simp

text \<open>Integers of at most \<open>p\<close> bits times a power of two are exact.\<close>

lemma fl_exact_pos:
  assumes "0 < m" "m < 2 ^ p" "1 \<le> p"
  shows "fl p (of_int m * pow2 k) = of_int m * pow2 k"
proof -
  let ?x = "of_int m * pow2 k"
  have x: "0 < ?x" using assms(1) by simp
  have "of_int m < (of_int (2 ^ p) :: rat)" using assms(2) by (simp only: of_int_less_iff)
  then have "?x < pow2 (int p + k)" by (simp add: pow2_add pow2_nat)
  with ilog2_bounds(1) [OF x] have "ilog2 ?x < int p + k"
    by (metis le_less_trans pow2_less_iff)
  then have d: "0 \<le> k - (ilog2 ?x - (int p - 1))" by simp
  let ?d = "k - (ilog2 ?x - (int p - 1))"
  have "?x / pow2 (ilog2 ?x - (int p - 1)) = of_int m * pow2 ?d"
    by (simp add: pow2_diff)
  also have "\<dots> = of_int (m * 2 ^ nat ?d)" using d by (simp add: pow2_of_int)
  finally have q: "?x / pow2 (ilog2 ?x - (int p - 1)) = of_int (m * 2 ^ nat ?d)" .
  then show ?thesis
    unfolding fl_eq [OF x] q round_half_even_of_int unfolding q [symmetric] by simp
qed

lemma fl_exact:
  assumes "\<bar>m\<bar> \<le> 2 ^ p" "1 \<le> p"
  shows "fl p (of_int m * pow2 k) = of_int m * pow2 k"
proof -
  have pos: "fl p (of_int n * pow2 k) = of_int n * pow2 k" if "0 < n" "n \<le> 2 ^ p" for n
  proof (cases "n = 2 ^ p")
    case True
    have "(1::int) < 2 ^ p" using assms(2) by simp
    then have "fl p (of_int 1 * pow2 (int p + k)) = of_int 1 * pow2 (int p + k)"
      using assms(2) by (intro fl_exact_pos) auto
    with True show ?thesis by (simp add: pow2_add pow2_nat)
  next
    case False
    with that assms(2) show ?thesis by (intro fl_exact_pos) auto
  qed
  consider "m = 0" | "0 < m" | "m < 0" by linarith
  then show ?thesis
  proof cases
    case 3
    with pos [of "- m"] assms show ?thesis by (simp add: fl_minus)
  qed (use pos assms in auto)
qed

lemma fl_of_int: "\<bar>m\<bar> \<le> 2 ^ p \<Longrightarrow> 1 \<le> p \<Longrightarrow> fl p (of_int m) = of_int m"
  using fl_exact [of m p 0] by simp

text \<open>A rounded value is representable, so rounding it again changes nothing.\<close>

lemma fl_idem:
  assumes "1 \<le> p"
  shows "fl p (fl p x) = fl p x"
proof -
  have pos: "fl p (fl p y) = fl p y" if y: "0 < y" for y
  proof -
    let ?e = "ilog2 y - (int p - 1)"
    let ?r = "round_half_even (y / pow2 ?e)"
    have "y / pow2 ?e \<le> of_int (2 ^ p)" "of_int 0 \<le> y / pow2 ?e"
      using fl_scaled_bounds(2) [OF y, of p] y by (simp_all add: pow2_of_int less_imp_le)
    from round_half_even_mono [OF this(1)] round_half_even_mono [OF this(2)]
    have "\<bar>?r\<bar> \<le> 2 ^ p" by (simp only: round_half_even_of_int)
    then show ?thesis unfolding fl_eq [OF y] by (rule fl_exact [OF _ assms])
  qed
  consider "x = 0" | "0 < x" | "x < 0" by linarith
  then show ?thesis
  proof cases
    case 3
    with pos [of "- x"] show ?thesis by (simp add: fl_minus)
  qed (use pos in auto)
qed

lemma fl_eq_0_iff: "1 \<le> p \<Longrightarrow> fl p x = 0 \<longleftrightarrow> x = 0"
  using fl_pos [of x p] fl_pos [of "- x" p] by (cases x "0::rat" rule: linorder_cases) (auto simp: fl_minus)

end
