(* ===== verification/Clock_Calibration.thy ===== *)
theory Clock_Calibration
  imports Clock_Types Float_Model
begin

text \<open>
  \<^verbatim>\<open>ClockCalibration\<close> (\<^verbatim>\<open>src/Time.cpp\<close>): the offset-and-drift model that maps the SmartNIC clock to Unix
  time. It is seeded with an offset from the lowest-latency start-up samples, restarted when a clock
  steps, and refined by a least-squares fit with outlier rejection once the samples span enough time.
\<close>

subsection \<open>Data\<close>

datatype CalibrationState = WarmingUp | OffsetOnly | Tracking | Degraded

record TimeSample =
  ts_mac_ns :: i64
  unix_ns :: i64
  monotonic_ns :: i64
  latency_ns :: i64

record CalibrationStatus =
  mac_origin_ns :: i64
  unix_origin_ns :: i64
  minimum_latency_ns :: i64
  median_residual_ns :: i64
  scale :: rat
  sample_count :: nat
  rejected_samples :: nat
  accepted_samples :: nat
  cs_duplicate_states :: nat
  cs_invalid_observations :: nat
  cs_rejected_transitions :: nat
  cs_host_clock_steps :: nat
  cs_device_resets :: nat
  latest_uncertainty_ns :: i64
  sample_span_ns :: i64
  cal_state :: CalibrationState
  cal_valid :: bool
  drift_calibrated :: bool

record CalibrationConfig =
  maximum_sample_latency_ns :: i64
  regression_window_ns :: i64
  minimum_regression_span_ns :: i64
  host_step_threshold_ns :: i64
  model_step_threshold_ns :: i64
  maximum_drift_ppm :: rat

record ClockCalibration =
  cc_config :: CalibrationConfig
  samples :: "TimeSample list"
  status :: CalibrationStatus
  last_mac_ns :: i64
  last_unix_ns :: i64
  last_monotonic_ns :: i64

definition zero_status :: CalibrationStatus where
  "zero_status = \<lparr> mac_origin_ns = 0, unix_origin_ns = 0, minimum_latency_ns = 0,
     median_residual_ns = 0, scale = 1, sample_count = 0, rejected_samples = 0, accepted_samples = 0,
     cs_duplicate_states = 0, cs_invalid_observations = 0, cs_rejected_transitions = 0,
     cs_host_clock_steps = 0, cs_device_resets = 0, latest_uncertainty_ns = 0, sample_span_ns = 0,
     cal_state = WarmingUp, cal_valid = False, drift_calibrated = False \<rparr>"

definition default_calibration_config :: CalibrationConfig where
  "default_calibration_config = \<lparr> maximum_sample_latency_ns = 800000,
     regression_window_ns = 120000000000, minimum_regression_span_ns = 5000000000,
     host_step_threshold_ns = 500000, model_step_threshold_ns = 20000000, maximum_drift_ppm = 1000 \<rparr>"

definition new_ClockCalibration :: "CalibrationConfig \<Rightarrow> ClockCalibration" where
  "new_ClockCalibration cfg = \<lparr> cc_config = cfg, samples = [], status = zero_status,
     last_mac_ns = 0, last_unix_ns = 0, last_monotonic_ns = 0 \<rparr>"

definition kStartupBestSampleCount :: nat where
  "kStartupBestSampleCount = 8"

subsection \<open>Arithmetic\<close>

text \<open>
  \<^verbatim>\<open>std::nth_element\<close> puts the element of that rank at its place; the value is the one of the sorted list.
\<close>

definition median :: "i64 list \<Rightarrow> i64" where
  "median values = (if values = [] then 0 else
     let middle = length values div 2; sorted_values = sort values; upper = sorted_values ! middle in
     if odd (length values) then upper else midpoint (sorted_values ! (middle - 1)) upper)"

text \<open>Operations on \<^verbatim>\<open>long double\<close> (\<open>ld\<close>) and \<^verbatim>\<open>double\<close> (\<open>dbl\<close>) values.\<close>

definition ld :: "rat \<Rightarrow> rat" where "ld = fl 64"
definition dbl :: "rat \<Rightarrow> rat" where "dbl = fl 53"

definition dbl_finite :: "rat \<Rightarrow> bool" where
  "dbl_finite x \<longleftrightarrow> \<bar>x\<bar> < pow2 1024"

definition ld_offset :: "i64 \<Rightarrow> i64 \<Rightarrow> rat" where
  "ld_offset v origin = ld (of_int (s64 (v - origin)))"

text \<open>The two accumulation loops of \<^verbatim>\<open>fitLine\<close>.\<close>

definition line_sums :: "TimeSample list \<Rightarrow> i64 \<Rightarrow> i64 \<Rightarrow> rat \<times> rat" where
  "line_sums smps macOrigin unixOrigin =
    foldl (\<lambda>(sumX, sumY) s. (ld (sumX + ld_offset (ts_mac_ns s) macOrigin),
                             ld (sumY + ld_offset (unix_ns s) unixOrigin))) (0, 0) smps"

definition line_products :: "TimeSample list \<Rightarrow> i64 \<Rightarrow> i64 \<Rightarrow> rat \<Rightarrow> rat \<Rightarrow> rat \<times> rat" where
  "line_products smps macOrigin unixOrigin meanX meanY =
    foldl (\<lambda>(numerator, denominator) s.
        let x = ld (ld_offset (ts_mac_ns s) macOrigin - meanX);
            y = ld (ld_offset (unix_ns s) unixOrigin - meanY)
        in (ld (numerator + ld (x * y)), ld (denominator + ld (x * x)))) (0, 0) smps"

definition fitLine :: "TimeSample list \<Rightarrow> i64 \<Rightarrow> i64 \<Rightarrow> (rat \<times> i64) option" where
  "fitLine smps macOrigin unixOrigin =
    (if length smps < 2 then None else
     case line_sums smps macOrigin unixOrigin of (sumX, sumY) \<Rightarrow>
     let count = ld (of_nat (length smps));
         meanX = ld (sumX / count);
         meanY = ld (sumY / count)
     in case line_products smps macOrigin unixOrigin meanX meanY of (numerator, denominator) \<Rightarrow>
     if denominator = 0 then None else
     let scl = dbl (ld (numerator / denominator)) in
     if \<not> dbl_finite scl then None else
     let originAdjustment = ld (meanY - ld (scl * meanX))
     in Some (scl, s64 (unixOrigin + llround originAdjustment)))"

definition applyModel :: "i64 \<Rightarrow> i64 \<Rightarrow> i64 \<Rightarrow> rat \<Rightarrow> i64" where
  "applyModel macNs macOriginNs unixOriginNs scl =
    s64 (unixOriginNs + llround (ld (ld_offset macNs macOriginNs * scl)))"

text \<open>The constructor-free helper of the header; \<^verbatim>\<open>false\<close> leaves the output alone.\<close>

definition composeAtomicMacTime :: "u32 \<Rightarrow> u32 \<Rightarrow> u32 \<Rightarrow> i64 option" where
  "composeAtomicMacTime secondsBefore nanoseconds secondsAfter =
    (if secondsBefore \<noteq> secondsAfter \<or> \<not> nanos_valid nanoseconds then None
     else Some (mac_ns secondsAfter nanoseconds))"

subsection \<open>Operations\<close>

definition cal_reset :: "ClockCalibration \<Rightarrow> ClockCalibration" where
  "cal_reset c = c\<lparr> samples := [],
     status := zero_status\<lparr> rejected_samples := rejected_samples (status c) \<rparr>,
     last_mac_ns := 0, last_unix_ns := 0, last_monotonic_ns := 0 \<rparr>"

definition acceptable :: "CalibrationConfig \<Rightarrow> TimeSample \<Rightarrow> bool" where
  "acceptable cfg s \<longleftrightarrow> 0 \<le> latency_ns s \<and> latency_ns s \<le> maximum_sample_latency_ns cfg \<and>
     0 < ts_mac_ns s \<and> 0 < unix_ns s"

definition setOffsetModel :: "TimeSample list \<Rightarrow> CalibrationStatus \<Rightarrow> CalibrationStatus" where
  "setOffsetModel smps st =
    (let offsets = map (\<lambda>s. s64 (unix_ns s - ts_mac_ns s)) smps;
         minimumLatency = foldl (\<lambda>m s. min m (latency_ns s)) i64_max smps
     in case min_element latency_ns smps of
       None \<Rightarrow> st
     | Some best \<Rightarrow> st\<lparr>
         mac_origin_ns := ts_mac_ns best,
         unix_origin_ns := s64 (ts_mac_ns best + median offsets),
         minimum_latency_ns := minimumLatency,
         median_residual_ns := 0,
         scale := 1,
         sample_count := length smps,
         cal_valid := True,
         drift_calibrated := False,
         accepted_samples := accepted_samples st + length smps,
         cal_state := OffsetOnly \<rparr>)"

definition initialize :: "TimeSample sorter \<Rightarrow> TimeSample list \<Rightarrow> ClockCalibration \<Rightarrow> bool \<times> ClockCalibration" where
  "initialize srt smps c0 =
    (let c = cal_reset c0;
         accepted = filter (acceptable (cc_config c)) smps;
         rejected = rejected_samples (status c) + (length smps - length accepted);
         c = c\<lparr> status := (status c)\<lparr> rejected_samples := rejected \<rparr> \<rparr>
     in if length accepted < 4 then (False, c) else
     let accepted = take kStartupBestSampleCount (srt latency_ns accepted);
         st = setOffsetModel accepted (status c);
         accepted = srt monotonic_ns accepted
     in (True, c\<lparr> status := st, samples := accepted,
          last_mac_ns := ts_mac_ns (last accepted), last_unix_ns := unix_ns (last accepted),
          last_monotonic_ns := monotonic_ns (last accepted) \<rparr>))"

text \<open>The model of a single sample, which starts and restarts a calibration.\<close>

definition seed_model :: "TimeSample \<Rightarrow> ClockCalibration \<Rightarrow> ClockCalibration" where
  "seed_model s c = c\<lparr> status := (status c)\<lparr> mac_origin_ns := ts_mac_ns s, unix_origin_ns := unix_ns s,
     minimum_latency_ns := latency_ns s, scale := 1, sample_count := 1, cal_valid := True,
     cal_state := OffsetOnly \<rparr>, samples := samples c @ [s] \<rparr>"

definition model_time :: "CalibrationStatus \<Rightarrow> i64 \<Rightarrow> i64" where
  "model_time st mac = applyModel mac (mac_origin_ns st) (unix_origin_ns st) (scale st)"

definition toUnixNanoseconds :: "ClockCalibration \<Rightarrow> i64 \<Rightarrow> i64 outcome" where
  "toUnixNanoseconds c mac = (if \<not> cal_valid (status c)
     then Inl (runtime_error ''SmartNIC clock calibration is not valid'')
     else Inr (model_time (status c) mac))"

text \<open>
  The samples whose residual against the preliminary line is near the median residual: within six times
  the median absolute deviation, and at least 50 microseconds.
\<close>

definition residuals_of :: "TimeSample list \<Rightarrow> i64 \<Rightarrow> i64 \<Rightarrow> rat \<Rightarrow> i64 list" where
  "residuals_of smps macOrigin unixOrigin scl =
    map (\<lambda>s. s64 (unix_ns s - applyModel (ts_mac_ns s) macOrigin unixOrigin scl)) smps"

definition select_inliers :: "TimeSample list \<Rightarrow> i64 list \<Rightarrow> TimeSample list" where
  "select_inliers candidates residuals =
    (let residualMedian = median residuals;
         deviations = map (\<lambda>r. llabs (s64 (r - residualMedian))) residuals;
         mad = median deviations;
         threshold = max 50000 (s64 (mad * 6))
     in map fst (filter (\<lambda>(s, d). d \<le> threshold) (zip candidates deviations)))"

definition install_fit :: "TimeSample list \<Rightarrow> rat \<Rightarrow> i64 \<Rightarrow> ClockCalibration \<Rightarrow> ClockCalibration" where
  "install_fit inliers finalScale fittedUnixOrigin c =
    c\<lparr> status := (status c)\<lparr>
        mac_origin_ns := ts_mac_ns (hd inliers),
        unix_origin_ns := fittedUnixOrigin,
        scale := finalScale,
        median_residual_ns := median (map llabs
          (residuals_of inliers (ts_mac_ns (hd inliers)) fittedUnixOrigin finalScale)),
        sample_count := length inliers,
        drift_calibrated := True,
        sample_span_ns := s64 (monotonic_ns (last inliers) - monotonic_ns (hd inliers)),
        cal_state := Tracking \<rparr> \<rparr>"

definition fit :: "ClockCalibration \<Rightarrow> bool \<times> ClockCalibration" where
  "fit c =
    (let candidates = samples c;
         macOrigin = ts_mac_ns (hd candidates)
     in case fitLine candidates macOrigin (unix_ns (hd candidates)) of
       None \<Rightarrow> (False, c)
     | Some (initialScale, initialUnixOrigin) \<Rightarrow>
       let inliers = select_inliers candidates
             (residuals_of candidates macOrigin initialUnixOrigin initialScale)
       in if length inliers < 4 then (False, c) else
       (case fitLine inliers (ts_mac_ns (hd inliers)) (unix_ns (hd inliers)) of
         None \<Rightarrow> (False, c)
       | Some (finalScale, fittedUnixOrigin) \<Rightarrow>
         if \<bar>dbl (dbl (finalScale - 1) * 1000000)\<bar> > maximum_drift_ppm (cc_config c) then (False, c)
         else (True, install_fit inliers finalScale fittedUnixOrigin c)))"

text \<open>Why a sample restarts a valid model.\<close>

definition macRollback :: "TimeSample \<Rightarrow> ClockCalibration \<Rightarrow> bool" where
  "macRollback s c \<longleftrightarrow> ts_mac_ns s \<le> last_mac_ns c"

definition hostClockStep :: "TimeSample \<Rightarrow> ClockCalibration \<Rightarrow> bool" where
  "hostClockStep s c \<longleftrightarrow> last_monotonic_ns c \<noteq> 0 \<and>
     llabs (s64 (s64 (unix_ns s - last_unix_ns c) - s64 (monotonic_ns s - last_monotonic_ns c)))
       > host_step_threshold_ns (cc_config c)"

definition modelStep :: "TimeSample \<Rightarrow> ClockCalibration \<Rightarrow> bool" where
  "modelStep s c \<longleftrightarrow> llabs (s64 (model_time (status c) (ts_mac_ns s) - unix_ns s))
       > model_step_threshold_ns (cc_config c)"

definition absorb :: "TimeSample \<Rightarrow> ClockCalibration \<Rightarrow> ClockCalibration" where
  "absorb s c =
    (if \<not> cal_valid (status c) then seed_model s c
     else if macRollback s c \<or> hostClockStep s c \<or> modelStep s c then
       (let c' = cal_reset c in
        seed_model s (c'\<lparr> status := (status c')\<lparr> rejected_samples := rejected_samples (status c) + 1 \<rparr> \<rparr>))
     else c\<lparr> samples := samples c @ [s],
       status := (status c)\<lparr> minimum_latency_ns := min (minimum_latency_ns (status c)) (latency_ns s) \<rparr> \<rparr>)"

definition trim_window :: "TimeSample \<Rightarrow> ClockCalibration \<Rightarrow> ClockCalibration" where
  "trim_window s c =
    (let kept = dropWhile (\<lambda>x. s64 (monotonic_ns s - monotonic_ns x) > regression_window_ns (cc_config c))
           (samples c)
     in c\<lparr> samples := kept, status := (status c)\<lparr>
          sample_count := length kept,
          accepted_samples := max (accepted_samples (status c)) (length kept),
          sample_span_ns := (if kept = [] then 0
            else s64 (monotonic_ns (last kept) - monotonic_ns (hd kept))) \<rparr> \<rparr>)"

definition addSample :: "TimeSample \<Rightarrow> ClockCalibration \<Rightarrow> bool \<times> ClockCalibration" where
  "addSample s c =
    (if \<not> acceptable (cc_config c) s then
       (False, c\<lparr> status := (status c)\<lparr> rejected_samples := rejected_samples (status c) + 1 \<rparr> \<rparr>)
     else
     let c = (absorb s c)\<lparr> last_mac_ns := ts_mac_ns s, last_unix_ns := unix_ns s,
           last_monotonic_ns := monotonic_ns s \<rparr>;
         c = trim_window s c
     in (True,
       if 10 \<le> length (samples c) \<and>
          s64 (monotonic_ns (last (samples c)) - monotonic_ns (hd (samples c)))
            \<ge> minimum_regression_span_ns (cc_config c)
       then snd (fit c) else c))"

subsection \<open>Reachable calibrations and their invariant\<close>

text \<open>The states a calibration object goes through, whichever order its sorts leave ties in.\<close>

inductive cal_reach :: "CalibrationConfig \<Rightarrow> ClockCalibration \<Rightarrow> bool" for cfg where
  reach_new: "cal_reach cfg (new_ClockCalibration cfg)"
| reach_init: "cal_reach cfg c \<Longrightarrow> std_sort srt \<Longrightarrow> initialize srt smps c = (b, c') \<Longrightarrow> cal_reach cfg c'"
| reach_add: "cal_reach cfg c \<Longrightarrow> addSample s c = (b, c') \<Longrightarrow> cal_reach cfg c'"

definition cal_inv :: "ClockCalibration \<Rightarrow> bool" where
  "cal_inv c \<longleftrightarrow>
     cal_valid (status c) = (samples c \<noteq> []) \<and>
     (\<forall>s \<in> set (samples c). acceptable (cc_config c) s) \<and>
     (samples c \<noteq> [] \<longrightarrow> last_mac_ns c = ts_mac_ns (last (samples c)) \<and>
        last_unix_ns c = unix_ns (last (samples c)) \<and>
        last_monotonic_ns c = monotonic_ns (last (samples c))) \<and>
     (cal_state (status c) = Tracking \<longleftrightarrow> drift_calibrated (status c)) \<and>
     (cal_state (status c) = WarmingUp \<longleftrightarrow> \<not> cal_valid (status c)) \<and>
     cal_state (status c) \<noteq> Degraded \<and>
     (drift_calibrated (status c) \<longrightarrow> cal_valid (status c)) \<and>
     (\<not> drift_calibrated (status c) \<longrightarrow> scale (status c) = 1)"

lemmas cal_defs = cal_reset_def zero_status_def seed_model_def trim_window_def Let_def

lemma cal_inv_new: "cal_inv (new_ClockCalibration cfg)"
  by (simp add: cal_inv_def new_ClockCalibration_def zero_status_def)

lemma setOffsetModel_fields:
  assumes "smps \<noteq> []"
  shows "cal_valid (setOffsetModel smps st) \<and> cal_state (setOffsetModel smps st) = OffsetOnly \<and>
    \<not> drift_calibrated (setOffsetModel smps st) \<and> scale (setOffsetModel smps st) = 1 \<and>
    sample_count (setOffsetModel smps st) = length smps \<and>
    rejected_samples (setOffsetModel smps st) = rejected_samples st"
  using min_element_ne [OF assms, of latency_ns] by (auto simp: setOffsetModel_def Let_def)

text \<open>The outcome of a fit: nothing, or a new drift model over the same samples.\<close>

lemma select_inliers_sub: "x \<in> set (select_inliers cs rs) \<Longrightarrow> x \<in> set cs"
  by (auto simp: select_inliers_def Let_def dest: set_zip_leftD)

lemma select_inliers_length: "length (select_inliers cs rs) \<le> length cs"
proof -
  show "length (select_inliers cs rs) \<le> length cs"
    unfolding select_inliers_def Let_def length_map by (rule order_trans [OF length_filter_le]) simp
qed

lemma fit_cases:
  obtains (failed) "fit c = (False, c)"
  | (fitted) inliers scl org where "fit c = (True, install_fit inliers scl org c)"
    "set inliers \<subseteq> set (samples c)" "4 \<le> length inliers" "length inliers \<le> length (samples c)"
    "fitLine inliers (ts_mac_ns (hd inliers)) (unix_ns (hd inliers)) = Some (scl, org)"
    "\<bar>dbl (dbl (scl - 1) * 1000000)\<bar> \<le> maximum_drift_ppm (cc_config c)"
proof -
  let ?h = "hd (samples c)"
  show ?thesis
  proof (cases "fitLine (samples c) (ts_mac_ns ?h) (unix_ns ?h)")
    case None
    then show ?thesis by (intro failed) (simp add: fit_def Let_def)
  next
    case (Some line)
    obtain s0 o0 where line: "line = (s0, o0)" by (cases line)
    define inl where "inl = select_inliers (samples c) (residuals_of (samples c) (ts_mac_ns ?h) o0 s0)"
    have fit: "fit c = (if length inl < 4 then (False, c) else
        case fitLine inl (ts_mac_ns (hd inl)) (unix_ns (hd inl)) of None \<Rightarrow> (False, c)
        | Some (scl, org) \<Rightarrow>
          if \<bar>dbl (dbl (scl - 1) * 1000000)\<bar> > maximum_drift_ppm (cc_config c) then (False, c)
          else (True, install_fit inl scl org c))"
      unfolding inl_def by (simp add: fit_def Let_def Some line)
    show ?thesis
    proof (cases "fst (fit c)")
      case True
      then obtain scl org where "fitLine inl (ts_mac_ns (hd inl)) (unix_ns (hd inl)) = Some (scl, org)"
          "\<bar>dbl (dbl (scl - 1) * 1000000)\<bar> \<le> maximum_drift_ppm (cc_config c)"
          "fit c = (True, install_fit inl scl org c)" "4 \<le> length inl"
        unfolding fit by (auto split: option.splits prod.splits if_splits)
      then show ?thesis
        by (intro fitted) (auto simp: inl_def select_inliers_length intro: select_inliers_sub)
    next
      case False
      then show ?thesis
        by (intro failed) (auto simp: fit split: option.splits prod.splits if_splits)
    qed
  qed
qed

text \<open>Absorbing and trimming, by what they do to the sample list.\<close>

lemma absorb_simps:
  "cc_config (absorb s c) = cc_config c" "cal_valid (status (absorb s c))"
  "\<exists>xs. samples (absorb s c) = xs @ [s] \<and> set xs \<subseteq> set (samples c) \<and>
    (\<not> cal_valid (status c) \<longrightarrow> xs = samples c)"
  by (auto simp: absorb_def cal_defs)

lemma absorb_model:
  assumes "cal_inv c"
  shows "cal_state (status (absorb s c)) = (if drift_calibrated (status (absorb s c)) then Tracking else OffsetOnly)"
    and "\<not> drift_calibrated (status (absorb s c)) \<Longrightarrow> scale (status (absorb s c)) = 1"
proof -
  have "cal_state (status c) = (if drift_calibrated (status c) then Tracking
      else if cal_valid (status c) then OffsetOnly else WarmingUp)"
    using assms by (cases "cal_state (status c)") (auto simp: cal_inv_def)
  with assms show "cal_state (status (absorb s c)) = (if drift_calibrated (status (absorb s c)) then Tracking else OffsetOnly)"
    and "\<not> drift_calibrated (status (absorb s c)) \<Longrightarrow> scale (status (absorb s c)) = 1"
    by (auto simp: absorb_def cal_defs cal_inv_def)
qed

lemma trim_window_simps:
  "cc_config (trim_window s c) = cc_config c"
  "samples (trim_window s c) =
    dropWhile (\<lambda>x. s64 (monotonic_ns s - monotonic_ns x) > regression_window_ns (cc_config c)) (samples c)"
  "last_mac_ns (trim_window s c) = last_mac_ns c" "last_unix_ns (trim_window s c) = last_unix_ns c"
  "last_monotonic_ns (trim_window s c) = last_monotonic_ns c"
  "cal_state (status (trim_window s c)) = cal_state (status c)"
  "cal_valid (status (trim_window s c)) = cal_valid (status c)"
  "drift_calibrated (status (trim_window s c)) = drift_calibrated (status c)"
  "scale (status (trim_window s c)) = scale (status c)"
  "mac_origin_ns (status (trim_window s c)) = mac_origin_ns (status c)"
  "unix_origin_ns (status (trim_window s c)) = unix_origin_ns (status c)"
  "rejected_samples (status (trim_window s c)) = rejected_samples (status c)"
  by (simp_all add: trim_window_def Let_def)

lemma dropWhile_snoc_keep: "\<not> P x \<Longrightarrow> \<exists>ys. dropWhile P (xs @ [x]) = ys @ [x] \<and> set ys \<subseteq> set xs"
  by (induction xs) auto

text \<open>With a window that is not negative, the newest sample is never trimmed.\<close>

lemma trim_window_last:
  assumes "samples c = xs @ [s]" "0 \<le> regression_window_ns (cc_config c)"
  shows "\<exists>ys. samples (trim_window s c) = ys @ [s] \<and> set ys \<subseteq> set xs"
  unfolding trim_window_simps assms(1) by (rule dropWhile_snoc_keep) (use assms(2) in simp)

lemma install_fit_inv: "cal_inv c \<Longrightarrow> cal_valid (status c) \<Longrightarrow> cal_inv (install_fit inl scl org c)"
  by (simp add: cal_inv_def install_fit_def)

lemma fit_inv: "cal_inv c \<Longrightarrow> cal_valid (status c) \<Longrightarrow> cal_inv (snd (fit c))"
  by (rule fit_cases [of c]) (auto intro: install_fit_inv)

text \<open>The calibration an accepted sample leaves before any fit.\<close>

definition extended :: "TimeSample \<Rightarrow> ClockCalibration \<Rightarrow> ClockCalibration" where
  "extended s c = trim_window s ((absorb s c)\<lparr> last_mac_ns := ts_mac_ns s, last_unix_ns := unix_ns s,
     last_monotonic_ns := monotonic_ns s \<rparr>)"

lemma addSample_eq:
  "addSample s c = (if \<not> acceptable (cc_config c) s then
       (False, c\<lparr> status := (status c)\<lparr> rejected_samples := rejected_samples (status c) + 1 \<rparr> \<rparr>)
     else (True, if 10 \<le> length (samples (extended s c)) \<and>
          s64 (monotonic_ns (last (samples (extended s c))) - monotonic_ns (hd (samples (extended s c))))
            \<ge> minimum_regression_span_ns (cc_config (extended s c))
       then snd (fit (extended s c)) else extended s c))"
  by (simp add: addSample_def extended_def Let_def)

lemma extended_samples:
  assumes "0 \<le> regression_window_ns (cc_config c)"
  shows "\<exists>ys. samples (extended s c) = ys @ [s] \<and> set ys \<subseteq> set (samples c)"
proof -
  obtain xs where xs: "samples (absorb s c) = xs @ [s]" "set xs \<subseteq> set (samples c)"
    using absorb_simps(3) [of s c] by blast
  let ?c = "(absorb s c)\<lparr> last_mac_ns := ts_mac_ns s, last_unix_ns := unix_ns s, last_monotonic_ns := monotonic_ns s \<rparr>"
  have "samples ?c = xs @ [s]" "0 \<le> regression_window_ns (cc_config ?c)"
    using xs assms by (simp_all add: absorb_simps)
  from trim_window_last [OF this] xs(2) show ?thesis by (auto simp: extended_def)
qed

lemma extended_fields:
  "cc_config (extended s c) = cc_config c" "cal_valid (status (extended s c))"
  "last_mac_ns (extended s c) = ts_mac_ns s" "last_unix_ns (extended s c) = unix_ns s"
  "last_monotonic_ns (extended s c) = monotonic_ns s"
  by (simp_all add: extended_def trim_window_simps absorb_simps)

lemma extended_inv:
  assumes "cal_inv c" "acceptable (cc_config c) s" "0 \<le> regression_window_ns (cc_config c)"
  shows "cal_inv (extended s c)"
proof -
  obtain ys where ys: "samples (extended s c) = ys @ [s]" "set ys \<subseteq> set (samples c)"
    using extended_samples [OF assms(3)] by blast
  have st: "cal_state (status (extended s c)) =
      (if drift_calibrated (status (extended s c)) then Tracking else OffsetOnly)"
    "\<not> drift_calibrated (status (extended s c)) \<Longrightarrow> scale (status (extended s c)) = 1"
    using absorb_model [OF assms(1), of s] by (simp_all add: extended_def trim_window_simps)
  from assms(1,2) ys st show ?thesis
    unfolding cal_inv_def by (auto simp: extended_fields)
qed

lemma addSample_inv:
  assumes "cal_inv c" "0 \<le> regression_window_ns (cc_config c)"
  shows "cal_inv (snd (addSample s c))"
proof (cases "acceptable (cc_config c) s")
  case True
  then show ?thesis
    using extended_inv [OF assms(1) True assms(2)] fit_inv extended_fields(2) [of s c]
    by (simp add: addSample_eq)
next
  case False
  with assms(1) show ?thesis by (auto simp: addSample_eq cal_inv_def)
qed

text \<open>Start-up, for any sort that meets its contract.\<close>

definition startup_choice :: "TimeSample sorter \<Rightarrow> CalibrationConfig \<Rightarrow> TimeSample list \<Rightarrow> TimeSample list" where
  "startup_choice srt cfg smps = take kStartupBestSampleCount (srt latency_ns (filter (acceptable cfg) smps))"

lemma initialize_eq:
  "initialize srt smps c =
    (let acc = filter (acceptable (cc_config c)) smps;
         st = zero_status\<lparr> rejected_samples := rejected_samples (status c) + (length smps - length acc) \<rparr>;
         best = startup_choice srt (cc_config c) smps
     in if length acc < 4 then (False, (cal_reset c)\<lparr> status := st \<rparr>)
        else (True, (cal_reset c)\<lparr> status := setOffsetModel best st, samples := srt monotonic_ns best,
          last_mac_ns := ts_mac_ns (last (srt monotonic_ns best)),
          last_unix_ns := unix_ns (last (srt monotonic_ns best)),
          last_monotonic_ns := monotonic_ns (last (srt monotonic_ns best)) \<rparr>))"
  by (simp add: initialize_def startup_choice_def cal_reset_def Let_def)

lemma startup_choice_set:
  assumes "std_sort srt" "x \<in> set (startup_choice srt cfg smps)"
  shows "x \<in> set smps \<and> acceptable cfg x"
  using assms std_sort.set_srt [OF assms(1), of latency_ns "filter (acceptable cfg) smps"]
  by (auto simp: startup_choice_def dest: in_set_takeD)

lemma startup_choice_length:
  assumes "std_sort srt"
  shows "length (startup_choice srt cfg smps) = min 8 (length (filter (acceptable cfg) smps))"
  by (simp add: startup_choice_def std_sort.length_srt [OF assms] kStartupBestSampleCount_def)

lemma initialize_inv:
  assumes "std_sort srt"
  shows "cal_inv (snd (initialize srt smps c))"
proof (cases "length (filter (acceptable (cc_config c)) smps) < 4")
  case True
  then show ?thesis by (simp add: initialize_eq cal_inv_def cal_reset_def zero_status_def Let_def)
next
  case False
  let ?best = "startup_choice srt (cc_config c) smps"
  have ne: "?best \<noteq> []"
    using startup_choice_length [OF assms, of "cc_config c" smps] False by auto
  then have "srt monotonic_ns ?best \<noteq> []" by (simp add: std_sort.srt_Nil_iff [OF assms])
  with False setOffsetModel_fields [OF ne] startup_choice_set [OF assms] show ?thesis
    by (auto simp: initialize_eq Let_def cal_inv_def cal_reset_def std_sort.set_srt [OF assms])
qed

lemma reach_inv:
  assumes "cal_reach cfg c" "0 \<le> regression_window_ns cfg"
  shows "cal_inv c \<and> cc_config c = cfg"
  using assms(1)
proof induction
  case reach_new
  then show ?case using cal_inv_new by (simp add: new_ClockCalibration_def)
next
  case (reach_init c srt smps b c')
  have "cc_config (snd (initialize srt smps c)) = cc_config c"
    by (simp add: initialize_eq cal_reset_def Let_def)
  with reach_init initialize_inv [OF reach_init.hyps(2), of smps c] show ?case by simp
next
  case (reach_add c s b c')
  have "cc_config (snd (fit c)) = cc_config c" for c
    by (rule fit_cases [of c]) (simp_all add: install_fit_def)
  then have "cc_config (snd (addSample s c)) = cc_config c"
    by (simp add: addSample_eq extended_fields)
  with reach_add addSample_inv [of c s] assms(2) show ?case by simp
qed

lemma initialize_config: "cc_config (snd (initialize srt smps c)) = cc_config c"
  by (simp add: initialize_eq cal_reset_def Let_def)

lemma addSample_config: "cc_config (snd (addSample s c)) = cc_config c"
proof -
  have "cc_config (snd (fit c)) = cc_config c" for c
    by (rule fit_cases [of c]) (simp_all add: install_fit_def)
  then show ?thesis by (simp add: addSample_eq extended_fields)
qed

lemma reach_config: "cal_reach cfg c \<Longrightarrow> cc_config c = cfg"
proof (induction rule: cal_reach.induct)
  case (reach_init c srt smps b c')
  then show ?case using initialize_config [of srt smps c] by simp
next
  case (reach_add c s b c')
  then show ?case using addSample_config [of s c] by simp
qed (simp add: new_ClockCalibration_def)

text \<open>
  C32 (invariant). Every calibration the program can reach keeps its invariant: it is valid exactly when
  it holds samples, holds only acceptable samples, remembers the readings of the newest one, reports
  the state its flags say, and has the scale one until a drift fit has succeeded.
\<close>

theorem cal_reach_inv:
  assumes "cal_reach cfg c" "0 \<le> regression_window_ns cfg"
  shows "cal_inv c \<and> cc_config c = cfg"
  by (rule reach_inv [OF assms])

subsection \<open>The drift bound\<close>

definition drift_ok :: "rat \<Rightarrow> rat \<Rightarrow> bool" where
  "drift_ok ppm scl \<longleftrightarrow> \<bar>dbl (dbl (scl - 1) * 1000000)\<bar> \<le> ppm"

lemma drift_ok_1: "0 \<le> ppm \<Longrightarrow> drift_ok ppm 1"
  by (simp add: drift_ok_def dbl_def)

lemma initialize_scale: "scale (status (snd (initialize srt smps c))) = 1"
  by (auto simp: initialize_eq Let_def setOffsetModel_def zero_status_def cal_reset_def split: option.split)

lemma extended_scale: "scale (status (extended s c)) \<in> {1, scale (status c)}"
  by (auto simp: extended_def trim_window_simps absorb_def cal_defs)

lemma addSample_scale:
  assumes "drift_ok (maximum_drift_ppm (cc_config c)) (scale (status c))" "0 \<le> maximum_drift_ppm (cc_config c)"
  shows "drift_ok (maximum_drift_ppm (cc_config c)) (scale (status (snd (addSample s c))))"
proof -
  have e: "drift_ok (maximum_drift_ppm (cc_config c)) (scale (status (extended s c)))"
    using extended_scale [of s c] assms drift_ok_1 by auto
  have f: "drift_ok (maximum_drift_ppm (cc_config c)) (scale (status (snd (fit (extended s c)))))"
    by (rule fit_cases [of "extended s c"])
      (use e in \<open>auto simp: install_fit_def drift_ok_def extended_fields\<close>)
  show ?thesis using e f assms by (simp add: addSample_eq)
qed

lemma reach_drift_ok:
  assumes "cal_reach cfg c" "0 \<le> maximum_drift_ppm cfg" "0 \<le> regression_window_ns cfg"
  shows "drift_ok (maximum_drift_ppm cfg) (scale (status c))"
  using assms(1)
proof induction
  case reach_new
  then show ?case using assms(2) by (simp add: new_ClockCalibration_def zero_status_def drift_ok_1)
next
  case (reach_init c srt smps b c')
  then show ?case using assms(2) initialize_scale [of srt smps c] by (simp add: drift_ok_1)
next
  case (reach_add c s b c')
  then show ?case using addSample_scale [of c s] reach_inv [OF reach_add.hyps(1) assms(3)] assms(2) by simp
qed

text \<open>Both roundings of the check lose at most one part in a million.\<close>

lemma fl_abs_ge: "1 \<le> p \<Longrightarrow> (1 - pow2 (- int p)) * \<bar>x\<bar> \<le> \<bar>fl p x\<bar>"
proof -
  assume "1 \<le> p"
  from fl_error [OF this, of x] have "\<bar>x\<bar> - \<bar>fl p x\<bar> \<le> pow2 (- int p) * \<bar>x\<bar>" by linarith
  then show ?thesis by (simp add: left_diff_distrib)
qed

lemma dbl_abs_ge: "(1 - pow2 (- int 53)) * \<bar>x\<bar> \<le> \<bar>dbl x\<bar>"
  unfolding dbl_def by (rule fl_abs_ge) simp

lemma two_roundings:
  "0 \<le> (a::rat) \<Longrightarrow> a * 15999992000001 \<le> p * 16000000 \<Longrightarrow> a \<le> p / 999999"
  by (simp add: pos_le_divide_eq)

lemma drift_ok_bound:
  assumes "drift_ok ppm scl"
  shows "\<bar>scl - 1\<bar> \<le> ppm / 999999"
proof -
  have eps: "pow2 (- int 53) \<le> 1 / 4000000" by (simp add: pow2_def)
  let ?k = "3999999 / 4000000 :: rat"
  have k: "?k \<le> 1 - pow2 (- int 53)" using eps by simp
  have "?k * \<bar>scl - 1\<bar> \<le> (1 - pow2 (- int 53)) * \<bar>scl - 1\<bar>"
    by (rule mult_right_mono [OF k]) simp
  also have "\<dots> \<le> \<bar>dbl (scl - 1)\<bar>" by (rule dbl_abs_ge)
  finally have a: "?k * \<bar>scl - 1\<bar> * 1000000 \<le> \<bar>dbl (scl - 1) * 1000000\<bar>" by (simp add: abs_mult)
  have "?k * \<bar>dbl (scl - 1) * 1000000\<bar> \<le> (1 - pow2 (- int 53)) * \<bar>dbl (scl - 1) * 1000000\<bar>"
    by (rule mult_right_mono [OF k]) simp
  also have "\<dots> \<le> \<bar>dbl (dbl (scl - 1) * 1000000)\<bar>"
    by (rule dbl_abs_ge)
  also have "\<dots> \<le> ppm" using assms by (simp add: drift_ok_def)
  finally have "?k * \<bar>dbl (scl - 1) * 1000000\<bar> \<le> ppm" .
  with a have "?k * (?k * \<bar>scl - 1\<bar> * 1000000) \<le> ppm" by linarith
  then have "\<bar>scl - 1\<bar> * 15999992000001 \<le> ppm * 16000000" by simp
  then show ?thesis by (rule two_roundings [OF abs_ge_zero])
qed

lemmas reach_drift_bound = drift_ok_bound [OF reach_drift_ok]

text \<open>
  The drift of any calibration the program reaches stays within the configured limit, up
  to one part in a million of it: the scale is never further from one.
\<close>

theorem cal_reach_drift_bound:
  assumes "cal_reach cfg c" "0 \<le> maximum_drift_ppm cfg" "0 \<le> regression_window_ns cfg"
  shows "\<bar>scale (status c) - 1\<bar> \<le> maximum_drift_ppm cfg / 999999"
  by (rule reach_drift_bound [OF assms])

subsection \<open>Conversion\<close>

lemma ld_of_int [simp]: "\<bar>z\<bar> \<le> 2 ^ 64 \<Longrightarrow> ld (of_int z) = of_int z"
  unfolding ld_def by (rule fl_of_int) simp_all

lemma in_i64_abs: "in_i64 z \<Longrightarrow> \<bar>z\<bar> \<le> 2 ^ 64"
  by (auto simp: in_i64_def)

lemma ld_offset_exact: "in_i64 (v - w) \<Longrightarrow> ld_offset v w = of_int (v - w)"
  using in_i64_abs [of "v - w"] by (simp only: ld_offset_def s64_id ld_of_int)

lemma ld_mono: "x \<le> y \<Longrightarrow> ld x \<le> ld y"
  unfolding ld_def by (rule fl_mono) simp_all

lemma applyModel_unit_scale:
  assumes "in_i64 (m - mo)" "in_i64 (uo + (m - mo))"
  shows "applyModel m mo uo 1 = uo + (m - mo)"
  using assms in_i64_abs [OF assms(1)]
  by (simp add: applyModel_def ld_offset_exact s64_id del: of_int_diff)

text \<open>
  Until a drift fit has succeeded, conversion to Unix time is an exact translation:
  the SmartNIC time plus the difference of the two origins, with no rounding, as long as the result
  fits 64 bits.
\<close>

theorem offset_model_exact:
  assumes "cal_reach cfg c" "0 \<le> regression_window_ns cfg" "\<not> drift_calibrated (status c)"
    and "toUnixNanoseconds c m = Inr t"
    and "in_i64 (m - mac_origin_ns (status c))"
      "in_i64 (unix_origin_ns (status c) + (m - mac_origin_ns (status c)))"
  shows "t = unix_origin_ns (status c) + (m - mac_origin_ns (status c))"
proof -
  have "scale (status c) = 1" using reach_inv [OF assms(1,2)] assms(3) by (simp add: cal_inv_def)
  with assms(4-6) applyModel_unit_scale show ?thesis
    by (auto simp: toUnixNanoseconds_def model_time_def split: if_splits)
qed

text \<open>
  Operating range of a conversion: within \<open>2 ^ 61\<close> nanoseconds (73 years) of the SmartNIC origin, and
  a Unix origin before the year 2116.
\<close>

definition model_range :: "CalibrationStatus \<Rightarrow> i64 \<Rightarrow> bool" where
  "model_range st m \<longleftrightarrow> \<bar>m - mac_origin_ns st\<bar> \<le> 2 ^ 61 \<and> \<bar>unix_origin_ns st\<bar> \<le> 2 ^ 62"

lemma model_rounding:
  assumes "model_range st m" "\<bar>scale st - 1\<bar> \<le> 1 / 2"
  shows "\<bar>of_int (model_time st m - unix_origin_ns st) - of_int (m - mac_origin_ns st) * scale st\<bar> \<le> 1"
    and "model_time st m = unix_origin_ns st +
      round_half_away (ld (of_int (m - mac_origin_ns st) * scale st))"
proof -
  let ?d = "m - mac_origin_ns st"
  let ?x = "of_int ?d * scale st"
  have d: "in_i64 ?d" using assms(1) by (auto simp: model_range_def in_i64_def)
  have "(of_int \<bar>?d\<bar> :: rat) \<le> of_int (2 ^ 61)"
    using assms(1) unfolding model_range_def by (simp only: of_int_le_iff)
  then have dr: "\<bar>of_int ?d :: rat\<bar> \<le> 2 ^ 61" by simp
  have sc: "\<bar>scale st\<bar> \<le> 3 / 2" using assms(2) by linarith
  have "\<bar>?x\<bar> \<le> 2 ^ 61 * (3 / 2)"
    unfolding abs_mult by (rule mult_mono [OF dr sc]) simp_all
  then have x: "\<bar>?x\<bar> \<le> 3 * 2 ^ 60" by simp
  have "\<bar>ld ?x - ?x\<bar> \<le> pow2 (- int 64) * \<bar>?x\<bar>" unfolding ld_def by (rule fl_error) simp
  also have "\<dots> \<le> pow2 (- int 64) * (3 * 2 ^ 60)" using x by (intro mult_left_mono) (simp_all add: less_imp_le)
  also have "\<dots> \<le> 1 / 4" by (simp add: pow2_def)
  finally have e1: "\<bar>ld ?x - ?x\<bar> \<le> 1 / 4" .
  let ?r = "round_half_away (ld ?x)"
  have e2: "\<bar>of_int ?r - ld ?x\<bar> \<le> 1 / 2" by (rule round_half_away_error)
  have "\<bar>of_int ?r :: rat\<bar> \<le> 3 * 2 ^ 60 + 1" using e1 e2 x by linarith
  then have "of_int \<bar>?r\<bar> \<le> (of_int (3 * 2 ^ 60 + 1) :: rat)" by simp
  then have r: "\<bar>?r\<bar> \<le> 3 * 2 ^ 60 + 1" by (simp only: of_int_le_iff)
  then have rr: "in_i64 ?r" by (auto simp: in_i64_def)
  have "in_i64 (unix_origin_ns st + ?r)"
    using r assms(1) by (auto simp: in_i64_def model_range_def)
  then show mt: "model_time st m = unix_origin_ns st + ?r"
    using rr d by (simp add: model_time_def applyModel_def ld_offset_exact llround_def Let_def s64_id
        del: of_int_diff)
  show "\<bar>of_int (model_time st m - unix_origin_ns st) - ?x\<bar> \<le> 1"
    unfolding mt add_diff_cancel_left' using e1 e2 by linarith
qed

text \<open>
  C20 (bounds). A converted time differs from a plain translation by at most the configured drift over
  the distance from the origin, plus one nanosecond for all rounding.
\<close>

theorem conversion_error_bound:
  assumes "cal_reach cfg c" "0 \<le> maximum_drift_ppm cfg" "maximum_drift_ppm cfg \<le> 400000"
    "0 \<le> regression_window_ns cfg"
    and "toUnixNanoseconds c m = Inr t" "model_range (status c) m"
  shows "\<bar>of_int (t - (unix_origin_ns (status c) + (m - mac_origin_ns (status c))))\<bar>
    \<le> of_int \<bar>m - mac_origin_ns (status c)\<bar> * (maximum_drift_ppm cfg / 999999) + 1"
proof -
  let ?d = "m - mac_origin_ns (status c)"
  note b = reach_drift_bound [OF assms(1,2,4)]
  have "\<bar>scale (status c) - 1\<bar> \<le> 1 / 2" using b assms(3) by simp
  from model_rounding(1) [OF assms(6) this]
  have r: "\<bar>of_int (t - unix_origin_ns (status c)) - of_int ?d * scale (status c)\<bar> \<le> 1"
    using assms(5) by (simp add: toUnixNanoseconds_def split: if_splits)
  have "\<bar>of_int ?d * (scale (status c) - 1)\<bar> \<le> of_int \<bar>?d\<bar> * (maximum_drift_ppm cfg / 999999)"
    unfolding abs_mult of_int_abs by (rule mult_left_mono [OF b]) simp
  moreover have "of_int (t - (unix_origin_ns (status c) + ?d)) =
      (of_int (t - unix_origin_ns (status c)) - of_int ?d * scale (status c)) +
      of_int ?d * (scale (status c) - 1)"
    by (simp add: algebra_simps)
  ultimately show ?thesis using r by linarith
qed

lemma conversion_ascends:
  assumes "cal_reach cfg c" "0 \<le> maximum_drift_ppm cfg" "maximum_drift_ppm cfg \<le> 400000"
    "0 \<le> regression_window_ns cfg"
    and "toUnixNanoseconds c m1 = Inr t1" "toUnixNanoseconds c m2 = Inr t2" "m1 \<le> m2"
    "model_range (status c) m1" "model_range (status c) m2"
  shows "t1 \<le> t2"
proof -
  have s: "\<bar>scale (status c) - 1\<bar> \<le> 1 / 2"
    using reach_drift_bound [OF assms(1,2,4)] assms(3) by simp
  then have "0 \<le> scale (status c)" by linarith
  then have "of_int (m1 - mac_origin_ns (status c)) * scale (status c)
      \<le> of_int (m2 - mac_origin_ns (status c)) * scale (status c)"
    using assms(7) by (intro mult_right_mono) simp_all
  from round_half_away_mono [OF ld_mono [OF this]] assms(5,6)
  show ?thesis
    using model_rounding(2) [OF assms(8) s] model_rounding(2) [OF assms(9) s]
    by (auto simp: toUnixNanoseconds_def split: if_splits)
qed

text \<open>
  C19 (functional). Conversion is monotone: a later SmartNIC time never maps to an earlier Unix time.
\<close>

theorem conversion_monotone:
  assumes "cal_reach cfg c" "0 \<le> maximum_drift_ppm cfg" "maximum_drift_ppm cfg \<le> 400000"
    "0 \<le> regression_window_ns cfg"
    and "toUnixNanoseconds c m1 = Inr t1" "toUnixNanoseconds c m2 = Inr t2" "m1 \<le> m2"
    "model_range (status c) m1" "model_range (status c) m2"
  shows "t1 \<le> t2"
  by (rule conversion_ascends [OF assms])

subsection \<open>Medians\<close>

lemma median_mset:
  assumes "mset xs = mset ys"
  shows "median xs = median ys"
proof -
  have "sort xs = sort ys"
    using assms by (intro properties_for_sort) simp_all
  moreover have "length xs = length ys" using assms by (metis size_mset)
  moreover have "xs = [] \<longleftrightarrow> ys = []" using assms by (metis mset_zero_iff)
  ultimately show ?thesis by (simp add: median_def)
qed

lemma sorted_rank_counts:
  assumes "sorted (zs :: int list)" "i < length zs"
  shows "Suc i \<le> length (filter (\<lambda>z. z \<le> zs ! i) zs)"
    and "length zs - i \<le> length (filter (\<lambda>z. zs ! i \<le> z) zs)"
proof -
  have split: "zs = take i zs @ zs ! i # drop (Suc i) zs" using assms(2) by (rule id_take_nth_drop)
  have lo: "\<forall>z \<in> set (take i zs). z \<le> zs ! i" and hi: "\<forall>z \<in> set (drop (Suc i) zs). zs ! i \<le> z"
    using assms by (auto simp: in_set_conv_nth sorted_nth_mono)
  have "length (filter (\<lambda>z. z \<le> zs ! i) (take i zs)) = i" using lo assms(2) by simp
  then show "Suc i \<le> length (filter (\<lambda>z. z \<le> zs ! i) zs)"
    by (subst (2) split) simp
  have "length (filter (\<lambda>z. zs ! i \<le> z) (drop (Suc i) zs)) = length zs - Suc i" using hi by simp
  then show "length zs - i \<le> length (filter (\<lambda>z. zs ! i \<le> z) zs)"
    by (subst (2) split) simp
qed

lemma filter_length_mset: "mset xs = mset ys \<Longrightarrow> length (filter P xs) = length (filter P ys)"
  by (metis mset_filter size_mset)

lemma filter_length_mono:
  "(\<And>z. P z \<Longrightarrow> Q z) \<Longrightarrow> length (filter P zs) \<le> length (filter Q zs)"
  by (induction zs) auto

text \<open>
  The median the calibration uses is one: at least half of the values are not above
  it and at least half are not below it, for odd and even counts.
\<close>

theorem median_halves:
  assumes "\<forall>v \<in> set vs. in_i64 v" "\<forall>v \<in> set vs. \<forall>w \<in> set vs. in_i64 (v - w)"
  shows "length vs \<le> 2 * length (filter (\<lambda>v. v \<le> median vs) vs) \<and>
    length vs \<le> 2 * length (filter (\<lambda>v. median vs \<le> v) vs)"
proof (cases "vs = []")
  case False
  let ?s = "sort vs"
  let ?m = "length vs div 2"
  have srt: "sorted ?s" "mset ?s = mset vs" "length ?s = length vs" by simp_all
  note eq = filter_length_mset [OF srt(2)]
  have m: "?m < length ?s" using False by simp
  note hi = sorted_rank_counts [OF srt(1) m]
  show ?thesis
  proof (cases "odd (length vs)")
    case True
    then have md: "median vs = ?s ! ?m" using False by (simp add: median_def)
    have "length vs \<le> 2 * Suc ?m" "length vs \<le> 2 * (length vs - ?m)" by presburger+
    then show ?thesis using hi by (simp add: md flip: eq)
  next
    case even: False
    have "length vs \<noteq> 0" using False by simp
    with even have pos: "0 < ?m" by presburger
    then have m1: "?m - 1 < length ?s" using m by linarith
    note lo = sorted_rank_counts [OF srt(1) m1]
    have le: "?s ! (?m - 1) \<le> ?s ! ?m" using sorted_nth_mono [OF srt(1), of "?m - 1" ?m] m by simp
    have mem: "?s ! (?m - 1) \<in> set vs" "?s ! ?m \<in> set vs"
      using nth_mem [OF m] nth_mem [OF m1] by simp_all
    have md: "median vs = midpoint (?s ! (?m - 1)) (?s ! ?m)" using False even by (simp add: median_def Let_def)
    have btw: "?s ! (?m - 1) \<le> median vs" "median vs \<le> ?s ! ?m"
      using midpoint_exact(2,3) [of "?s ! (?m - 1)" "?s ! ?m"] assms mem le by (simp_all add: md)
    have "Suc (?m - 1) \<le> length (filter (\<lambda>v. v \<le> median vs) ?s)"
      using lo(1) filter_length_mono [of "\<lambda>z. z \<le> ?s ! (?m - 1)" "\<lambda>z. z \<le> median vs" ?s] btw(1) by force
    moreover have "length ?s - ?m \<le> length (filter (\<lambda>v. median vs \<le> v) ?s)"
      using hi(2) filter_length_mono [of "\<lambda>z. ?s ! ?m \<le> z" "\<lambda>z. median vs \<le> z" ?s] btw(2) by force
    moreover have "2 * ?m = length vs" using even by simp
    ultimately show ?thesis using pos by (simp flip: eq)
  qed
qed simp

theorem median_halves_witness: "median [4, 1, 3, 10] = (3::int) \<and>
    4 \<le> 2 * length (filter (\<lambda>v. v \<le> median [4, 1, 3, 10]) [4, 1, 3, (10::int)])"
proof -
  have "median [4, 1, 3, 10] = (3::int)" by code_simp
  moreover have "4 \<le> 2 * length (filter (\<lambda>v. v \<le> median [4, 1, 3, 10]) [4, 1, 3, (10::int)])"
    using median_halves [of "[4, 1, 3, 10]"] by (simp add: in_i64_numeric del: filter.simps)
  ultimately show ?thesis ..
qed

subsection \<open>Start-up and updates\<close>

lemma startup_choice_least:
  assumes "std_sort srt" "x \<in> set (startup_choice srt cfg smps)"
    "y \<in># mset (filter (acceptable cfg) smps) - mset (startup_choice srt cfg smps)"
  shows "latency_ns x \<le> latency_ns y"
proof -
  let ?acc = "filter (acceptable cfg) smps"
  have "mset ?acc - mset (startup_choice srt cfg smps) =
      mset (drop kStartupBestSampleCount (srt latency_ns ?acc))"
    using std_sort.take_drop_srt [OF assms(1), of kStartupBestSampleCount latency_ns ?acc]
    by (metis add_diff_cancel_left' startup_choice_def)
  with assms(2,3) std_sort.take_srt_least [OF assms(1)] show ?thesis
    by (auto simp: startup_choice_def)
qed

lemma setOffsetModel_offset:
  assumes "smps \<noteq> []"
  shows "\<exists>best \<in> set smps. (\<forall>s \<in> set smps. latency_ns best \<le> latency_ns s) \<and>
    mac_origin_ns (setOffsetModel smps st) = ts_mac_ns best \<and>
    unix_origin_ns (setOffsetModel smps st) =
      s64 (ts_mac_ns best + median (map (\<lambda>s. s64 (unix_ns s - ts_mac_ns s)) smps))"
proof -
  obtain best where "min_element latency_ns smps = Some best" using min_element_ne [OF assms] by blast
  with min_element_Some [OF this] show ?thesis by (auto simp: setOffsetModel_def Let_def)
qed

text \<open>
  Start-up succeeds exactly when at least four samples are acceptable. It then keeps
  the eight of lowest latency (every acceptable sample left out is no better than any kept), in order
  of host time, and its offset is the median offset of the kept samples, anchored at the one of lowest
  latency. Otherwise the calibration is empty and not valid. Unacceptable samples are counted either way.
\<close>

lemma initialize_spec:
  assumes "std_sort srt" "initialize srt smps c = (ok, c')"
  shows "(let acc = filter (acceptable (cc_config c)) smps in
    ok = (4 \<le> length acc) \<and>
    rejected_samples (status c') = rejected_samples (status c) + (length smps - length acc) \<and>
    (if ok then
       length (samples c') = min 8 (length acc) \<and> sorted (map monotonic_ns (samples c')) \<and>
       (\<forall>x \<in> set (samples c'). \<forall>y \<in># mset acc - mset (samples c'). latency_ns x \<le> latency_ns y) \<and>
       (\<exists>best \<in> set (samples c'). (\<forall>x \<in> set (samples c'). latency_ns best \<le> latency_ns x) \<and>
          mac_origin_ns (status c') = ts_mac_ns best \<and>
          unix_origin_ns (status c') = s64 (ts_mac_ns best +
            median (map (\<lambda>x. s64 (unix_ns x - ts_mac_ns x)) (samples c'))))
     else samples c' = [] \<and> \<not> cal_valid (status c')))"
proof -
  let ?acc = "filter (acceptable (cc_config c)) smps"
  let ?best = "startup_choice srt (cc_config c) smps"
  note set_b = std_sort.set_srt [OF assms(1), of monotonic_ns ?best]
  have mset_b: "mset (srt monotonic_ns ?best) = mset ?best" by (rule std_sort.mset_srt [OF assms(1)])
  show ?thesis
  proof (cases "length ?acc < 4")
    case True
    with assms(2) show ?thesis
      by (auto simp: initialize_eq cal_reset_def zero_status_def Let_def)
  next
    case False
    have ne: "?best \<noteq> []" using startup_choice_length [OF assms(1), of "cc_config c" smps] False by auto
    define st where "st = zero_status\<lparr> rejected_samples := rejected_samples (status c) + (length smps - length ?acc) \<rparr>"
    have c': "ok" "samples c' = srt monotonic_ns ?best" "status c' = setOffsetModel ?best st"
      using assms(2) False by (auto simp: initialize_eq Let_def st_def)
    have med: "median (map f (srt monotonic_ns ?best)) = median (map f ?best)" for f
      by (rule median_mset) (simp add: mset_b)
    from setOffsetModel_offset [OF ne, of st] setOffsetModel_fields [OF ne, of st] False
    show ?thesis
      unfolding Let_def c'(2,3) med mset_b set_b
      using c'(1) startup_choice_length [OF assms(1)] startup_choice_least [OF assms(1)]
        std_sort.sorted_srt [OF assms(1)]
      by (auto simp: std_sort.length_srt [OF assms(1)] st_def)
  qed
qed

text \<open>
  A sample with a latency out of bounds or without a positive time changes nothing but the
  count of rejected samples.
\<close>

theorem addSample_rejects:
  assumes "\<not> acceptable (cc_config c) s"
  shows "addSample s c =
    (False, c\<lparr> status := (status c)\<lparr> rejected_samples := rejected_samples (status c) + 1 \<rparr> \<rparr>)"
  using assms by (simp add: addSample_eq)

text \<open>
  C33 (functional). A sample that shows a SmartNIC rollback, a host clock step or a model step restarts
  the calibration from itself: it becomes the only sample and both origins, the scale returns to one,
  and its own SmartNIC time converts to exactly its own Unix time.
\<close>

theorem addSample_restarts:
  assumes "acceptable (cc_config c) s" "cal_valid (status c)"
    and "macRollback s c \<or> hostClockStep s c \<or> modelStep s c"
    and "0 \<le> regression_window_ns (cc_config c)" "in_i64 (unix_ns s)"
  shows "\<exists>c'. addSample s c = (True, c') \<and> samples c' = [s] \<and>
    mac_origin_ns (status c') = ts_mac_ns s \<and> unix_origin_ns (status c') = unix_ns s \<and>
    scale (status c') = 1 \<and> cal_state (status c') = OffsetOnly \<and> \<not> drift_calibrated (status c') \<and>
    rejected_samples (status c') = rejected_samples (status c) + 1 \<and>
    toUnixNanoseconds c' (ts_mac_ns s) = Inr (unix_ns s)"
proof -
  have e: "samples (extended s c) = [s]" "mac_origin_ns (status (extended s c)) = ts_mac_ns s"
    "unix_origin_ns (status (extended s c)) = unix_ns s" "scale (status (extended s c)) = 1"
    "cal_state (status (extended s c)) = OffsetOnly" "\<not> drift_calibrated (status (extended s c))"
    "rejected_samples (status (extended s c)) = rejected_samples (status c) + 1"
    "cal_valid (status (extended s c))"
    using assms by (auto simp: extended_def trim_window_simps absorb_def cal_reset_def zero_status_def
        seed_model_def Let_def)
  have "model_time (status (extended s c)) (ts_mac_ns s) = unix_ns s"
    using assms(5) by (simp add: model_time_def e applyModel_unit_scale in_i64_def)
  with e assms(1) show ?thesis by (simp add: addSample_eq toUnixNanoseconds_def)
qed

text \<open>The model a calibration converts with, and the window of samples a fit would be made on.\<close>

definition model_of :: "ClockCalibration \<Rightarrow> i64 \<times> i64 \<times> rat" where
  "model_of c = (mac_origin_ns (status c), unix_origin_ns (status c), scale (status c))"

definition window_with :: "TimeSample \<Rightarrow> ClockCalibration \<Rightarrow> TimeSample list" where
  "window_with s c =
    dropWhile (\<lambda>x. s64 (monotonic_ns s - monotonic_ns x) > regression_window_ns (cc_config c)) (samples c @ [s])"

definition fit_is_due :: "TimeSample list \<Rightarrow> CalibrationConfig \<Rightarrow> bool" where
  "fit_is_due window cfg \<longleftrightarrow> 10 \<le> length window \<and>
     minimum_regression_span_ns cfg \<le> s64 (monotonic_ns (last window) - monotonic_ns (hd window))"

text \<open>A fit looks at the samples and the configuration only, and changes the model only if it succeeds.\<close>

lemma fit_cong:
  assumes "samples c = samples d" "cc_config c = cc_config d"
  shows "fst (fit c) = fst (fit d)" "fst (fit d) \<Longrightarrow> model_of (snd (fit c)) = model_of (snd (fit d))"
  using assms by (auto simp: fit_def model_of_def install_fit_def Let_def split: option.splits if_splits)

lemma fit_outcome:
  "samples (snd (fit c)) = samples c"
  "if fst (fit c) then cal_state (status (snd (fit c))) = Tracking else snd (fit c) = c"
  by (auto simp: fit_def install_fit_def Let_def split: option.splits if_splits)

text \<open>
  C34 (functional). Any other accepted sample agreed with the model to within the step threshold. It is taken into the window
  of samples, from which those older than the window are dropped. A fit is tried on that window exactly when it
  holds ten samples over the minimum span; the model becomes the fitted one exactly when that fit succeeds, and in
  every other case the model, its state and every conversion stay as they were.
\<close>

theorem addSample_extends:
  assumes "acceptable (cc_config c) s" "cal_valid (status c)"
    and "\<not> (macRollback s c \<or> hostClockStep s c \<or> modelStep s c)"
    and "window = window_with s c" "refit = fit (c\<lparr> samples := window \<rparr>)"
  shows "\<exists>c'. addSample s c = (True, c') \<and> samples c' = window \<and>
    last_mac_ns c < ts_mac_ns s \<and>
    llabs (s64 (model_time (status c) (ts_mac_ns s) - unix_ns s)) \<le> model_step_threshold_ns (cc_config c) \<and>
    (if fit_is_due window (cc_config c) \<and> fst refit
     then model_of c' = model_of (snd refit) \<and> cal_state (status c') = Tracking
     else model_of c' = model_of c \<and> cal_state (status c') = cal_state (status c) \<and>
       (\<forall>m. toUnixNanoseconds c' m = toUnixNanoseconds c m))"
proof -
  let ?e = "extended s c"
  have e: "samples ?e = window" "cc_config ?e = cc_config c" "model_of ?e = model_of c"
    "cal_state (status ?e) = cal_state (status c)"
    using assms by (auto simp: extended_def trim_window_simps absorb_def model_of_def window_with_def)
  have conv: "toUnixNanoseconds ?e m = toUnixNanoseconds c m" for m
    using assms(2) e(3) by (simp add: toUnixNanoseconds_def model_time_def model_of_def extended_fields)
  have add: "addSample s c = (True, if fit_is_due window (cc_config c) then snd (fit ?e) else ?e)"
    using assms(1) by (simp add: addSample_eq e(1,2) fit_is_due_def)
  have cong: "fst (fit ?e) = fst refit" "fst refit \<Longrightarrow> model_of (snd (fit ?e)) = model_of (snd refit)"
    unfolding assms(5) by (rule fit_cong; simp add: e(1,2))+
  have "last_mac_ns c < ts_mac_ns s"
    "llabs (s64 (model_time (status c) (ts_mac_ns s) - unix_ns s)) \<le> model_step_threshold_ns (cc_config c)"
    using assms(3) by (auto simp: macRollback_def modelStep_def)
  moreover note add
  ultimately show ?thesis
    using e conv cong fit_outcome [of ?e] by (cases "fit_is_due window (cc_config c)"; cases "fst refit") simp_all
qed

subsection \<open>The fit of a clock without drift\<close>

text \<open>
  Where every sample has the same distance between its two times, both coordinates of the line fit go
  through the same roundings, so the slope is exactly one whatever the rounding errors are.
\<close>

lemma ld_0 [simp]: "ld 0 = 0"
  by (simp add: ld_def)

lemma ld_0_iff [simp]: "ld x = 0 \<longleftrightarrow> x = 0"
  unfolding ld_def by (rule fl_eq_0_iff) simp

lemma ld_idem [simp]: "ld (ld x) = ld x"
  unfolding ld_def by (rule fl_idem) simp

lemma ld_nonneg: "0 \<le> x \<Longrightarrow> 0 \<le> ld x"
  unfolding ld_def by (rule fl_nonneg) simp_all

definition equidistant :: "TimeSample list \<Rightarrow> i64 \<Rightarrow> i64 \<Rightarrow> bool" where
  "equidistant smps mo uo \<longleftrightarrow> (\<forall>s \<in> set smps. ld_offset (unix_ns s) uo = ld_offset (ts_mac_ns s) mo)"

lemma line_sums_equal:
  assumes "equidistant smps mo uo"
  shows "snd (line_sums smps mo uo) = fst (line_sums smps mo uo)"
proof -
  have "equidistant smps mo uo \<Longrightarrow>
    snd (foldl (\<lambda>(a, b) s. (ld (a + ld_offset (ts_mac_ns s) mo), ld (b + ld_offset (unix_ns s) uo))) (a, a) smps) =
    fst (foldl (\<lambda>(a, b) s. (ld (a + ld_offset (ts_mac_ns s) mo), ld (b + ld_offset (unix_ns s) uo))) (a, a) smps)"
    for a by (induction smps arbitrary: a) (auto simp: equidistant_def)
  with assms show ?thesis by (simp add: line_sums_def)
qed

lemma products_fold:
  fixes mean :: rat
  assumes "equidistant smps mo uo" "0 \<le> a"
  defines "step \<equiv> \<lambda>(numerator, denominator) s.
        let x = ld (ld_offset (ts_mac_ns s) mo - mean);
            y = ld (ld_offset (unix_ns s) uo - mean)
        in (ld (numerator + ld (x * y)), ld (denominator + ld (x * x)))"
  shows "\<exists>b \<ge> 0. foldl step (a, a) smps = (b, b) \<and>
    (b = 0 \<longrightarrow> a = 0 \<and> (\<forall>s \<in> set smps. ld_offset (ts_mac_ns s) mo = mean))"
  using assms(1,2)
proof (induction smps arbitrary: a)
  case (Cons s smps)
  let ?x = "ld (ld_offset (ts_mac_ns s) mo - mean)"
  let ?a = "ld (a + ld (?x * ?x))"
  have st: "step (a, a) s = (?a, ?a)" using Cons.prems(1) by (simp add: step_def equidistant_def Let_def)
  have sq: "0 \<le> ld (?x * ?x)" by (rule ld_nonneg) simp
  then have "0 \<le> ?a" using Cons.prems(2) by (intro ld_nonneg) simp
  moreover have "equidistant smps mo uo" using Cons.prems(1) by (simp add: equidistant_def)
  ultimately obtain b where b: "0 \<le> b" "foldl step (?a, ?a) smps = (b, b)"
    "b = 0 \<longrightarrow> ?a = 0 \<and> (\<forall>s \<in> set smps. ld_offset (ts_mac_ns s) mo = mean)"
    using Cons.IH by blast
  have "?a = 0 \<longrightarrow> a = 0 \<and> ld_offset (ts_mac_ns s) mo = mean"
    using sq Cons.prems(2) by (auto simp: add_nonneg_eq_0_iff)
  with b show ?case by (intro exI [of _ b]) (auto simp: st)
qed auto

lemma fitLine_equidistant:
  assumes "equidistant smps mo uo" "s1 \<in> set smps" "s2 \<in> set smps"
    "ld_offset (ts_mac_ns s1) mo \<noteq> ld_offset (ts_mac_ns s2) mo"
  shows "fitLine smps mo uo = Some (1, s64 uo)"
proof -
  have len: "\<not> length smps < 2"
  proof
    assume "length smps < 2"
    then have "length smps = 0 \<or> length smps = 1" by linarith
    with assms(2-4) show False by (auto simp: length_Suc_conv)
  qed
  obtain sx where sx: "line_sums smps mo uo = (sx, sx)"
    using line_sums_equal [OF assms(1)] by (cases "line_sums smps mo uo") simp
  define mean where "mean = ld (sx / ld (of_nat (length smps)))"
  obtain b where b: "line_products smps mo uo mean mean = (b, b)"
      "b = 0 \<longrightarrow> (\<forall>s \<in> set smps. ld_offset (ts_mac_ns s) mo = mean)"
    using products_fold [OF assms(1), of 0 mean] unfolding line_products_def by auto
  with assms(2-4) have b0: "b \<noteq> 0" by metis
  have "ld 1 = 1" "dbl 1 = 1" using ld_of_int [of 1] fl_of_int [of 1 53] by (simp_all add: dbl_def)
  moreover have "dbl_finite 1" by (simp add: dbl_finite_def pow2_def)
  moreover have "ld mean = mean" by (simp add: mean_def)
  moreover have "llround 0 = 0" using llround_of_int [of 0] by (simp add: in_i64_def)
  moreover have "ld 0 = 0" by simp
  ultimately show ?thesis
    using len b0 by (simp add: fitLine_def sx Let_def b flip: mean_def)
qed

lemma median_zeros: "\<forall>v \<in> set vs. v = 0 \<Longrightarrow> median vs = 0"
proof (cases "vs = []")
  case False
  assume z: "\<forall>v \<in> set vs. v = 0"
  have "sort vs ! i = 0" if "i < length vs" for i
    using z nth_mem [of i "sort vs"] that by simp
  moreover have "length vs div 2 < length vs" "length vs div 2 - 1 < length vs"
    using False by (auto intro: less_imp_diff_less)
  ultimately show ?thesis using False by (simp add: median_def midpoint_def Let_def)
qed (simp add: median_def)

lemma select_all: 
  assumes "length cs = length rs" "\<forall>r \<in> set rs. r = 0"
  shows "select_inliers cs rs = cs"
proof -
  have m: "median rs = 0" using assms(2) by (rule median_zeros)
  have d: "map (\<lambda>r. llabs (s64 (r - 0))) rs = map (\<lambda>_. 0) rs"
    using assms(2) by (auto simp: llabs_def)
  have "median (map (\<lambda>_. 0) rs) = 0" by (rule median_zeros) simp
  moreover have "filter (\<lambda>(s, d). d \<le> (50000::int)) (zip cs (map (\<lambda>_. 0) rs)) = zip cs (map (\<lambda>_. 0) rs)"
    by (auto simp: filter_id_conv elim!: in_set_zipE)
  ultimately show ?thesis
    unfolding select_inliers_def Let_def m d using assms(1) by simp
qed

text \<open>
  C35 (equivalence). On a clock that does not drift the fit is exact: for samples that are all the same
  distance apart on the two clocks, it keeps every sample, has the scale one and residual zero, and the
  fitted model converts every time by adding that distance.
\<close>

theorem fit_without_drift:
  assumes "4 \<le> length (samples c)" "0 \<le> maximum_drift_ppm (cc_config c)"
    and "\<forall>s \<in> set (samples c). 0 \<le> ts_mac_ns s \<and> ts_mac_ns s < 2 ^ 62 \<and>
      0 \<le> unix_ns s \<and> unix_ns s < 2 ^ 62 \<and> unix_ns s = ts_mac_ns s + gap"
    and "s1 \<in> set (samples c)" "s2 \<in> set (samples c)" "ts_mac_ns s1 \<noteq> ts_mac_ns s2"
  shows "\<exists>c'. fit c = (True, c') \<and> scale (status c') = 1 \<and> median_residual_ns (status c') = 0 \<and>
    sample_count (status c') = length (samples c) \<and> cal_state (status c') = Tracking \<and>
    (\<forall>m. 0 \<le> m \<and> m < 2 ^ 62 \<and> 0 \<le> m + gap \<and> m + gap < 2 ^ 62 \<longrightarrow> model_time (status c') m = m + gap)"
proof -
  let ?h = "hd (samples c)"
  let ?mo = "ts_mac_ns ?h" and ?uo = "unix_ns ?h"
  have h: "?h \<in> set (samples c)" using assms(1) by (intro hd_in_set) auto
  have hr: "0 \<le> ?mo" "?mo < 2 ^ 62" "0 \<le> ?uo" "?uo < 2 ^ 62" "?uo = ?mo + gap"
    using assms(3) h by blast+
  have rng: "in_i64 (m - ?mo)" "in_i64 (m - ?uo)" if "0 \<le> m" "m < 2 ^ 62" for m
    using hr that by (auto simp: in_i64_def)
  have off: "ld_offset (unix_ns s) ?uo = ld_offset (ts_mac_ns s) ?mo \<and>
      ld_offset (ts_mac_ns s) ?mo = of_int (ts_mac_ns s - ?mo)"
    if "s \<in> set (samples c)" for s
  proof -
    have s: "0 \<le> ts_mac_ns s" "ts_mac_ns s < 2 ^ 62" "0 \<le> unix_ns s" "unix_ns s < 2 ^ 62"
        "unix_ns s = ts_mac_ns s + gap"
      using assms(3) that by blast+
    have "unix_ns s - ?uo = ts_mac_ns s - ?mo" using s(5) hr(5) by linarith
    with ld_offset_exact [OF rng(1) [OF s(1,2)]] ld_offset_exact [OF rng(2) [OF s(3,4)]]
    show ?thesis by (simp del: of_int_diff)
  qed
  have eq: "equidistant (samples c) ?mo ?uo" using off by (simp add: equidistant_def)
  have uo: "s64 ?uo = ?uo" using assms(3) h by (intro s64_id) (auto simp: in_i64_def)
  have fl: "fitLine (samples c) ?mo ?uo = Some (1, ?uo)"
    using fitLine_equidistant [OF eq assms(4,5)] off assms(4-6) by (simp add: uo)
  have app: "applyModel m ?mo ?uo 1 = m + gap"
    if "0 \<le> m" "m < 2 ^ 62" "0 \<le> m + gap" "m + gap < 2 ^ 62" for m
  proof -
    have u: "?uo + (m - ?mo) = m + gap" using assms(3) h by auto
    then have "in_i64 (?uo + (m - ?mo))" using that by (simp add: in_i64_def)
    from applyModel_unit_scale [OF rng(1) [OF that(1,2)] this] show ?thesis by (simp only: u)
  qed
  have res: "\<forall>r \<in> set (residuals_of (samples c) ?mo ?uo 1). r = 0"
    using assms(3) app by (auto simp: residuals_of_def)
  have inl: "select_inliers (samples c) (residuals_of (samples c) ?mo ?uo 1) = samples c"
    by (rule select_all [OF _ res]) (simp add: residuals_of_def)
  have "fit c = (True, install_fit (samples c) 1 ?uo c)"
    using assms(1,2) by (simp add: fit_def Let_def fl inl dbl_def)
  moreover have "median (map llabs (residuals_of (samples c) ?mo ?uo 1)) = 0"
    by (rule median_zeros) (use res in \<open>auto simp: llabs_def\<close>)
  ultimately show ?thesis using app by (auto simp: install_fit_def model_time_def)
qed

subsection \<open>A worked calibration\<close>

text \<open>Four start-up samples a millisecond apart, as the test program generates them.\<close>

definition sample_at :: "i64 \<Rightarrow> i64 \<Rightarrow> TimeSample" where
  "sample_at elapsed lat = \<lparr> ts_mac_ns = 2000000000000 + elapsed,
     unix_ns = 1780000000000000000 + elapsed, monotonic_ns = 500000000000 + elapsed, latency_ns = lat \<rparr>"

definition startup_samples :: "TimeSample list" where
  "startup_samples = [sample_at 0 50000, sample_at 1000000 60000, sample_at 2000000 70000,
     sample_at 3000000 80000]"

definition started :: ClockCalibration where
  "started = snd (initialize (\<lambda>k xs. sort_key k xs) startup_samples
     (new_ClockCalibration default_calibration_config))"

lemma initialize_started:
  "initialize (\<lambda>k xs. sort_key k xs) startup_samples (new_ClockCalibration default_calibration_config) =
    (True, started)"
proof -
  have "fst (initialize (\<lambda>k xs. sort_key k xs) startup_samples
      (new_ClockCalibration default_calibration_config))" by code_simp
  then show ?thesis by (simp add: started_def prod_eq_iff)
qed

lemma started_reach: "cal_reach default_calibration_config started"
  by (rule cal_reach.reach_init [OF cal_reach.reach_new stable.std_sort_axioms initialize_started])

lemma started_fields:
  "samples started = startup_samples" "cc_config started = default_calibration_config"
  "status started = \<lparr> mac_origin_ns = 2000000000000, unix_origin_ns = 1780000000000000000,
     minimum_latency_ns = 50000, median_residual_ns = 0, scale = 1, sample_count = 4,
     rejected_samples = 0, accepted_samples = 4, cs_duplicate_states = 0, cs_invalid_observations = 0,
     cs_rejected_transitions = 0, cs_host_clock_steps = 0, cs_device_resets = 0,
     latest_uncertainty_ns = 0, sample_span_ns = 0, cal_state = OffsetOnly, cal_valid = True,
     drift_calibrated = False \<rparr>"
  "last_mac_ns started = 2000003000000" "last_unix_ns started = 1780000000003000000"
  "last_monotonic_ns started = 500003000000"
  by code_simp+

lemma started_convert:
  "toUnixNanoseconds started 2000500000000 = Inr 1780000000500000000"
  "toUnixNanoseconds started 2000500000001 = Inr 1780000000500000001"
  by code_simp+

lemma config_ranges:
  "0 \<le> regression_window_ns default_calibration_config" "0 \<le> maximum_drift_ppm default_calibration_config"
  "maximum_drift_ppm default_calibration_config \<le> 400000"
  by (simp_all add: default_calibration_config_def)

theorem cal_reach_inv_witness: "cal_inv started"
  using cal_reach_inv [OF started_reach config_ranges(1)] by blast

theorem cal_reach_drift_bound_witness: "\<bar>scale (status started) - 1\<bar> \<le> 1000 / 999999"
  using cal_reach_drift_bound [OF started_reach config_ranges(2,1)]
  by (simp add: default_calibration_config_def)

theorem offset_model_exact_witness:
  "(1780000000500000000 :: int) = unix_origin_ns (status started) + (2000500000000 - mac_origin_ns (status started))"
  by (rule offset_model_exact [OF started_reach config_ranges(1) _ started_convert(1)])
    (simp_all add: started_fields in_i64_def)

theorem conversion_error_bound_witness:
  "\<bar>rat_of_int (1780000000500000000 - (unix_origin_ns (status started) +
      (2000500000000 - mac_origin_ns (status started))))\<bar> \<le> 500000000 * (1000 / 999999) + 1"
  using conversion_error_bound [OF started_reach config_ranges(2,3,1) started_convert(1)]
  by (simp add: model_range_def started_fields default_calibration_config_def)

theorem conversion_monotone_witness: "(1780000000500000000 :: int) \<le> 1780000000500000001"
  by (rule conversion_monotone [OF started_reach config_ranges(2,3,1) started_convert])
    (simp_all add: model_range_def started_fields)

theorem addSample_rejects_witness:
  "fst (addSample (sample_at 4000000 900000) started) = False"
  by (subst addSample_rejects)
    (simp_all add: acceptable_def started_fields default_calibration_config_def sample_at_def)

theorem addSample_restarts_witness:
  "\<exists>c'. addSample (sample_at (- 1) 50000) started = (True, c') \<and>
    toUnixNanoseconds c' 1999999999999 = Inr 1779999999999999999"
  using addSample_restarts [of started "sample_at (- 1) 50000"]
  by (auto simp: acceptable_def started_fields default_calibration_config_def sample_at_def
      macRollback_def in_i64_def)

theorem addSample_extends_witness:
  "\<exists>c'. addSample (sample_at 4000000 50000) started = (True, c') \<and> length (samples c') = 5 \<and>
    model_of c' = model_of started \<and> toUnixNanoseconds c' 2000500000000 = Inr 1780000000500000000"
proof -
  let ?s = "sample_at 4000000 50000"
  have "\<not> (macRollback ?s started \<or> hostClockStep ?s started \<or> modelStep ?s started)" by code_simp
  moreover have "acceptable (cc_config started) ?s" "cal_valid (status started)"
    by (simp_all add: acceptable_def started_fields default_calibration_config_def sample_at_def)
  ultimately obtain c' where "addSample ?s started = (True, c')" "samples c' = window_with ?s started"
    and c': "if fit_is_due (window_with ?s started) (cc_config started) \<and>
        fst (fit (started\<lparr> samples := window_with ?s started \<rparr>))
      then model_of c' = model_of (snd (fit (started\<lparr> samples := window_with ?s started \<rparr>))) \<and> cal_state (status c') = Tracking
      else model_of c' = model_of started \<and> cal_state (status c') = cal_state (status started) \<and>
        (\<forall>m. toUnixNanoseconds c' m = toUnixNanoseconds started m)"
    using addSample_extends [of started ?s, OF _ _ _ refl refl] by blast
  moreover have w: "length (window_with ?s started) = 5" by code_simp
  then have "\<not> fit_is_due (window_with ?s started) (cc_config started)" by (simp add: fit_is_due_def)
  ultimately show ?thesis using w started_convert(1) by auto
qed

theorem fit_without_drift_witness:
  "\<exists>c'. fit started = (True, c') \<and> cal_state (status c') = Tracking \<and>
    model_time (status c') 2000500000000 = 1780000000500000000"
proof -
  have "\<forall>s \<in> set (samples started). 0 \<le> ts_mac_ns s \<and> ts_mac_ns s < 2 ^ 62 \<and>
      0 \<le> unix_ns s \<and> unix_ns s < 2 ^ 62 \<and> unix_ns s = ts_mac_ns s + 1779998000000000000"
    by (simp add: started_fields startup_samples_def sample_at_def)
  from fit_without_drift [OF _ _ this, of "sample_at 0 50000" "sample_at 1000000 60000"]
  show ?thesis
    by (auto simp: started_fields startup_samples_def sample_at_def default_calibration_config_def)
qed

text \<open>
  The two-read composition of a MAC time accepts exactly a stable second count with
  nanoseconds below one second, and its 64-bit result is the exact time.
\<close>

theorem composeAtomicMacTime_exact:
  "composeAtomicMacTime sb ns sa =
    (if sb = sa \<and> uint ns < 1000000000 then Some (uint sa * 1000000000 + uint ns) else None)"
  by (simp add: composeAtomicMacTime_def nanos_valid_def kNanosecondsPerSecond_def mac_ns_exact)

end
