(* ===== verification/Time_Adjuster.thy ===== *)
theory Time_Adjuster
  imports Clock_Sampler Clock_Calibration
begin

text \<open>
  \<^verbatim>\<open>TimeAdjuster\<close> (\<^verbatim>\<open>src/Time.cpp\<close>): owns the clock state reader, the sampler and the calibration, fills
  the calibration at start-up and refreshes it once per tick. The POSIX clocks, the steady clock and
  sleeping are calls on the outside world, collected in the record \<open>host\<close> together with the SDK calls.
\<close>

subsection \<open>The host\<close>

text \<open>\<^verbatim>\<open>clock_gettime\<close> returns seconds and nanoseconds, or fails.\<close>

record 'w host =
  host_api :: "'w nfp_api"
  gettime_realtime :: "'w \<Rightarrow> (i64 \<times> i64) option \<times> 'w"
  gettime_monotonic_raw :: "'w \<Rightarrow> (i64 \<times> i64) option \<times> 'w"
  steady_now :: "'w \<Rightarrow> i64 \<times> 'w"
  sleep_ns :: "i64 \<Rightarrow> 'w \<Rightarrow> 'w"
  sleep_until :: "i64 \<Rightarrow> 'w \<Rightarrow> 'w"
  can_allocate :: "int \<Rightarrow> 'w \<Rightarrow> bool"

definition clockNanoseconds :: "(i64 \<times> i64) option \<times> 'w \<Rightarrow> i64 outcome \<times> 'w" where
  "clockNanoseconds r = (case r of
     (None, w) \<Rightarrow> (Inl (runtime_error ''clock_gettime failed during time calibration''), w)
   | (Some (tv_sec, tv_nsec), w) \<Rightarrow> (Inr (s64 (s64 (tv_sec * kNanosecondsPerSecond) + tv_nsec)), w))"

definition adjuster_source :: "'w host \<Rightarrow> (MacClockReader, 'w) clock_source" where
  "adjuster_source host = \<lparr> src_read = readState (host_api host),
     src_realtime = (\<lambda>w. clockNanoseconds (gettime_realtime host w)),
     src_monotonic = (\<lambda>w. clockNanoseconds (gettime_monotonic_raw host w)) \<rparr>"

subsection \<open>State\<close>

record TimeAdjusterConfig =
  mac_time_symbol :: string
  startup_sample_count :: nat
  startup_best_sample_count :: nat
  refresh_burst_size :: nat
  maximum_sample_uncertainty_ns :: i64
  ta_calibration :: CalibrationConfig
  startup_timeout_ms :: i64
  startup_poll_interval_us :: i64

definition default_adjuster_config :: TimeAdjusterConfig where
  "default_adjuster_config = \<lparr> mac_time_symbol = ''mac_time'', startup_sample_count = 64,
     startup_best_sample_count = 8, refresh_burst_size = 8, maximum_sample_uncertainty_ns = 800000,
     ta_calibration = default_calibration_config, startup_timeout_ms = 2000,
     startup_poll_interval_us = 1000 \<rparr>"

record TimeAdjuster =
  ta_cpp :: nfp_cpp
  ta_config :: TimeAdjusterConfig
  ta_reader :: MacClockReader
  ta_sampler :: ClockSampler
  calibration :: ClockCalibration
  status_cache :: CalibrationStatus

subsection \<open>Collecting samples\<close>

text \<open>
  The loop runs until it has enough samples or the deadline has passed; \<^const>\<open>None\<close> is a loop that
  never ends. An exception of a clock ends it. Room for the samples is reserved first, which may throw.
\<close>

definition gathered :: "PublicationSample list \<Rightarrow> PublicationSample option \<Rightarrow> PublicationSample list" where
  "gathered acc x = (case x of None \<Rightarrow> acc | Some p \<Rightarrow> acc @ [p])"

definition pause_between ::
  "'w host \<Rightarrow> i64 \<Rightarrow> nat \<Rightarrow> bool \<Rightarrow> PublicationSample list \<Rightarrow> 'w \<Rightarrow> 'w" where
  "pause_between host interval_ns wanted pause acc w =
    (if pause \<and> length acc < wanted then sleep_ns host interval_ns w else w)"

partial_function (option) collect_loop ::
  "'w host \<Rightarrow> i64 \<Rightarrow> nat \<Rightarrow> i64 \<Rightarrow> bool \<Rightarrow> PublicationSample list \<Rightarrow> ClockSampler \<Rightarrow>
    MacClockReader \<Rightarrow> 'w \<Rightarrow>
    ((PublicationSample list \<times> ClockSampler \<times> MacClockReader) outcome \<times> 'w) option" where
  "collect_loop host interval_ns wanted deadline pause acc s r w =
    (if wanted \<le> length acc then Some (Inr (acc, s, r), w)
     else case steady_now host w of (now, w) \<Rightarrow>
       if deadline \<le> now then Some (Inr (acc, s, r), w)
       else case poll (adjuster_source host) s r w of
         (Inl e, w) \<Rightarrow> Some (Inl e, w)
       | (Inr (x, s, r), w) \<Rightarrow>
          collect_loop host interval_ns wanted deadline pause (gathered acc x) s r
            (pause_between host interval_ns wanted pause (gathered acc x) w))"

declare collect_loop.simps [code]

text \<open>
  \<^verbatim>\<open>samples.reserve(count)\<close>: the exception it throws, if any. The six 64-bit and three 32-bit fields of a sample
  take 64 bytes, and a vector never holds more than \<open>2 ^ 63 - 1\<close> bytes.
\<close>

definition sizeof_PublicationSample :: int where "sizeof_PublicationSample = 64"

definition vector_max_size :: int where "vector_max_size = (2 ^ 63 - 1) div sizeof_PublicationSample"

definition reserve_samples :: "'w host \<Rightarrow> nat \<Rightarrow> 'w \<Rightarrow> exn option" where
  "reserve_samples host n w =
    (if vector_max_size < int n then Some (length_error ''vector::reserve'')
     else if 0 < n \<and> \<not> can_allocate host (sizeof_PublicationSample * int n) w then Some bad_alloc
     else None)"

definition collectPublicationSamples ::
  "'w host \<Rightarrow> TimeAdjusterConfig \<Rightarrow> nat \<Rightarrow> i64 \<Rightarrow> bool \<Rightarrow> ClockSampler \<Rightarrow> MacClockReader \<Rightarrow> 'w \<Rightarrow>
    ((PublicationSample list \<times> ClockSampler \<times> MacClockReader) outcome \<times> 'w) option" where
  "collectPublicationSamples host cfg wanted deadline pauseBetweenPolls s r w =
    (case reserve_samples host wanted w of
       Some ex \<Rightarrow> Some (Inl ex, w)
     | None \<Rightarrow> collect_loop host (startup_poll_interval_us cfg * 1000) wanted deadline pauseBetweenPolls [] s r w)"

lemma collect_reserved:
  "collectPublicationSamples host cfg wanted deadline pause s r w = Some (Inr res, w') \<Longrightarrow>
    collect_loop host (startup_poll_interval_us cfg * 1000) wanted deadline pause [] s r w = Some (Inr res, w')"
  by (simp add: collectPublicationSamples_def split: option.splits)

definition toTimeSample :: "PublicationSample \<Rightarrow> TimeSample" where
  "toTimeSample p = \<lparr> ts_mac_ns = smartnic_ns p, unix_ns = host_realtime_ns p,
     monotonic_ns = host_monotonic_ns p, latency_ns = uncertainty_ns p \<rparr>"

subsection \<open>Operations\<close>

definition mergeSamplerStatus :: "TimeAdjuster \<Rightarrow> TimeAdjuster" where
  "mergeSamplerStatus ta =
    (let c = sampler_counters (ta_sampler ta) in
     ta\<lparr> status_cache := (status_cache ta)\<lparr> accepted_samples := accepted_transitions c,
       cs_duplicate_states := duplicate_states c,
       cs_invalid_observations := invalid_observations c,
       cs_rejected_transitions := rejected_transitions c,
       cs_host_clock_steps := host_clock_steps c,
       cs_device_resets := device_resets c \<rparr> \<rparr>)"

definition initializeFromPublicationSamples ::
  "TimeSample sorter \<Rightarrow> PublicationSample list \<Rightarrow> TimeAdjuster \<Rightarrow> bool \<times> TimeAdjuster" where
  "initializeFromPublicationSamples srt ps ta =
    (let ta = ta\<lparr> status_cache := foldl (\<lambda>st p. st\<lparr> latest_uncertainty_ns := uncertainty_ns p \<rparr>)
           (status_cache ta) ps \<rparr>;
         timeSamples = srt latency_ns (map toTimeSample ps);
         timeSamples = (if length timeSamples > startup_best_sample_count (ta_config ta)
           then take (startup_best_sample_count (ta_config ta)) timeSamples else timeSamples)
     in case initialize srt timeSamples (calibration ta) of
       (ok, cal) \<Rightarrow> (ok, ta\<lparr> calibration := cal \<rparr>))"

definition calibration_failed :: exn where
  "calibration_failed = runtime_error ''Unable to calibrate SmartNIC clock from exported mac_time publications before startup timeout''"

definition new_TimeAdjuster ::
  "'w host \<Rightarrow> TimeSample sorter \<Rightarrow> nfp_cpp option \<Rightarrow> nfp_rtsym option \<Rightarrow> TimeAdjusterConfig \<Rightarrow> 'w \<Rightarrow>
    (TimeAdjuster outcome \<times> 'w) option" where
  "new_TimeAdjuster host srt cpp macTimeSymbol cfg w =
    (case cpp of
       None \<Rightarrow> Some (Inl (invalid_argument ''TimeAdjuster requires a valid CPP handle''), w)
     | Some cpp' \<Rightarrow>
    (case new_MacClockReader (host_api host) cpp macTimeSymbol (mac_time_symbol cfg) sizeof_MacTimeStateHost of
       Inl e \<Rightarrow> Some (Inl e, w)
     | Inr reader \<Rightarrow>
    (case steady_now host w of (now, w) \<Rightarrow>
    (case collectPublicationSamples host cfg (startup_sample_count cfg)
        (s64 (now + s64 (startup_timeout_ms cfg * 1000000))) True
        (new_ClockSampler (maximum_sample_uncertainty_ns cfg)) reader w of
       None \<Rightarrow> None
     | Some (Inl e, w) \<Rightarrow> Some (Inl e, w)
     | Some (Inr (ps, sampler, reader), w) \<Rightarrow>
       let ta = \<lparr> ta_cpp = cpp', ta_config = cfg, ta_reader = reader, ta_sampler = sampler,
             calibration = new_ClockCalibration (ta_calibration cfg), status_cache = zero_status \<rparr>
       in case initializeFromPublicationSamples srt ps ta of (ok, ta) \<Rightarrow>
          if \<not> ok then Some (Inl calibration_failed, w)
          else Some (Inr (mergeSamplerStatus ta), w)))))"

definition refresh ::
  "'w host \<Rightarrow> TimeAdjuster \<Rightarrow> 'w \<Rightarrow> ((bool \<times> TimeAdjuster) outcome \<times> 'w) option" where
  "refresh host ta w =
    (case steady_now host w of (now, w) \<Rightarrow>
    (case collectPublicationSamples host (ta_config ta) (refresh_burst_size (ta_config ta))
        (s64 (now + 100 * 1000000)) False (ta_sampler ta) (ta_reader ta) w of
       None \<Rightarrow> None
     | Some (Inl e, w) \<Rightarrow> Some (Inl e, w)
     | Some (Inr (ps, sampler, reader), w) \<Rightarrow>
       let ta = ta\<lparr> ta_sampler := sampler, ta_reader := reader \<rparr>
       in case min_element uncertainty_ns ps of
         None \<Rightarrow> Some (Inr (False, mergeSamplerStatus ta), w)
       | Some best \<Rightarrow>
         (case addSample (toTimeSample best) (calibration ta) of (accepted, cal) \<Rightarrow>
            Some (Inr (accepted, mergeSamplerStatus (ta\<lparr> calibration := cal \<rparr>)), w))))"

definition adjuster_toUnixNanoseconds :: "TimeAdjuster \<Rightarrow> u32 \<Rightarrow> u32 \<Rightarrow> i64 outcome" where
  "adjuster_toUnixNanoseconds ta sec nsec =
    (if \<not> nanos_valid nsec then Inl (invalid_argument ''SmartNIC timestamp nanoseconds are invalid'')
     else toUnixNanoseconds (calibration ta) (mac_ns sec nsec))"

definition adjuster_status :: "TimeAdjuster \<Rightarrow> CalibrationStatus" where
  "adjuster_status ta =
    (let st = (status (calibration ta))\<lparr>
           cs_duplicate_states := cs_duplicate_states (status_cache ta),
           cs_invalid_observations := cs_invalid_observations (status_cache ta),
           cs_rejected_transitions := cs_rejected_transitions (status_cache ta),
           cs_host_clock_steps := cs_host_clock_steps (status_cache ta),
           cs_device_resets := cs_device_resets (status_cache ta),
           latest_uncertainty_ns := latest_uncertainty_ns (status_cache ta) \<rparr>
     in if \<not> cal_valid st \<and> cal_state (status_cache ta) = Degraded
        then st\<lparr> cal_state := Degraded \<rparr> else st)"

subsection \<open>What collecting samples returns\<close>

lemma settle_limit:
  assumes "settle b ob s = (x, s')"
  shows "maximumUncertaintyNs s' = maximumUncertaintyNs s"
  using assms
  by (auto simp: settle_def judge_observation_def check_host_step_def sampler_reset_def Let_def
      split: if_splits option.splits)

lemma poll_limit:
  assumes "poll src s r w = (Inr (x, s', r'), w')"
  shows "maximumUncertaintyNs s' = maximumUncertaintyNs s"
  using assms by (cases rule: poll_cases) (auto dest: settle_limit)

text \<open>A relation between samples, sampler and reader that every poll keeps holds at the end.\<close>

lemma collect_loop_inv:
  assumes step: "\<And>acc s r w x s' r' w'. I acc s r \<Longrightarrow> length acc < wanted \<Longrightarrow>
      poll (adjuster_source host) s r w = (Inr (x, s', r'), w') \<Longrightarrow>
      I (gathered acc x) s' r'"
    and run: "collect_loop host interval_ns wanted deadline pause acc s r w = Some (Inr (ps, s', r'), w')"
    and "I acc s r"
  shows "I ps s' r'"
proof -
  define P where "P = (\<lambda>(h :: 'a host) (i :: i64) n (d :: i64) (b :: bool) acc s r (w :: 'a) (res :: (PublicationSample list \<times> ClockSampler \<times> MacClockReader) outcome \<times> 'a).
     h = host \<longrightarrow> n = wanted \<longrightarrow> I acc s r \<longrightarrow>
     (\<forall>ps s' r' w'. res = (Inr (ps, s', r'), w') \<longrightarrow> I ps s' r'))"
  have "P host interval_ns wanted deadline pause acc s r w (Inr (ps, s', r'), w')"
  proof (rule collect_loop.raw_induct [OF _ run], goal_cases)
    case (1 loop host' i n d b acc s r w y)
    show ?case
      unfolding P_def
    proof (intro impI allI)
      fix ps s' r' w'
      assume e: "host' = host" "n = wanted" and i: "I acc s r" and y: "y = (Inr (ps, s', r'), w')"
      show "I ps s' r'"
      proof (cases "wanted \<le> length acc \<or> d \<le> fst (steady_now host w)")
        case True
        with 1(2) i y e show ?thesis by (auto split: prod.splits if_splits)
      next
        case False
        obtain now w1 where now: "steady_now host w = (now, w1)" by (cases "steady_now host w")
        obtain z w2 where pl: "poll (adjuster_source host) s r w1 = (z, w2)"
          by (cases "poll (adjuster_source host) s r w1")
        show ?thesis
        proof (cases z)
          case (Inl ex)
          with 1(2) False y e now pl show ?thesis by simp
        next
          case (Inr t)
          obtain x s1 r1 where t: "t = (x, s1, r1)" by (cases t)
          let ?acc = "gathered acc x"
          from step [OF i _ pl [unfolded Inr t]] False have i': "I ?acc s1 r1" by simp
          from 1(2) False y e now pl Inr t
          obtain w3 where "loop host i wanted d b ?acc s1 r1 w3 = Some (Inr (ps, s', r'), w')"
            by (auto simp: Let_def)
          from 1(1) [OF this] i' show ?thesis by (simp add: P_def)
        qed
      qed
    qed
  qed
  with assms(3) show ?thesis by (simp add: P_def)
qed


text \<open>What the collected samples and the state they leave behind have in common.\<close>

definition series :: "nat \<Rightarrow> i64 \<Rightarrow> PublicationSample list \<Rightarrow> ClockSampler \<Rightarrow> MacClockReader \<Rightarrow> bool" where
  "series wanted limit ps s r \<longleftrightarrow>
     length ps \<le> wanted \<and> maximumUncertaintyNs s = limit \<and> linked reader_last s r \<and>
     sorted_wrt (<) (map smartnic_ns ps) \<and>
     (\<forall>p \<in> set ps. uncertainty_ns p \<le> limit \<and>
       (\<forall>ob. lastObservation s = Some ob \<longrightarrow> smartnic_ns p \<le> state_ns (obs_state ob)) \<and>
       (\<exists>t. reader_last r = Some t \<and> smartnic_ns p \<le> t))"

lemma series_Nil: "linked reader_last s r \<Longrightarrow> series wanted (maximumUncertaintyNs s) [] s r"
  by (simp add: series_def)

context clock_state_reader
begin

text \<open>A bound that held of the remembered times before a poll holds of them after it.\<close>

lemma settle_bound:
  assumes rd: "read r w = (ob, r', w')" and st: "settle b ob s = (x, s')"
    and "\<forall>o'. lastObservation s = Some o' \<longrightarrow> t0 \<le> state_ns (obs_state o')"
    and "\<exists>t. last_ns r = Some t \<and> t0 \<le> t"
  shows "(\<forall>o'. lastObservation s' = Some o' \<longrightarrow> t0 \<le> state_ns (obs_state o')) \<and>
    (\<exists>t. last_ns r' = Some t \<and> t0 \<le> t)"
proof -
  have v: "valid ob \<Longrightarrow> t0 \<le> state_ns (obs_state ob) \<and> last_ns r' = Some (state_ns (obs_state ob))"
    using read_valid [OF rd] assms(4) by force
  have "\<exists>t. last_ns r' = Some t \<and> t0 \<le> t"
    using v read_invalid [OF rd] assms(4) by (cases "valid ob") auto
  moreover have "t0 \<le> state_ns (obs_state o')" if "lastObservation s' = Some o'" for o'
    using settle_last [OF st that] assms(3) v by auto
  ultimately show ?thesis by blast
qed

end

lemma series_step:
  assumes ser: "series wanted limit ps s r" and len: "length ps < wanted"
    and pl: "poll (adjuster_source host) s r w = (Inr (x, s', r'), w')"
  shows "series wanted limit (gathered ps x) s' r'"
  using pl
proof (cases rule: poll_cases)
  case (1 rb mb ma ra ob w1 w2 w3 w4)
  let ?s = "tally observations_update s"
  have rd: "readState (host_api host) r w2 = (ob, r', w3)"
    using 1(3) by (simp add: adjuster_source_def)
  have lk: "linked reader_last s' r'"
    using ser by (intro mac.linked_settle [OF rd _ 1(6)]) (simp add: series_def)
  have lim: "maximumUncertaintyNs s' = limit"
    using poll_limit [OF pl] ser by (simp add: series_def)
  have old: "(\<forall>o'. lastObservation s' = Some o' \<longrightarrow> smartnic_ns p \<le> state_ns (obs_state o')) \<and>
      (\<exists>t. reader_last r' = Some t \<and> smartnic_ns p \<le> t)" if "p \<in> set ps" for p
    using ser that by (intro mac.settle_bound [OF rd 1(6)]) (auto simp: series_def)
  show ?thesis
  proof (cases x)
    case None
    with ser lk lim old show ?thesis by (auto simp: series_def gathered_def)
  next
    case (Some p)
    obtain prev ob' where p: "lastObservation s = Some prev" "lastObservation s' = Some ob'"
        "state_ns (obs_state prev) < smartnic_ns p" "smartnic_ns p = state_ns (obs_state ob')"
        "uncertainty_ns p \<le> limit"
      using poll_sample_spec [OF pl [unfolded Some]] ser by (auto simp: series_def)
    have "\<forall>q \<in> set ps. smartnic_ns q < smartnic_ns p"
      using ser p(1,3) by (fastforce simp: series_def)
    moreover have "\<exists>t. reader_last r' = Some t \<and> smartnic_ns p \<le> t"
      using lk p(2,4) by (auto simp: linked_def)
    ultimately show ?thesis
      using ser lk lim old len p(2,4,5) Some by (auto simp: series_def gathered_def sorted_wrt_append)
  qed
qed

lemma collect_series:
  assumes "collectPublicationSamples host cfg wanted deadline pause s r w = Some (Inr (ps, s', r'), w')"
    and "linked reader_last s r"
  shows "series wanted (maximumUncertaintyNs s) ps s' r'"
  by (rule collect_loop_inv [OF _ collect_reserved [OF assms(1)],
      where I = "series wanted (maximumUncertaintyNs s)"])
    (auto intro: series_step series_Nil [OF assms(2)])


text \<open>
  A collection of samples, at start-up or in a refresh, holds at most as many as were
  asked for, none with more than the configured uncertainty, and in strictly ascending SmartNIC time;
  this holds across host clock steps in between, which make the sampler forget its last observation.
\<close>

lemma collected_samples_ascend:
  assumes "collectPublicationSamples host cfg wanted deadline pause s r w = Some (Inr (ps, s', r'), w')"
    and "linked reader_last s r"
  shows "length ps \<le> wanted \<and> sorted_wrt (<) (map smartnic_ns ps) \<and>
    (\<forall>p \<in> set ps. uncertainty_ns p \<le> maximumUncertaintyNs s)"
  using collect_series [OF assms] by (simp add: series_def)

subsection \<open>Reachable adjusters\<close>

inductive adjuster_reach ::
  "'w host \<Rightarrow> TimeSample sorter \<Rightarrow> TimeAdjusterConfig \<Rightarrow> TimeAdjuster \<Rightarrow> bool" for host srt cfg where
  adjuster_new: "new_TimeAdjuster host srt cpp symb cfg w = Some (Inr ta, w') \<Longrightarrow>
    adjuster_reach host srt cfg ta"
| adjuster_refresh: "adjuster_reach host srt cfg ta \<Longrightarrow> refresh host ta w = Some (Inr (b, ta'), w') \<Longrightarrow>
    adjuster_reach host srt cfg ta'"

definition adjuster_inv :: "TimeAdjusterConfig \<Rightarrow> TimeAdjuster \<Rightarrow> bool" where
  "adjuster_inv cfg ta \<longleftrightarrow> ta_config ta = cfg \<and> cal_reach (ta_calibration cfg) (calibration ta) \<and>
     cal_valid (status (calibration ta)) \<and> linked reader_last (ta_sampler ta) (ta_reader ta) \<and>
     maximumUncertaintyNs (ta_sampler ta) = maximum_sample_uncertainty_ns cfg \<and>
     cal_state (status_cache ta) = WarmingUp"

lemma mergeSamplerStatus_simps [simp]:
  "ta_config (mergeSamplerStatus ta) = ta_config ta" "calibration (mergeSamplerStatus ta) = calibration ta"
  "ta_sampler (mergeSamplerStatus ta) = ta_sampler ta" "ta_reader (mergeSamplerStatus ta) = ta_reader ta"
  "cal_state (status_cache (mergeSamplerStatus ta)) = cal_state (status_cache ta)"
  by (simp_all add: mergeSamplerStatus_def Let_def)

lemma linked_new: "linked last_ns (new_ClockSampler u) r"
  by (simp add: linked_def new_ClockSampler_def)

lemma addSample_valid: "cal_valid (status c) \<Longrightarrow> cal_valid (status (snd (addSample s c)))"
proof -
  assume v: "cal_valid (status c)"
  have "cal_valid (status (snd (fit (extended s c))))"
    by (rule fit_cases [of "extended s c"]) (auto simp: extended_fields install_fit_def)
  with v show ?thesis by (simp add: addSample_eq extended_fields)
qed

text \<open>What start-up hands to the calibration.\<close>

definition startup_best :: "TimeSample sorter \<Rightarrow> TimeAdjusterConfig \<Rightarrow> PublicationSample list \<Rightarrow> TimeSample list" where
  "startup_best srt cfg ps = take (startup_best_sample_count cfg) (srt latency_ns (map toTimeSample ps))"

lemma latest_uncertainty_fold:
  "cal_state (foldl (\<lambda>st p. st\<lparr> latest_uncertainty_ns := uncertainty_ns p \<rparr>) st ps) = cal_state st"
  by (induction ps arbitrary: st) auto

lemma initializeFrom_eq:
  "initializeFromPublicationSamples srt ps ta =
    (case initialize srt (startup_best srt (ta_config ta) ps) (calibration ta) of (ok, cal) \<Rightarrow>
      (ok, ta\<lparr> status_cache := foldl (\<lambda>st p. st\<lparr> latest_uncertainty_ns := uncertainty_ns p \<rparr>)
           (status_cache ta) ps, calibration := cal \<rparr>))"
  by (simp add: initializeFromPublicationSamples_def startup_best_def Let_def split: prod.split)

lemma new_TimeAdjuster_cases:
  assumes "new_TimeAdjuster host srt cpp symb cfg w = Some (Inr ta, w')"
  obtains c reader now w1 ps sampler reader' cal where
    "cpp = Some c" "steady_now host w = (now, w1)"
    "collectPublicationSamples host cfg (startup_sample_count cfg) (s64 (now + s64 (startup_timeout_ms cfg * 1000000)))
       True (new_ClockSampler (maximum_sample_uncertainty_ns cfg)) reader w1 = Some (Inr (ps, sampler, reader'), w')"
    "initialize srt (startup_best srt cfg ps) (new_ClockCalibration (ta_calibration cfg)) = (True, cal)"
    "calibration ta = cal" "ta_config ta = cfg" "ta_sampler ta = sampler" "ta_reader ta = reader'"
    "cal_state (status_cache ta) = WarmingUp"
  using assms
  by (auto simp: new_TimeAdjuster_def initializeFrom_eq Let_def latest_uncertainty_fold zero_status_def
      split: option.splits sum.splits prod.splits if_splits)

lemma initialize_ok:
  assumes "std_sort srt" "initialize srt smps c = (True, c')"
  shows "cal_valid (status c') \<and> cal_state (status c') = OffsetOnly \<and> 4 \<le> length smps \<and>
    4 \<le> length (samples c') \<and> length (samples c') \<le> 8 \<and>
    (\<forall>s \<in> set (samples c'). s \<in> set smps \<and> acceptable (cc_config c) s)"
proof -
  let ?best = "startup_choice srt (cc_config c) smps"
  have len: "4 \<le> length (filter (acceptable (cc_config c)) smps)"
    and c': "status c' = setOffsetModel ?best (zero_status\<lparr> rejected_samples := rejected_samples (status c) +
        (length smps - length (filter (acceptable (cc_config c)) smps)) \<rparr>)"
      "samples c' = srt monotonic_ns ?best"
    using assms(2) by (auto simp: initialize_eq Let_def split: if_splits)
  have "?best \<noteq> []" using startup_choice_length [OF assms(1), of "cc_config c" smps] len by auto
  from setOffsetModel_fields [OF this] startup_choice_set [OF assms(1)]
    startup_choice_length [OF assms(1), of "cc_config c" smps] len
    le_trans [OF len length_filter_le]
  show ?thesis
    by (auto simp: c' std_sort.set_srt [OF assms(1)] std_sort.length_srt [OF assms(1)])
qed

lemma refresh_cases:
  assumes "refresh host ta w = Some (Inr (b, ta'), w')"
  obtains now w1 ps sampler reader where
    "steady_now host w = (now, w1)"
    "collectPublicationSamples host (ta_config ta) (refresh_burst_size (ta_config ta)) (s64 (now + 100000000))
       False (ta_sampler ta) (ta_reader ta) w1 = Some (Inr (ps, sampler, reader), w')"
    "ta_config ta' = ta_config ta" "ta_sampler ta' = sampler" "ta_reader ta' = reader"
    "cal_state (status_cache ta') = cal_state (status_cache ta)"
    "(ps = [] \<and> \<not> b \<and> calibration ta' = calibration ta) \<or>
     (\<exists>best. min_element uncertainty_ns ps = Some best \<and>
       addSample (toTimeSample best) (calibration ta) = (b, calibration ta'))"
  using assms
  by (auto simp: refresh_def Let_def split: option.splits sum.splits prod.splits)

lemma adjuster_inv_new:
  assumes "std_sort srt" "new_TimeAdjuster host srt cpp symb cfg w = Some (Inr ta, w')"
  shows "adjuster_inv cfg ta"
  using assms(2)
proof (cases rule: new_TimeAdjuster_cases)
  case (1 c reader now w1 ps sampler reader' cal)
  have "cal_reach (ta_calibration cfg) cal"
    by (rule cal_reach.reach_init [OF cal_reach.reach_new assms(1) 1(4)])
  with 1 initialize_ok [OF assms(1) 1(4)] collect_series [OF 1(3) linked_new]
  show ?thesis by (simp add: adjuster_inv_def series_def) (simp add: new_ClockSampler_def)
qed

lemma adjuster_inv_refresh:
  assumes "adjuster_inv cfg ta" "refresh host ta w = Some (Inr (b, ta'), w')"
  shows "adjuster_inv cfg ta'"
  using assms(2)
proof (cases rule: refresh_cases)
  case (1 now w1 ps sampler reader)
  have "linked reader_last (ta_sampler ta) (ta_reader ta)" using assms(1) by (simp add: adjuster_inv_def)
  note ser = collect_series [OF 1(2) this]
  have "cal_reach (ta_calibration cfg) (calibration ta') \<and> cal_valid (status (calibration ta'))"
    using 1(7) assms(1) addSample_valid [of "calibration ta"] cal_reach.reach_add
    unfolding adjuster_inv_def by (metis snd_conv)
  with 1 ser assms(1) show ?thesis by (simp add: adjuster_inv_def series_def)
qed

lemma adjuster_reach_inv:
  "adjuster_reach host srt cfg ta \<Longrightarrow> std_sort srt \<Longrightarrow> adjuster_inv cfg ta"
  by (induction rule: adjuster_reach.induct) (auto intro: adjuster_inv_new adjuster_inv_refresh)


subsection \<open>Start-up, refresh and conversion\<close>

text \<open>
  C17 (functional). A constructor that returns has calibrated an offset model from four to eight of the
  samples it collected, each within both limits: the configured uncertainty and the latency limit of the
  calibration, which the configuration cannot change. It never returns when fewer than four samples are
  asked for, or fewer than four of them are to be kept.
\<close>

theorem startup_calibrates:
  assumes "std_sort srt" "new_TimeAdjuster host srt cpp symb cfg w = Some (Inr ta, w')"
  shows "adjuster_status ta = (adjuster_status ta)\<lparr> cal_state := OffsetOnly, cal_valid := True \<rparr> \<and>
    4 \<le> length (samples (calibration ta)) \<and> length (samples (calibration ta)) \<le> 8 \<and>
    (\<forall>s \<in> set (samples (calibration ta)). 0 \<le> latency_ns s \<and>
      latency_ns s \<le> min (maximum_sample_uncertainty_ns cfg) (maximum_sample_latency_ns (ta_calibration cfg))) \<and>
    4 \<le> startup_sample_count cfg \<and> 4 \<le> startup_best_sample_count cfg"
  using assms(2)
proof (cases rule: new_TimeAdjuster_cases)
  case (1 c reader now w1 ps sampler reader' cal)
  let ?best = "startup_best srt cfg ps"
  note ini = initialize_ok [OF assms(1) 1(4)]
  have ps: "length ps \<le> startup_sample_count cfg"
    "\<forall>p \<in> set ps. uncertainty_ns p \<le> maximum_sample_uncertainty_ns cfg"
    using collect_series [OF 1(3) linked_new] by (simp_all add: series_def new_ClockSampler_def)
  have "length ?best = min (startup_best_sample_count cfg) (length ps)"
    by (simp add: startup_best_def std_sort.length_srt [OF assms(1)])
  with ini ps(1) have "4 \<le> startup_sample_count cfg" "4 \<le> startup_best_sample_count cfg" by linarith+
  moreover have "latency_ns s \<le> maximum_sample_uncertainty_ns cfg" if "s \<in> set ?best" for s
    using in_set_takeD [OF that [unfolded startup_best_def]] ps(2)
    by (auto simp: std_sort.set_srt [OF assms(1)] toTimeSample_def)
  ultimately show ?thesis
    using ini 1(5,9) by (auto simp: adjuster_status_def Let_def acceptable_def new_ClockCalibration_def)
qed

text \<open>
  C18 (invariant). Once constructed, an adjuster never loses its calibration: after any refreshes its
  status is valid, reports offset-only or tracking operation and never a degraded one, and its
  calibration is one the calibration object can reach.
\<close>

theorem adjuster_stays_calibrated:
  assumes "adjuster_reach host srt cfg ta" "std_sort srt" "0 \<le> regression_window_ns (ta_calibration cfg)"
  shows "cal_valid (adjuster_status ta) \<and>
    cal_state (adjuster_status ta) = (if drift_calibrated (adjuster_status ta) then Tracking else OffsetOnly) \<and>
    cal_reach (ta_calibration cfg) (calibration ta)"
proof -
  have i: "adjuster_inv cfg ta" by (rule adjuster_reach_inv [OF assms(1,2)])
  then have "cal_inv (calibration ta)" using reach_inv assms(3) by (auto simp: adjuster_inv_def)
  with i show ?thesis
    by (cases "cal_state (status (calibration ta))")
      (auto simp: adjuster_inv_def adjuster_status_def Let_def cal_inv_def)
qed

lemma adjuster_conversion:
  assumes "adjuster_reach host srt cfg ta" "std_sort srt"
  shows "adjuster_toUnixNanoseconds ta sec nsec =
    (if 1000000000 \<le> uint nsec then Inl (invalid_argument ''SmartNIC timestamp nanoseconds are invalid'')
     else Inr (model_time (status (calibration ta)) (uint sec * 1000000000 + uint nsec)))"
  using adjuster_reach_inv [OF assms]
  by (simp add: adjuster_inv_def adjuster_toUnixNanoseconds_def toUnixNanoseconds_def nanos_valid_def
      kNanosecondsPerSecond_def mac_ns_exact)

lemma addSample_result:
  assumes "addSample s c = (b, c')"
  shows "if b then acceptable (cc_config c) s \<and> last_mac_ns c' = ts_mac_ns s
    else toUnixNanoseconds c' = toUnixNanoseconds c"
proof -
  have "last_mac_ns (snd (fit c)) = last_mac_ns c" for c
    by (rule fit_cases [of c]) (simp_all add: install_fit_def)
  with assms show ?thesis
    by (auto simp: addSample_eq extended_fields toUnixNanoseconds_def model_time_def split: if_splits)
qed

text \<open>The first of the samples of least uncertainty in a collection.\<close>

definition best_of :: "PublicationSample \<Rightarrow> PublicationSample list \<Rightarrow> bool" where
  "best_of p ps \<longleftrightarrow> (\<exists>as bs. ps = as @ p # bs \<and> (\<forall>q \<in> set as. uncertainty_ns p < uncertainty_ns q) \<and>
     (\<forall>q \<in> set bs. uncertainty_ns p \<le> uncertainty_ns q))"

lemma addSample_accepts: "addSample s c = (b, c') \<Longrightarrow> b \<longleftrightarrow> acceptable (cc_config c) s"
  by (auto simp: addSample_eq split: if_splits)

text \<open>
  C31 (functional). A refresh collects a burst of samples, as many as configured and within 100 ms. If it accepts,
  it has added the sample of least uncertainty in that burst, the first one if there are several, which is within both limits; if it does not, the
  burst was empty or its best sample was not acceptable, and every conversion is as it was.
\<close>

theorem refresh_effect:
  assumes "adjuster_reach host srt cfg ta" "std_sort srt"
    and "refresh host ta w = Some (Inr (accepted, ta'), w')"
  shows "\<exists>now w1 ps s r. steady_now host w = (now, w1) \<and>
    collectPublicationSamples host cfg (refresh_burst_size cfg) (s64 (now + 100000000)) False
      (ta_sampler ta) (ta_reader ta) w1 = Some (Inr (ps, s, r), w') \<and>
    (if accepted then
       (\<exists>p. best_of p ps \<and> addSample (toTimeSample p) (calibration ta) = (True, calibration ta') \<and>
         0 \<le> uncertainty_ns p \<and>
         uncertainty_ns p \<le> min (maximum_sample_uncertainty_ns cfg) (maximum_sample_latency_ns (ta_calibration cfg)) \<and>
         last_mac_ns (calibration ta') = smartnic_ns p)
     else (ps = [] \<or> (\<exists>p. best_of p ps \<and> \<not> acceptable (ta_calibration cfg) (toTimeSample p))) \<and>
       toUnixNanoseconds (calibration ta') = toUnixNanoseconds (calibration ta))"
  using assms(3)
proof (cases rule: refresh_cases)
  case (1 now w1 ps sampler reader)
  have inv: "adjuster_inv cfg ta" by (rule adjuster_reach_inv [OF assms(1,2)])
  then have lk: "linked reader_last (ta_sampler ta) (ta_reader ta)" and cf: "ta_config ta = cfg"
    by (simp_all add: adjuster_inv_def)
  have cc: "cc_config (calibration ta) = ta_calibration cfg"
    using reach_config inv by (auto simp: adjuster_inv_def)
  have "if accepted then
       (\<exists>p. best_of p ps \<and> addSample (toTimeSample p) (calibration ta) = (True, calibration ta') \<and>
         0 \<le> uncertainty_ns p \<and>
         uncertainty_ns p \<le> min (maximum_sample_uncertainty_ns cfg) (maximum_sample_latency_ns (ta_calibration cfg)) \<and>
         last_mac_ns (calibration ta') = smartnic_ns p)
     else (ps = [] \<or> (\<exists>p. best_of p ps \<and> \<not> acceptable (ta_calibration cfg) (toTimeSample p))) \<and>
       toUnixNanoseconds (calibration ta') = toUnixNanoseconds (calibration ta)"
  proof (cases "\<exists>best. min_element uncertainty_ns ps = Some best \<and>
       addSample (toTimeSample best) (calibration ta) = (accepted, calibration ta')")
    case True
    then obtain p where mp: "min_element uncertainty_ns ps = Some p"
      and p: "addSample (toTimeSample p) (calibration ta) = (accepted, calibration ta')"
      by (elim exE conjE)
    have b: "best_of p ps" using min_element_first [OF mp] by (simp add: best_of_def)
    have u: "uncertainty_ns p \<le> maximum_sample_uncertainty_ns cfg"
      using collect_series [OF 1(2) lk] inv min_element_Some(1) [OF mp] by (simp add: series_def adjuster_inv_def)
    note r = addSample_result [OF p] addSample_accepts [OF p]
    show ?thesis
    proof (cases accepted)
      case True
      with r b p u show ?thesis
        by (simp add: cc acceptable_def toTimeSample_def exI [of _ p])
    next
      case False
      with r b show ?thesis by (auto simp: cc)
    qed
  next
    case False
    with 1(7) show ?thesis by auto
  qed
  with 1(1,2) show ?thesis unfolding cf by blast
qed

subsection \<open>Termination\<close>

text \<open>
  A host on which time does not run backwards: \<open>clk\<close> is the steady clock, no call takes negative time,
  two readings of the clock are at least a nanosecond apart, and a sleep until a time lasts until then.
\<close>

definition api_timed :: "'w nfp_api \<Rightarrow> ('w \<Rightarrow> i64) \<Rightarrow> bool" where
  "api_timed api clk \<longleftrightarrow>
     (\<forall>c i ad n w. clk w \<le> clk (snd (area_alloc api c i ad n w))) \<and>
     (\<forall>a w. clk w \<le> clk (snd (area_acquire api a w))) \<and>
     (\<forall>a off n w. clk w \<le> clk (snd (area_read api a off n w))) \<and>
     (\<forall>a off bs w. clk w \<le> clk (snd (area_write api a off bs w))) \<and>
     (\<forall>a off v n w. clk w \<le> clk (snd (area_fill api a off v n w))) \<and>
     (\<forall>a w. clk w \<le> clk (area_free api a w)) \<and>
     (\<forall>a w. clk w \<le> clk (area_release_free api a w)) \<and>
     (\<forall>n w. clk w \<le> clk (sleep_ms api n w))"

definition host_timed :: "'w host \<Rightarrow> ('w \<Rightarrow> i64) \<Rightarrow> bool" where
  "host_timed host clk \<longleftrightarrow> api_timed (host_api host) clk \<and>
     (\<forall>w. clk w \<le> clk (snd (gettime_realtime host w))) \<and>
     (\<forall>w. clk w \<le> clk (snd (gettime_monotonic_raw host w))) \<and>
     (\<forall>w. fst (steady_now host w) = clk w \<and> clk w < clk (snd (steady_now host w))) \<and>
     (\<forall>n w. clk w \<le> clk (sleep_ns host n w)) \<and>
     (\<forall>t w. clk w \<le> clk (sleep_until host t w) \<and> t \<le> clk (sleep_until host t w))"

lemma readRaw_timed:
  assumes "api_timed api clk" "readRaw api r w = (res, w')"
  shows "clk w \<le> clk w'"
proof -
  note at = assms(1) [unfolded api_timed_def]
  obtain a w1 where al: "area_alloc api (mr_cpp r) (mr_cppId r) (mr_address r) (bytesToRead r) w = (a, w1)"
    by (cases "area_alloc api (mr_cpp r) (mr_cppId r) (mr_address r) (bytesToRead r) w")
  have t1: "clk w \<le> clk w1" using at al by (metis snd_conv)
  show ?thesis
  proof (cases a)
    case None
    with assms(2) al t1 show ?thesis by (simp add: readRaw_def Let_def)
  next
    case (Some a')
    obtain rc w2 where ac: "area_acquire api a' w1 = (rc, w2)" by (cases "area_acquire api a' w1")
    have t2: "clk w1 \<le> clk w2" using at ac by (metis snd_conv)
    obtain got raw w3 where rd: "area_read api a' 0 (bytesToRead r) w2 = ((got, raw), w3)"
      by (metis prod.exhaust)
    have t3: "clk w2 \<le> clk w3" using at rd by (metis snd_conv)
    have "w' = area_free api a' w2 \<or> w' = area_release_free api a' w3"
      using assms(2) al ac rd Some by (auto simp: readRaw_def Let_def split: if_splits)
    moreover have "clk w2 \<le> clk (area_free api a' w2)" "clk w3 \<le> clk (area_release_free api a' w3)"
      using at by blast+
    ultimately show ?thesis using t1 t2 t3 by auto
  qed
qed

lemma readState_timed:
  assumes "api_timed api clk" "readState api r w = (obs, r', w')"
  shows "clk w \<le> clk w'"
  using assms(2) by (cases rule: readState_cases) (auto intro: readRaw_timed [OF assms(1)])

lemma poll_timed:
  assumes "host_timed host clk" "poll (adjuster_source host) s r w = (Inr (x, s', r'), w')"
  shows "clk w \<le> clk w'"
  using assms(2)
proof (cases rule: poll_cases)
  case (1 rb mb ma ra ob w1 w2 w3 w4)
  have g: "src_realtime (adjuster_source host) u = (v, u') \<Longrightarrow> clk u \<le> clk u'"
    "src_monotonic (adjuster_source host) u = (v, u') \<Longrightarrow> clk u \<le> clk u'" for u v u'
    using assms(1) unfolding host_timed_def
    by (auto simp: adjuster_source_def clockNanoseconds_def split: prod.splits option.splits) (metis snd_conv)+
  have "clk w2 \<le> clk w3"
    using 1(3) assms(1) by (intro readState_timed) (auto simp: adjuster_source_def host_timed_def)
  with g(1) [OF 1(1)] g(2) [OF 1(2)] g(2) [OF 1(4)] g(1) [OF 1(5)] show ?thesis by linarith
qed

lemma collect_loop_returns:
  assumes "host_timed host clk"
  shows "\<exists>res. collect_loop host i wanted deadline pause acc s r w = Some res"
proof (induction "nat (deadline - clk w)" arbitrary: acc s r w rule: less_induct)
  case less
  obtain now w1 where now: "steady_now host w = (now, w1)" by (cases "steady_now host w")
  have t1: "now = clk w" "clk w < clk w1"
    using assms now unfolding host_timed_def by (metis fst_conv, metis snd_conv)
  obtain z w2 where pl: "poll (adjuster_source host) s r w1 = (z, w2)"
    by (cases "poll (adjuster_source host) s r w1")
  show ?case
  proof (cases "wanted \<le> length acc \<or> deadline \<le> now")
    case True
    with now show ?thesis by (subst collect_loop.simps) auto
  next
    case False
    show ?thesis
    proof (cases z)
      case (Inl ex)
      with False now pl show ?thesis by (subst collect_loop.simps) simp
    next
      case (Inr t)
      obtain x s1 r1 where t: "t = (x, s1, r1)" by (cases t)
      have t2: "clk w1 \<le> clk w2" by (rule poll_timed [OF assms pl [unfolded Inr t]])
      let ?acc = "gathered acc x"
      let ?w = "pause_between host i wanted pause ?acc w2"
      have "clk w2 \<le> clk ?w" using assms by (simp add: host_timed_def pause_between_def)
      then have "nat (deadline - clk ?w) < nat (deadline - clk w)" using t1 t2 False by simp
      from less [OF this, of ?acc s1 r1] False now pl Inr t show ?thesis
        by (subst collect_loop.simps) (simp add: Let_def)
    qed
  qed
qed

lemma collect_returns:
  "host_timed host clk \<Longrightarrow> collectPublicationSamples host cfg n d b s r w \<noteq> None"
  using collect_loop_returns [of host clk]
  by (auto simp: collectPublicationSamples_def split: option.split)

lemma refresh_returns:
  assumes "host_timed host clk"
  shows "refresh host ta w \<noteq> None"
proof
  assume "refresh host ta w = None"
  then obtain n d b s r u where "collectPublicationSamples host (ta_config ta) n d b s r u = None"
    by (auto simp: refresh_def Let_def split: option.splits sum.splits prod.splits)
  with collect_returns [OF assms] show False by blast
qed

text \<open>
  C30 (termination). On a host whose steady clock advances, the constructor and every refresh return, or
  end with the exception of a failed clock call: the waiting loops are bounded by their deadlines even
  when the SmartNIC never exports another usable state.
\<close>

theorem adjuster_terminates:
  assumes "host_timed host clk"
  shows "\<exists>res1 res2. new_TimeAdjuster host srt cpp symb cfg w = Some res1 \<and> refresh host ta w = Some res2"
proof -
  have "new_TimeAdjuster host srt cpp symb cfg w \<noteq> None"
  proof
    assume "new_TimeAdjuster host srt cpp symb cfg w = None"
    then obtain n d b s r u where "collectPublicationSamples host cfg n d b s r u = None"
      by (auto simp: new_TimeAdjuster_def Let_def split: option.splits sum.splits prod.splits if_splits)
    with collect_returns [OF assms] show False by blast
  qed
  with refresh_returns [OF assms] show ?thesis by blast
qed

subsection \<open>A worked adjuster\<close>

text \<open>
  A host whose state is the time in nanoseconds and the exported states still to be read. Reading one
  takes a tenth of a millisecond.
\<close>

type_synonym demo_world = "i64 \<times> u8 list list"

definition demo_read :: "demo_world \<Rightarrow> (int \<times> u8 list) \<times> demo_world" where
  "demo_read w = (case w of (t, outs) \<Rightarrow> (case outs of [] \<Rightarrow> ((- 1, []), (t, []))
     | raw # rest \<Rightarrow> ((int (length raw), raw), (t, rest))))"

definition demo_wait :: "i64 \<Rightarrow> demo_world \<Rightarrow> demo_world" where
  "demo_wait n w = (case w of (t, outs) \<Rightarrow> (if n \<le> 0 then w else (t + n, outs)))"

definition demo_api :: "demo_world nfp_api" where
  "demo_api = \<lparr> island_id = (\<lambda>_ _ _ i. of_int i),
     area_alloc = (\<lambda>_ _ _ _ w. (Some 0, demo_wait 100000 w)),
     area_acquire = (\<lambda>_ w. (0, w)),
     area_read = (\<lambda>_ _ _ w. demo_read w),
     area_write = (\<lambda>_ _ bs w. (int (length bs), w)),
     area_fill = (\<lambda>_ _ _ _ w. (0, w)),
     area_free = (\<lambda>_ w. w), area_release_free = (\<lambda>_ w. w), sleep_ms = (\<lambda>_ w. w) \<rparr>"

definition demo_host :: "demo_world host" where
  "demo_host = \<lparr> host_api = demo_api,
     gettime_realtime = (\<lambda>w. (Some (1780000000, fst w), w)),
     gettime_monotonic_raw = (\<lambda>w. (Some (500, fst w), w)),
     steady_now = (\<lambda>w. (fst w, demo_wait 1 w)),
     sleep_ns = demo_wait,
     sleep_until = (\<lambda>t w. demo_wait (t - fst w) w),
     can_allocate = (\<lambda>n _. n \<le> 2 ^ 34) \<rparr>"

text \<open>The exported state 1000 s and \<open>65536 * b\<close> ns.\<close>

definition demo_state :: "u8 \<Rightarrow> u8 list" where
  "demo_state b = [232, 3, 0, 0, 0, 0, b, 0, b, 0, 0, 0, 16, 0, 3, 0, 0, 0, 0, 0]"

definition demo_config :: TimeAdjusterConfig where
  "demo_config = default_adjuster_config\<lparr> startup_sample_count := 5, refresh_burst_size := 2,
     startup_poll_interval_us := 100 \<rparr>"

definition demo_symbol :: nfp_rtsym where
  "demo_symbol = \<lparr> sym_name = ''mac_time'', sym_addr = 4096, sym_size = 20, sym_domain = 4, sym_target = 7,
     sym_type = 1 \<rparr>"

definition demo_start :: "(TimeAdjuster outcome \<times> demo_world) option" where
  "demo_start = new_TimeAdjuster demo_host (\<lambda>k xs. sort_key k xs) (Some 0) (Some demo_symbol) demo_config
    (0, map demo_state [0, 3, 6, 9, 12, 15, 18, 21, 24])"


definition demo_adjuster :: TimeAdjuster where
  "demo_adjuster = (case demo_start of Some (Inr ta, w) \<Rightarrow> ta | _ \<Rightarrow> undefined)"

definition demo_later :: demo_world where
  "demo_later = (2000000, map demo_state [30, 33, 36])"

definition demo_reader :: MacClockReader where
  "demo_reader = (case new_MacClockReader demo_api (Some 0) (Some demo_symbol) ''mac_time'' 20 of
     Inr r \<Rightarrow> r | _ \<Rightarrow> undefined)"

lemma demo_start_ok: "\<exists>w. demo_start = Some (Inr demo_adjuster, w)"
proof -
  have run: "(case demo_start of Some (Inr ta, w) \<Rightarrow> True | _ \<Rightarrow> False)" by code_simp
  show ?thesis
  proof (cases demo_start)
    case (Some z)
    obtain res w where z: "z = (res, w)" by (cases z)
    have d: "demo_start = Some (res, w)" by (simp only: Some z)
    show ?thesis
    proof (cases res)
      case (Inr ta)
      then show ?thesis by (auto simp only: demo_adjuster_def d option.case prod.case sum.case)
    qed (use run in \<open>simp only: d option.case prod.case sum.case\<close>)
  qed (use run in simp)
qed

lemma demo_reach: "adjuster_reach demo_host (\<lambda>k xs. sort_key k xs) demo_config demo_adjuster"
  using demo_start_ok unfolding demo_start_def by (auto intro: adjuster_new)

lemma demo_refresh_ok:
  "\<exists>ta w. refresh demo_host demo_adjuster demo_later = Some (Inr (True, ta), w)"
proof -
  have "(case refresh demo_host demo_adjuster demo_later of Some (Inr (b, ta), w) \<Rightarrow> b | _ \<Rightarrow> False)" by code_simp
  then show ?thesis by (auto split: option.splits sum.splits)
qed

theorem startup_calibrates_witness:
  "cal_state (adjuster_status demo_adjuster) = OffsetOnly \<and> 4 \<le> length (samples (calibration demo_adjuster))"
proof -
  obtain w where "demo_start = Some (Inr demo_adjuster, w)" using demo_start_ok by blast
  from startup_calibrates [OF stable.std_sort_axioms this [unfolded demo_start_def]]
  show ?thesis by (metis (no_types, lifting) CalibrationStatus.select_convs(16)
      CalibrationStatus.surjective CalibrationStatus.update_convs(16,17))
qed

theorem adjuster_stays_calibrated_witness: "cal_valid (adjuster_status demo_adjuster)"
  using adjuster_stays_calibrated [OF demo_reach stable.std_sort_axioms]
  by (simp add: demo_config_def default_adjuster_config_def config_ranges)

theorem refresh_effect_witness:
  "\<exists>ta w ps s r w1. refresh demo_host demo_adjuster demo_later = Some (Inr (True, ta), w) \<and>
    collectPublicationSamples demo_host demo_config 2 102000000 False (ta_sampler demo_adjuster) (ta_reader demo_adjuster) w1 =
      Some (Inr (ps, s, r), w) \<and>
    (\<exists>p. best_of p ps \<and> uncertainty_ns p \<le> 800000 \<and> last_mac_ns (calibration ta) = smartnic_ns p)"
proof -
  obtain ta w where ref: "refresh demo_host demo_adjuster demo_later = Some (Inr (True, ta), w)"
    using demo_refresh_ok by blast
  have cfg: "maximum_sample_uncertainty_ns demo_config = 800000" "refresh_burst_size demo_config = 2"
    by (simp_all add: demo_config_def default_adjuster_config_def)
  have now: "fst (steady_now demo_host demo_later) = 2000000" by (simp add: demo_host_def demo_later_def)
  obtain now w1 ps s r p where c: "steady_now demo_host demo_later = (now, w1)"
    "collectPublicationSamples demo_host demo_config 2 (s64 (now + 100000000)) False (ta_sampler demo_adjuster)
      (ta_reader demo_adjuster) w1 = Some (Inr (ps, s, r), w)"
    and p: "best_of p ps" "uncertainty_ns p \<le> 800000" "last_mac_ns (calibration ta) = smartnic_ns p"
    using refresh_effect [OF demo_reach stable.std_sort_axioms ref] unfolding if_True cfg by (elim exE conjE) simp
  have "s64 (now + 100000000) = 102000000" using c(1) now by (simp add: s64_id in_i64_def)
  with ref c(2) p show ?thesis by (intro exI [of _ ta] exI [of _ w] exI [of _ ps] exI [of _ s] exI [of _ r] exI [of _ w1]) auto
qed

lemma demo_timed: "host_timed demo_host fst"
  by (auto simp: host_timed_def api_timed_def demo_host_def demo_api_def demo_read_def demo_wait_def
      split: list.splits)

theorem adjuster_terminates_witness:
  "refresh demo_host demo_adjuster (0, []) \<noteq> None"
  using adjuster_terminates [OF demo_timed] by blast

end
