(* ===== verification/Io_Thread.thy ===== *)
theory Io_Thread
  imports Transmit Time_Adjuster
begin

text \<open>
  \<^verbatim>\<open>smartNicIoThread\<close> (\<^verbatim>\<open>src/main.cpp\<close>): it notes the time once, and one tick sleeps until the next multiple of the
  period, reads both readers, refreshes the clock, converts and groups the records, and queues the batch
  unless it is empty. The thread has no exception handler.
\<close>

text \<open>The arguments of the thread and its two local variables that outlive a tick.\<close>

record io_state =
  io_reader :: SmartNicReader
  io_counterReader :: CounterReader
  io_adjuster :: TimeAdjuster
  io_period :: i64
  nextTick :: i64
  driftCalibrationReported :: bool

definition io_enter :: "'w host \<Rightarrow> io_state \<Rightarrow> 'w \<Rightarrow> io_state \<times> 'w" where
  "io_enter host st w = (case steady_now host w of (now, w) \<Rightarrow>
     (st\<lparr> nextTick := now, driftCalibrationReported := False \<rparr>, w))"

text \<open>\<^verbatim>\<open>std::chrono::duration<double>\<close> of a difference of two nanosecond time points.\<close>

definition elapsed_seconds :: "i64 \<Rightarrow> i64 \<Rightarrow> rat" where
  "elapsed_seconds start end = dbl (dbl (of_int (s64 (end - start))) / 1000000000)"

definition drift_report :: "CalibrationStatus \<Rightarrow> bool \<Rightarrow> bool" where
  "drift_report st reported = 
    (if \<not> drift_calibrated st then False else if \<not> reported then True else reported)"

text \<open>The batch of a tick, \<^const>\<open>None\<close> when both maps are empty.\<close>

definition make_batch ::
  "converter \<Rightarrow> rat \<Rightarrow> flow_data list \<Rightarrow> counter_data list \<Rightarrow> ExportData option outcome" where
  "make_batch conv elapsed flowEntries counterEntries =
    (case aggregate_flows conv flowEntries [] of
       Inl ex \<Rightarrow> Inl ex
     | Inr localFlowMap \<Rightarrow>
       let localCounterMap = aggregate_counters counterEntries in
       if localFlowMap \<noteq> [] \<or> localCounterMap \<noteq> []
       then Inr (Some \<lparr> execution_time = elapsed, flowMap = localFlowMap, counterMap = localCounterMap \<rparr>)
       else Inr None)"

definition io_tick ::
  "'w host \<Rightarrow> io_state \<Rightarrow> 'w \<Rightarrow> ((ExportData option \<times> io_state) outcome \<times> 'w) option" where
  "io_tick host st w =
    (let next = s64 (nextTick st + io_period st) in
    (case steady_now host (sleep_until host next w) of (start, w) \<Rightarrow>
    (case read_tick (host_api host) (io_reader st) (io_counterReader st) w of
       None \<Rightarrow> None
     | Some ((flowEntries, counterEntries, reader), w) \<Rightarrow>
    (case refresh host (io_adjuster st) w of
       None \<Rightarrow> None
     | Some (Inl ex, w) \<Rightarrow> Some (Inl ex, w)
     | Some (Inr (accepted, ta), w) \<Rightarrow>
    (case steady_now host w of (end, w) \<Rightarrow>
       let st = st\<lparr> io_reader := reader, io_adjuster := ta, nextTick := next,
             driftCalibrationReported := drift_report (adjuster_status ta) (driftCalibrationReported st) \<rparr>
       in (case make_batch (adjuster_toUnixNanoseconds ta) (elapsed_seconds start end) flowEntries counterEntries of
             Inl ex \<Rightarrow> Some (Inl ex, w)
           | Inr batch \<Rightarrow> Some (Inr (batch, st), w)))))))"

text \<open>The world at the first access of a tick to the SmartNIC.\<close>

definition tick_begins :: "'w host \<Rightarrow> io_state \<Rightarrow> 'w \<Rightarrow> 'w" where
  "tick_begins host st w = snd (steady_now host (sleep_until host (s64 (nextTick st + io_period st)) w))"

subsection \<open>Batches\<close>

lemma adjuster_converts:
  assumes "adjuster_reach host srt cfg ta" "std_sort srt"
  shows "converts (adjuster_toUnixNanoseconds ta) e \<longleftrightarrow>
    uint (nsec (start_time (fd_data e))) < 1000000000 \<and> uint (nsec (end_time (fd_data e))) < 1000000000"
  unfolding converts_def adjuster_conversion [OF assms] by auto

text \<open>
  C22 (error). The batch of a tick is made unless some flow record carries a nanosecond part of a second or
  more: a single such record, in either time stamp, throws out of the I/O thread, and with it every other
  record of the tick and the program are lost. Otherwise there is a batch exactly when something was read.
\<close>

theorem make_batch_outcome:
  assumes "adjuster_reach host srt cfg ta" "std_sort srt"
  shows "(case make_batch (adjuster_toUnixNanoseconds ta) elapsed flows counters of
      Inl ex \<Rightarrow> \<exists>e \<in> set flows. 1000000000 \<le> uint (nsec (start_time (fd_data e))) \<or>
        1000000000 \<le> uint (nsec (end_time (fd_data e)))
    | Inr batch \<Rightarrow> (\<forall>e \<in> set flows. uint (nsec (start_time (fd_data e))) < 1000000000 \<and>
        uint (nsec (end_time (fd_data e))) < 1000000000) \<and> (batch = None \<longleftrightarrow> flows = [] \<and> counters = []))"
proof -
  let ?conv = "adjuster_toUnixNanoseconds ta"
  show ?thesis
  proof (cases "list_all (converts ?conv) flows")
    case True
    then obtain m where m: "aggregate_flows ?conv flows [] = Inr m"
      using aggregate_flows_fold by blast
    have "m = [] \<longleftrightarrow> flows = []"
      by (rule aggregate_flows_empty [OF m])
    moreover have "aggregate_counters counters = [] \<longleftrightarrow> counters = []" by (rule aggregate_counters_empty)
    ultimately show ?thesis using True adjuster_converts [OF assms]
      by (auto simp: make_batch_def m Let_def list_all_iff)
  next
    case False
    then obtain ex where "aggregate_flows ?conv flows [] = Inl ex" using aggregate_flows_throws by blast
    with False adjuster_converts [OF assms] show ?thesis
      by (auto simp: make_batch_def list_all_iff not_less)
  qed
qed

lemma adjuster_in_i64: "adjuster_toUnixNanoseconds ta s n = Inr t \<Longrightarrow> in_i64 t"
  by (auto simp: adjuster_toUnixNanoseconds_def toUnixNanoseconds_def model_time_def applyModel_def split: if_splits)

text \<open>
  A tick exports everything the SmartNIC had collected: with the firmware keeping its side of the protocol,
  there is a moment at which the bank that was active when the tick began is at rest, such that the maps of the
  batch are those of the flow records and the counters in its ready slots, converted with the clock as the tick
  leaves it. Without a batch there was nothing to read.
\<close>

definition batch_exports :: "converter \<Rightarrow> flow_data list \<Rightarrow> counter_data list \<Rightarrow> ExportData option \<Rightarrow> bool" where
  "batch_exports conv flows counters batch \<longleftrightarrow> (case batch of None \<Rightarrow> flows = [] \<and> counters = []
     | Some d \<Rightarrow> flows_exported conv flows (flowMap d) \<and> counters_exported counters (counterMap d) \<and>
         sum_list (map (\<lambda>p. mset (agents (snd p))) (flowMap d)) = mset (map flow_agent flows))"

lemma make_batch_exports:
  assumes "make_batch conv elapsed flows counters = Inr batch" "\<forall>s n t. conv s n = Inr t \<longrightarrow> in_i64 t"
  shows "batch_exports conv flows counters batch"
proof -
  obtain m where m: "aggregate_flows conv flows [] = Inr m"
    and ba: "batch = (if m \<noteq> [] \<or> aggregate_counters counters \<noteq> []
      then Some \<lparr> execution_time = elapsed, flowMap = m, counterMap = aggregate_counters counters \<rparr> else None)"
    using assms(1) by (auto simp: make_batch_def Let_def split: sum.splits if_splits)
  have "m = [] \<longleftrightarrow> flows = []" "aggregate_counters counters = [] \<longleftrightarrow> counters = []"
    using aggregate_flows_empty [OF m] aggregate_counters_empty by blast+
  with aggregate_flows_exported [OF m assms(2)] aggregate_agents [OF m] aggregate_counters_exported [of counters]
  show ?thesis by (simp add: ba batch_exports_def)
qed

lemma io_tick_snapshot:
  assumes "nfp_firmware (host_api host) dev place rely (sta_word fr) (pro_word fr) (tick_bank fr cr)"
    and "io_tick host st w = Some (Inr (batch, st'), w')"
    and "w1 = tick_begins host st w" "fr = io_reader st" "cr = io_counterReader st"
    and "sr_cpp fr = Some cpp" "flow_sizes fr" "cr_cpp cr = Some cpp'" "counter_sizes cr"
    and "sta_word fr = (cr_staCppId cr, cr_staAddr cr)" "b = active_bank fr (fst (dev w1))"
    and "words_apart (sta_word fr) (pro_word fr) (tick_bank fr cr b)" "flow_bank fr b \<inter> counter_bank cr b = {}"
  shows "\<exists>c L. retires rely (sta_word fr) (pro_word fr) b (dev w1) (c, L) \<and>
    batch_exports (adjuster_toUnixNanoseconds (io_adjuster st')) (map (flow_at fr c b) (flow_slots fr c b))
      (map (counter_at cr c b) (counter_slots cr c b)) batch"
proof -
  obtain flows counters reader w2 elapsed where
    rt: "read_tick (host_api host) fr cr w1 = Some ((flows, counters, reader), w2)"
    and mb: "make_batch (adjuster_toUnixNanoseconds (io_adjuster st')) elapsed flows counters = Inr batch"
    using assms(2-5) by (auto simp: io_tick_def tick_begins_def Let_def split: prod.splits option.splits sum.splits)
  have "batch_exports (adjuster_toUnixNanoseconds (io_adjuster st')) flows counters batch"
    using mb make_batch_exports adjuster_in_i64 by blast
  with read_tick_snapshot [OF assms(1) rt assms(6-13)] show ?thesis by auto
qed

subsection \<open>A worked tick\<close>

text \<open>
  The tick of the worked readers, on a host whose steady clock advances a second with every open area, so
  that the refresh meets one unusable clock state and then its deadline.
\<close>

definition demo_io_host :: "mem_world host" where
  "demo_io_host = \<lparr> host_api = nic_api busy_firmware,
     gettime_realtime = (\<lambda>w. (Some (1780000000, 0), w)),
     gettime_monotonic_raw = (\<lambda>w. (Some (500, 0), w)),
     steady_now = (\<lambda>w. (1000000000 * int (length (table w)), w)),
     sleep_ns = (\<lambda>_ w. w),
     sleep_until = (\<lambda>_ w. w),
     can_allocate = (\<lambda>_ _. True) \<rparr>"

definition demo_io_adjuster :: TimeAdjuster where
  "demo_io_adjuster = \<lparr> ta_cpp = 0, ta_config = demo_config,
     ta_reader = demo_reader\<lparr> mr_domain := 9, mr_cppId := 9 \<rparr>, ta_sampler = new_ClockSampler 800000,
     calibration = seed_model \<lparr> ts_mac_ns = 0, unix_ns = 1780000000000000000, monotonic_ns = 0, latency_ns = 0 \<rparr>
       (new_ClockCalibration default_calibration_config),
     status_cache = zero_status \<rparr>"

definition demo_io_state :: io_state where
  "demo_io_state = \<lparr> io_reader = demo_flow_reader, io_counterReader = demo_counter_reader,
     io_adjuster = demo_io_adjuster, io_period = 1000000000, nextTick = 0, driftCalibrationReported = False \<rparr>"

lemma demo_io_run:
  "(case io_tick demo_io_host demo_io_state demo_tick_world of
     Some (Inr (Some d, st), w) \<Rightarrow> map (\<lambda>p. length (agents (snd p))) (flowMap d) = [2] \<and> length (counterMap d) = 1
   | _ \<Rightarrow> False)"
  by code_simp

lemma demo_io_tick:
  "\<exists>d st w. io_tick demo_io_host demo_io_state demo_tick_world = Some (Inr (Some d, st), w) \<and>
    length (flowMap d) = 1 \<and> map (\<lambda>p. length (agents (snd p))) (flowMap d) = [2]"
  using demo_io_run by (auto split: option.splits sum.splits prod.splits)

text \<open>The second flow ends in a time stamp whose nanoseconds are a full second.\<close>

definition demo_bad_flows :: "flow_data list" where
  "demo_bad_flows = [demo_flow 6 100 0, (demo_flow 6 100 1)\<lparr> fd_data := (fd_data (demo_flow 6 100 1))\<lparr> end_time :=
     \<lparr> sec = 7, nsec = 1000000000 \<rparr> \<rparr> \<rparr>]"

theorem make_batch_outcome_witness:
  "\<exists>ex. make_batch (adjuster_toUnixNanoseconds demo_adjuster) 0 demo_bad_flows [] = Inl ex"
  using make_batch_outcome [OF demo_reach stable.std_sort_axioms, where flows = demo_bad_flows and elapsed = 0
      and counters = "[]"]
  by (cases "make_batch (adjuster_toUnixNanoseconds demo_adjuster) 0 demo_bad_flows []")
    (auto simp: demo_bad_flows_def demo_flow_def)

end
