(* ===== verification/Pipeline.thy ===== *)
theory Pipeline
  imports Io_Thread
begin

text \<open>
  The four threads of \<^verbatim>\<open>src/main.cpp\<close> and the asio thread of the sender, interleaved: one step relation
  per thread over the state they share, which is the flag \<^verbatim>\<open>running\<close>, the mutex-protected queue with its
  condition variable, and the handlers posted to asio.

  A program counter names the point a thread has reached; a step is what it does up to the next point
  another thread could observe. The mutex shows in two places: waiting on the condition variable tests the
  predicate and then blocks, holding the mutex in between (\<open>TxBlocking\<close>), so that a push cannot happen
  there; \<^verbatim>\<open>notify_all\<close> is called without the mutex, so it can, and wakes nobody.
\<close>

subsection \<open>State\<close>

datatype nic_pc = NicEntry | NicLoop | NicTick | NicPush ExportData | NicGrace | NicDone

datatype tx_pc = TxInit | TxCheck | TxBlocking | TxWaiting | TxSend ExportData | TxJoin | TxDone | TxFailed

datatype signal_pc = SignalLoop | SignalWait | SignalNotify | SignalDone

datatype main_pc = MainRun | MainStop | MainNotify | MainJoinSignal | MainJoinNic | MainJoinTx | MainDone

text \<open>
  \<open>posted\<close> are the handlers waiting in the asio service, \<open>wire\<close> the texts handed to \<^verbatim>\<open>async_send_to\<close>;
  \<open>pushed\<close> and \<open>taken\<close> only record what went through the queue. \<open>aborted\<close> is the end of the process by an
  exception that leaves the I/O thread.
\<close>

record 'w pipeline =
  running :: bool
  shared_queue :: "ExportData list"
  io_st :: io_state
  io_world :: 'w
  nic_at :: nic_pc
  tx_at :: tx_pc
  signal_at :: signal_pc
  main_at :: main_pc
  posted :: "string list"
  wire :: "string list"
  test_output :: "string list"
  pushed :: "ExportData list"
  taken :: "ExportData list"
  aborted :: bool

text \<open>
  What the threads are given. \<open>spurious\<close> says whether a wait may return without a notification.
  \<open>grace\<close> says that the second of sleep before the last \<^verbatim>\<open>notify_all\<close> outlasts the moment between the test
  of the predicate and the block.
\<close>

record 'w program =
  prog_host :: "'w host"
  prog_dump :: "json \<Rightarrow> string"
  prog_debug :: bool
  prog_runSecs :: int
  spurious :: bool
  grace :: bool

definition pipe_init :: "io_state \<Rightarrow> 'w \<Rightarrow> 'w pipeline" where
  "pipe_init st w = \<lparr> running = True, shared_queue = [], io_st = st, io_world = w, nic_at = NicEntry,
     tx_at = TxInit, signal_at = SignalLoop, main_at = MainRun, posted = [], wire = [], test_output = [],
     pushed = [], taken = [], aborted = False \<rparr>"

text \<open>Only the transmit thread ever waits, so \<^verbatim>\<open>notify_one\<close> and \<^verbatim>\<open>notify_all\<close> are the same.\<close>

definition notify :: "'w pipeline \<Rightarrow> 'w pipeline" where
  "notify s = (if tx_at s = TxWaiting then s\<lparr> tx_at := TxCheck \<rparr> else s)"

definition batch_texts :: "'w program \<Rightarrow> ExportData \<Rightarrow> string list" where
  "batch_texts P d = fst (send_batch (prog_dump P) (prog_debug P) d)"

definition batch_lines :: "'w program \<Rightarrow> ExportData \<Rightarrow> string list" where
  "batch_lines P d = snd (send_batch (prog_dump P) (prog_debug P) d)"

subsection \<open>Threads\<close>

inductive nic_step :: "'w program \<Rightarrow> 'w pipeline \<Rightarrow> 'w pipeline \<Rightarrow> bool" for P where
  nic_entry: "nic_at s = NicEntry \<Longrightarrow> io_enter (prog_host P) (io_st s) (io_world s) = (st, w) \<Longrightarrow>
    nic_step P s (s\<lparr> io_st := st, io_world := w, nic_at := NicLoop \<rparr>)"
| nic_check: "nic_at s = NicLoop \<Longrightarrow>
    nic_step P s (s\<lparr> nic_at := (if running s then NicTick else NicGrace) \<rparr>)"
| nic_tick: "nic_at s = NicTick \<Longrightarrow> io_tick (prog_host P) (io_st s) (io_world s) = Some (Inr (batch, st), w) \<Longrightarrow>
    nic_step P s (s\<lparr> io_st := st, io_world := w,
      nic_at := (case batch of None \<Rightarrow> NicLoop | Some d \<Rightarrow> NicPush d) \<rparr>)"
| nic_throw: "nic_at s = NicTick \<Longrightarrow> io_tick (prog_host P) (io_st s) (io_world s) = Some (Inl ex, w) \<Longrightarrow>
    nic_step P s (s\<lparr> io_world := w, aborted := True \<rparr>)"
| nic_push: "nic_at s = NicPush d \<Longrightarrow> tx_at s \<noteq> TxBlocking \<Longrightarrow>
    nic_step P s (notify (s\<lparr> shared_queue := shared_queue s @ [d], pushed := pushed s @ [d], nic_at := NicLoop \<rparr>))"
| nic_exit: "nic_at s = NicGrace \<Longrightarrow> grace P \<longrightarrow> tx_at s \<noteq> TxBlocking \<Longrightarrow>
    nic_step P s (notify (s\<lparr> nic_at := NicDone \<rparr>))"

inductive tx_step :: "'w program \<Rightarrow> 'w pipeline \<Rightarrow> 'w pipeline \<Rightarrow> bool" for P where
  tx_init: "tx_at s = TxInit \<Longrightarrow> tx_step P s (s\<lparr> tx_at := TxCheck \<rparr>)"
| tx_init_fails: "tx_at s = TxInit \<Longrightarrow> tx_step P s (s\<lparr> tx_at := TxFailed \<rparr>)"
| tx_test: "tx_at s = TxCheck \<Longrightarrow> shared_queue s = [] \<Longrightarrow> running s \<Longrightarrow> tx_step P s (s\<lparr> tx_at := TxBlocking \<rparr>)"
| tx_block: "tx_at s = TxBlocking \<Longrightarrow> tx_step P s (s\<lparr> tx_at := TxWaiting \<rparr>)"
| tx_spurious: "tx_at s = TxWaiting \<Longrightarrow> spurious P \<Longrightarrow> tx_step P s (s\<lparr> tx_at := TxCheck \<rparr>)"
| tx_break: "tx_at s = TxCheck \<Longrightarrow> shared_queue s = [] \<Longrightarrow> \<not> running s \<Longrightarrow> tx_step P s (s\<lparr> tx_at := TxJoin \<rparr>)"
| tx_pop: "tx_at s = TxCheck \<Longrightarrow> shared_queue s = d # q \<Longrightarrow>
    tx_step P s (s\<lparr> shared_queue := q, taken := taken s @ [d], tx_at := TxSend d \<rparr>)"
| tx_send: "tx_at s = TxSend d \<Longrightarrow>
    tx_step P s (s\<lparr> posted := posted s @ batch_texts P d, test_output := test_output s @ batch_lines P d,
      tx_at := TxCheck \<rparr>)"
| tx_join: "tx_at s = TxJoin \<Longrightarrow> posted s = [] \<Longrightarrow> tx_step P s (s\<lparr> tx_at := TxDone \<rparr>)"

text \<open>The thread in \<^verbatim>\<open>io.run()\<close> runs the posted handlers in the order they were posted.\<close>

inductive asio_step :: "'w pipeline \<Rightarrow> 'w pipeline \<Rightarrow> bool" where
  asio_send: "posted s = p # ps \<Longrightarrow> asio_step s (s\<lparr> posted := ps, wire := wire s @ [p] \<rparr>)"

text \<open>A wait for signals ends with a time-out, or with a signal or an error, which both stop the program.\<close>

inductive signal_step :: "'w pipeline \<Rightarrow> 'w pipeline \<Rightarrow> bool" where
  signal_check: "signal_at s = SignalLoop \<Longrightarrow>
    signal_step s (s\<lparr> signal_at := (if running s then SignalWait else SignalDone) \<rparr>)"
| signal_timeout: "signal_at s = SignalWait \<Longrightarrow> signal_step s (s\<lparr> signal_at := SignalLoop \<rparr>)"
| signal_stop: "signal_at s = SignalWait \<Longrightarrow> signal_step s (s\<lparr> running := False, signal_at := SignalNotify \<rparr>)"
| signal_notify: "signal_at s = SignalNotify \<Longrightarrow> signal_step s (notify (s\<lparr> signal_at := SignalDone \<rparr>))"

inductive main_step :: "'w program \<Rightarrow> 'w pipeline \<Rightarrow> 'w pipeline \<Rightarrow> bool" for P where
  main_leave: "main_at s = MainRun \<Longrightarrow> \<not> running s \<or> 0 < prog_runSecs P \<Longrightarrow> main_step P s (s\<lparr> main_at := MainStop \<rparr>)"
| main_stop: "main_at s = MainStop \<Longrightarrow> main_step P s (s\<lparr> running := False, main_at := MainNotify \<rparr>)"
| main_notify: "main_at s = MainNotify \<Longrightarrow> main_step P s (notify (s\<lparr> main_at := MainJoinSignal \<rparr>))"
| main_join_signal: "main_at s = MainJoinSignal \<Longrightarrow> signal_at s = SignalDone \<Longrightarrow>
    main_step P s (s\<lparr> main_at := MainJoinNic \<rparr>)"
| main_join_nic: "main_at s = MainJoinNic \<Longrightarrow> nic_at s = NicDone \<Longrightarrow> main_step P s (s\<lparr> main_at := MainJoinTx \<rparr>)"
| main_join_tx: "main_at s = MainJoinTx \<Longrightarrow> tx_at s = TxDone \<or> tx_at s = TxFailed \<Longrightarrow>
    main_step P s (s\<lparr> main_at := MainDone \<rparr>)"

inductive pipe_step :: "'w program \<Rightarrow> 'w pipeline \<Rightarrow> 'w pipeline \<Rightarrow> bool" for P where
  step_nic: "\<not> aborted s \<Longrightarrow> nic_step P s t \<Longrightarrow> pipe_step P s t"
| step_tx: "\<not> aborted s \<Longrightarrow> tx_step P s t \<Longrightarrow> pipe_step P s t"
| step_asio: "\<not> aborted s \<Longrightarrow> asio_step s t \<Longrightarrow> pipe_step P s t"
| step_signal: "\<not> aborted s \<Longrightarrow> signal_step s t \<Longrightarrow> pipe_step P s t"
| step_main: "\<not> aborted s \<Longrightarrow> main_step P s t \<Longrightarrow> pipe_step P s t"

inductive pipe_reach :: "'w program \<Rightarrow> io_state \<Rightarrow> 'w \<Rightarrow> 'w pipeline \<Rightarrow> bool" for P st w where
  reach_init: "pipe_reach P st w (pipe_init st w)"
| reach_step: "pipe_reach P st w s \<Longrightarrow> pipe_step P s t \<Longrightarrow> pipe_reach P st w t"

lemmas thread_cases = nic_step.cases tx_step.cases asio_step.cases signal_step.cases main_step.cases

lemma notify_simps [simp]:
  "running (notify s) = running s" "shared_queue (notify s) = shared_queue s" "io_st (notify s) = io_st s"
  "io_world (notify s) = io_world s" "nic_at (notify s) = nic_at s" "signal_at (notify s) = signal_at s"
  "main_at (notify s) = main_at s" "posted (notify s) = posted s" "wire (notify s) = wire s"
  "test_output (notify s) = test_output s" "pushed (notify s) = pushed s" "taken (notify s) = taken s"
  "aborted (notify s) = aborted s" "tx_at (notify s) = (if tx_at s = TxWaiting then TxCheck else tx_at s)"
  by (simp_all add: notify_def)

subsection \<open>Invariants\<close>

text \<open>The batch the transmit thread has taken and not yet posted.\<close>

definition in_hand :: "'w pipeline \<Rightarrow> ExportData list" where
  "in_hand s = (case tx_at s of TxSend d \<Rightarrow> [d] | _ \<Rightarrow> [])"

definition flow_inv :: "'w program \<Rightarrow> 'w pipeline \<Rightarrow> bool" where
  "flow_inv P s \<longleftrightarrow> pushed s = taken s @ shared_queue s \<and>
     concat (map (batch_texts P) (taken s)) = wire s @ posted s @ concat (map (batch_texts P) (in_hand s)) \<and>
     concat (map (batch_lines P) (taken s)) = test_output s @ concat (map (batch_lines P) (in_hand s))"

text \<open>Who can only be where it is after \<^verbatim>\<open>running\<close> was cleared.\<close>

definition stop_inv :: "'w pipeline \<Rightarrow> bool" where
  "stop_inv s \<longleftrightarrow> (running s \<longrightarrow> nic_at s \<notin> {NicGrace, NicDone} \<and> tx_at s \<notin> {TxJoin, TxDone} \<and>
     signal_at s \<notin> {SignalNotify, SignalDone} \<and> main_at s \<in> {MainRun, MainStop})"

text \<open>After the transmit thread has left its loop at most one batch is still to come.\<close>

definition last_inv :: "'w pipeline \<Rightarrow> bool" where
  "last_inv s \<longleftrightarrow> (tx_at s \<in> {TxJoin, TxDone} \<longrightarrow>
     length (shared_queue s) + (case nic_at s of NicTick \<Rightarrow> 1 | NicPush d \<Rightarrow> 1 | _ \<Rightarrow> 0) \<le> 1) \<and>
     (tx_at s = TxDone \<longrightarrow> posted s = []) \<and>
     (tx_at s \<in> {TxInit, TxFailed} \<longrightarrow> taken s = [])"

definition wake_inv :: "'w program \<Rightarrow> 'w pipeline \<Rightarrow> bool" where
  "wake_inv P s \<longleftrightarrow> (grace P \<and> nic_at s = NicDone \<longrightarrow> tx_at s \<noteq> TxBlocking \<and> tx_at s \<noteq> TxWaiting)"

definition join_inv :: "'w pipeline \<Rightarrow> bool" where
  "join_inv s \<longleftrightarrow> (main_at s \<in> {MainJoinNic, MainJoinTx, MainDone} \<longrightarrow> signal_at s = SignalDone) \<and>
     (main_at s \<in> {MainJoinTx, MainDone} \<longrightarrow> nic_at s = NicDone) \<and>
     (main_at s = MainDone \<longrightarrow> tx_at s = TxDone \<or> tx_at s = TxFailed)"

lemma flow_inv_step: "pipe_step P s t \<Longrightarrow> flow_inv P s \<Longrightarrow> flow_inv P t"
  by (erule pipe_step.cases; erule thread_cases)
    (auto simp: flow_inv_def in_hand_def split: tx_pc.splits)

lemma stop_inv_step: "pipe_step P s t \<Longrightarrow> stop_inv s \<Longrightarrow> stop_inv t"
  by (erule pipe_step.cases; erule thread_cases)
    (auto simp: stop_inv_def split: if_splits option.splits)

lemma last_inv_step: "pipe_step P s t \<Longrightarrow> stop_inv s \<Longrightarrow> last_inv s \<Longrightarrow> last_inv t"
  by (erule pipe_step.cases; erule thread_cases)
    (auto simp: last_inv_def stop_inv_def split: if_splits option.splits nic_pc.splits)

lemma wake_inv_step: "pipe_step P s t \<Longrightarrow> stop_inv s \<Longrightarrow> wake_inv P s \<Longrightarrow> wake_inv P t"
  by (erule pipe_step.cases; erule thread_cases)
    (auto simp: wake_inv_def stop_inv_def split: if_splits option.splits)

lemma join_inv_step: "pipe_step P s t \<Longrightarrow> join_inv s \<Longrightarrow> join_inv t"
  by (erule pipe_step.cases; erule thread_cases)
    (auto simp: join_inv_def split: if_splits option.splits)

lemma reach_invs:
  "pipe_reach P st w s \<Longrightarrow> flow_inv P s \<and> stop_inv s \<and> last_inv s \<and> wake_inv P s \<and> join_inv s"
proof (induction rule: pipe_reach.induct)
  case reach_init
  show ?case
    by (simp add: pipe_init_def flow_inv_def in_hand_def stop_inv_def last_inv_def wake_inv_def join_inv_def)
next
  case (reach_step s t)
  then show ?case
    using flow_inv_step stop_inv_step last_inv_step wake_inv_step join_inv_step by metis
qed

text \<open>
  C12 (invariant). The queue neither loses nor duplicates nor reorders a batch: at any moment, what was
  pushed is what was taken followed by what waits; and the datagrams sent so far, followed by those posted
  to the sender and by those of the batch in hand, are those of the batches taken, in order. The debug
  file has the line of every batch whose datagrams are posted.
\<close>

theorem pipeline_fifo:
  assumes "pipe_reach P st w s"
  shows "pushed s = taken s @ shared_queue s \<and>
    concat (map (batch_texts P) (taken s)) = wire s @ posted s @ concat (map (batch_texts P) (in_hand s)) \<and>
    concat (map (batch_lines P) (taken s)) = test_output s @ concat (map (batch_lines P) (in_hand s))"
  using reach_invs [OF assms] by (simp add: flow_inv_def)

lemma done_delivered:
  assumes "pipe_reach P st w s" "main_at s = MainDone"
  shows "nic_at s = NicDone \<and>
    (tx_at s = TxDone \<and> wire s = concat (map (batch_texts P) (taken s)) \<and>
       (pushed s = taken s \<or> (\<exists>d. pushed s = taken s @ [d])) \<or>
     tx_at s = TxFailed \<and> wire s = [] \<and> shared_queue s = pushed s)"
proof -
  note i = reach_invs [OF assms(1)]
  have nic: "nic_at s = NicDone" and tx: "tx_at s = TxDone \<or> tx_at s = TxFailed"
    using i assms(2) by (simp_all add: join_inv_def)
  from tx show ?thesis
  proof
    assume t: "tx_at s = TxDone"
    with i nic have "length (shared_queue s) \<le> 1" "posted s = []" by (simp_all add: last_inv_def)
    with i t nic show ?thesis
      by (cases "shared_queue s") (auto simp: flow_inv_def in_hand_def)
  next
    assume t: "tx_at s = TxFailed"
    with i have "taken s = []" by (simp add: last_inv_def)
    with i t nic show ?thesis by (auto simp: flow_inv_def in_hand_def)
  qed
qed

text \<open>
  C11 (safety). When the program returns, every datagram of every batch has been handed to the socket, in
  order, except that the last batch may be left in the queue; and if the sender could not be set up,
  nothing was sent and everything is left in the queue.
\<close>

theorem shutdown_delivers:
  assumes "pipe_reach P st w s" "main_at s = MainDone"
  shows "nic_at s = NicDone \<and>
    (tx_at s = TxDone \<and> wire s = concat (map (batch_texts P) (taken s)) \<and>
       (pushed s = taken s \<or> (\<exists>d. pushed s = taken s @ [d])) \<or>
     tx_at s = TxFailed \<and> wire s = [] \<and> shared_queue s = pushed s)"
  by (rule done_delivered [OF assms])

subsection \<open>The program as a channel\<close>

text \<open>
  What the rest of the network may expect, without threads, queue or sender: batches are accepted, and
  their datagrams leave one by one, each the next one of the batches accepted so far.
\<close>

record channel =
  accepted :: "ExportData list"
  delivered :: "string list"

inductive channel_step :: "(ExportData \<Rightarrow> string list) \<Rightarrow> channel \<Rightarrow> channel \<Rightarrow> bool" for texts where
  accept: "channel_step texts c (c\<lparr> accepted := accepted c @ [d] \<rparr>)"
| deliver: "concat (map texts (accepted c)) = delivered c @ p # rest \<Longrightarrow>
    channel_step texts c (c\<lparr> delivered := delivered c @ [p] \<rparr>)"
| idle: "channel_step texts c c"

definition channel_of :: "'w pipeline \<Rightarrow> channel" where
  "channel_of s = \<lparr> accepted = pushed s, delivered = wire s \<rparr>"

lemma channel_idle: "pushed t = pushed s \<Longrightarrow> wire t = wire s \<Longrightarrow> channel_step texts (channel_of s) (channel_of t)"
  by (simp add: channel_of_def idle)

lemma asio_delivers:
  assumes "asio_step s t" "flow_inv P s"
  shows "channel_step (batch_texts P) (channel_of s) (channel_of t)"
  using assms(1)
proof cases
  case (asio_send p ps)
  then have "concat (map (batch_texts P) (pushed s)) = wire s @ p #
      (ps @ concat (map (batch_texts P) (in_hand s)) @ concat (map (batch_texts P) (shared_queue s)))"
    using assms(2) by (simp add: flow_inv_def)
  then have "concat (map (batch_texts P) (accepted (channel_of s))) = delivered (channel_of s) @ p #
      (ps @ concat (map (batch_texts P) (in_hand s)) @ concat (map (batch_texts P) (shared_queue s)))"
    by (simp add: channel_of_def)
  from deliver [OF this] show ?thesis using asio_send by (simp add: channel_of_def)
qed

lemma nic_accepts: "nic_step P s t \<Longrightarrow> channel_step texts (channel_of s) (channel_of t)"
proof (erule nic_step.cases, goal_cases)
  case (5 s' d)
  then show ?case using accept [of texts "channel_of s" d] by (simp add: channel_of_def)
qed (auto intro: channel_idle)

lemma quiet_threads:
  "tx_step P s t \<Longrightarrow> pushed t = pushed s \<and> wire t = wire s"
  "signal_step s t \<Longrightarrow> pushed t = pushed s \<and> wire t = wire s"
  "main_step P s t \<Longrightarrow> pushed t = pushed s \<and> wire t = wire s"
  by (auto elim!: thread_cases)

text \<open>
  C15 (refinement). Every step of every thread is a step of the channel or none at all: seen from outside,
  the interleaved program accepts batches and lets their datagrams leave in order, one at a time.
\<close>

theorem pipeline_refines_channel:
  assumes "pipe_reach P st w s" "pipe_step P s t"
  shows "channel_step (batch_texts P) (channel_of s) (channel_of t)"
  using assms(2)
proof cases
  case step_asio
  with reach_invs [OF assms(1)] show ?thesis by (auto intro: asio_delivers)
qed (auto dest: quiet_threads intro: nic_accepts channel_idle)

subsection \<open>The batch that can be lost\<close>

lemma joins:
  assumes "pipe_reach P st w t" and t: "\<not> aborted t" "nic_at t = NicDone" "tx_at t = TxDone"
    "signal_at t = SignalDone" "main_at t = MainRun" "\<not> running t"
  shows "pipe_reach P st w (t\<lparr> running := False, main_at := MainDone \<rparr>)"
proof -
  let ?r = "pipe_reach P st w"
  from reach_step [OF assms(1) step_main [OF _ main_leave]]
  have "?r (t\<lparr> main_at := MainStop \<rparr>)" by (simp add: t)
  from reach_step [OF this step_main [OF _ main_stop]]
  have "?r (t\<lparr> running := False, main_at := MainNotify \<rparr>)" by (simp add: t)
  from reach_step [OF this step_main [OF _ main_notify]]
  have "?r (t\<lparr> running := False, main_at := MainJoinSignal \<rparr>)" by (simp add: t notify_def)
  from reach_step [OF this step_main [OF _ main_join_signal]]
  have "?r (t\<lparr> running := False, main_at := MainJoinNic \<rparr>)" by (simp add: t)
  from reach_step [OF this step_main [OF _ main_join_nic]]
  have "?r (t\<lparr> running := False, main_at := MainJoinTx \<rparr>)" by (simp add: t)
  from reach_step [OF this step_main [OF _ main_join_tx]]
  show ?thesis by (simp add: t)
qed

text \<open>
  A run: the stop signal arrives while the first tick is being read. The transmit thread sees an empty
  queue and a cleared flag and ends; then the tick pushes its batch.
\<close>

lemma entered:
  assumes "io_enter (prog_host P) st w = (st1, w1)"
  shows "pipe_reach P st w ((pipe_init st w)\<lparr> io_st := st1, io_world := w1, nic_at := NicLoop \<rparr>)"
  using reach_step [OF reach_init [of P st w] step_nic [OF _ nic_entry]] assms by (simp add: pipe_init_def)

lemma late_batch:
  assumes enter: "io_enter (prog_host P) st w = (st1, w1)"
    and tick: "io_tick (prog_host P) st1 w1 = Some (Inr (Some d, st'), w')"
  shows "\<exists>s. pipe_reach P st w s \<and> main_at s = MainDone \<and> tx_at s = TxDone \<and> shared_queue s = [d] \<and>
    pushed s = [d] \<and> wire s = []"
proof -
  let ?s = "(pipe_init st w)\<lparr> io_st := st1, io_world := w1, nic_at := NicLoop \<rparr>"
  let ?r = "pipe_reach P st w"
  have "?r (?s\<lparr> nic_at := NicTick \<rparr>)"
    using reach_step [OF entered [OF enter] step_nic [OF _ nic_check]] by (simp add: pipe_init_def)
  from reach_step [OF this step_tx [OF _ tx_init]] have "?r (?s\<lparr> nic_at := NicTick, tx_at := TxCheck \<rparr>)"
    by (simp add: pipe_init_def)
  from reach_step [OF this step_signal [OF _ signal_check]]
  have "?r (?s\<lparr> nic_at := NicTick, tx_at := TxCheck, signal_at := SignalWait \<rparr>)" by (simp add: pipe_init_def)
  from reach_step [OF this step_signal [OF _ signal_stop]]
  have "?r (?s\<lparr> running := False, nic_at := NicTick, tx_at := TxCheck, signal_at := SignalNotify \<rparr>)" by (simp add: pipe_init_def)
  from reach_step [OF this step_signal [OF _ signal_notify]]
  have "?r (?s\<lparr> running := False, nic_at := NicTick, tx_at := TxCheck, signal_at := SignalDone \<rparr>)"
    by (simp add: pipe_init_def notify_def)
  from reach_step [OF this step_tx [OF _ tx_break]]
  have "?r (?s\<lparr> running := False, nic_at := NicTick, tx_at := TxJoin, signal_at := SignalDone \<rparr>)" by (simp add: pipe_init_def)
  from reach_step [OF this step_tx [OF _ tx_join]]
  have "?r (?s\<lparr> running := False, nic_at := NicTick, tx_at := TxDone, signal_at := SignalDone \<rparr>)" by (simp add: pipe_init_def)
  from reach_step [OF this step_nic [OF _ nic_tick], of "Some d" st' w']
  have "?r (?s\<lparr> running := False, io_st := st', io_world := w', nic_at := NicPush d, tx_at := TxDone,
      signal_at := SignalDone \<rparr>)" by (simp add: pipe_init_def tick)
  from reach_step [OF this step_nic [OF _ nic_push], of d]
  have "?r (?s\<lparr> running := False, shared_queue := [d], io_st := st', io_world := w', nic_at := NicLoop,
      tx_at := TxDone, signal_at := SignalDone, pushed := [d] \<rparr>)" by (simp add: pipe_init_def notify_def)
  from reach_step [OF this step_nic [OF _ nic_check]]
  have "?r (?s\<lparr> running := False, shared_queue := [d], io_st := st', io_world := w', nic_at := NicGrace,
      tx_at := TxDone, signal_at := SignalDone, pushed := [d] \<rparr>)" by (simp add: pipe_init_def)
  from reach_step [OF this step_nic [OF _ nic_exit]]
  have r: "?r (?s\<lparr> running := False, shared_queue := [d], io_st := st', io_world := w', nic_at := NicDone,
      tx_at := TxDone, signal_at := SignalDone, pushed := [d] \<rparr>)" (is "pipe_reach P st w ?fin") by (simp add: pipe_init_def notify_def)
  have t: "\<not> aborted ?fin" "nic_at ?fin = NicDone" "tx_at ?fin = TxDone" "signal_at ?fin = SignalDone"
    "main_at ?fin = MainRun" "\<not> running ?fin" by (simp_all add: pipe_init_def)
  from joins [OF r t] show ?thesis by (auto simp: pipe_init_def)
qed

text \<open>
  C16 (safety). A batch can be lost: whenever a first tick yields one, the program has a run in which that
  batch is pushed, every thread ends, the program returns, and nothing was ever sent.
\<close>

theorem last_batch_lost:
  assumes "io_enter (prog_host P) st w = (st1, w1)"
    and "io_tick (prog_host P) st1 w1 = Some (Inr (Some d, st'), w')"
  shows "\<exists>s. pipe_reach P st w s \<and> main_at s = MainDone \<and> tx_at s = TxDone \<and> shared_queue s = [d] \<and>
    pushed s = [d] \<and> wire s = []"
  by (rule late_batch [OF assms])

subsection \<open>A run that delivers\<close>

lemma asio_drain:
  assumes "pipe_reach P st w s" "\<not> aborted s"
  shows "pipe_reach P st w (s\<lparr> posted := [], wire := wire s @ posted s \<rparr>)"
  using assms
proof (induction "posted s" arbitrary: s)
  case Nil
  then show ?case by (metis append_Nil2 pipeline.surjective pipeline.update_convs(9,10))
next
  case (Cons p ps)
  let ?t = "s\<lparr> posted := ps, wire := wire s @ [p] \<rparr>"
  have "pipe_reach P st w ?t"
    using reach_step [OF Cons.prems(1) step_asio [OF Cons.prems(2) asio_send]] Cons.hyps(2) by simp
  from Cons.hyps(1) [of ?t, OF _ this] Cons.prems(2) Cons.hyps(2) [symmetric] show ?case by simp
qed

text \<open>From a state at rest the program can stop with everything sent.\<close>

lemma stop_when_idle:
  assumes "pipe_reach P st w s" and i: "\<not> aborted s" "nic_at s = NicLoop" "tx_at s = TxCheck"
    "signal_at s = SignalLoop" "main_at s = MainRun" "running s" "shared_queue s = []" "posted s = []"
  shows "\<exists>t. pipe_reach P st w t \<and> main_at t = MainDone \<and> tx_at t = TxDone \<and> taken t = taken s"
proof -
  let ?r = "pipe_reach P st w"
  from reach_step [OF assms(1) step_signal [OF _ signal_check]] have "?r (s\<lparr> signal_at := SignalWait \<rparr>)"
    by (simp add: i)
  from reach_step [OF this step_signal [OF _ signal_stop]]
  have "?r (s\<lparr> running := False, signal_at := SignalNotify \<rparr>)" by (simp add: i)
  from reach_step [OF this step_signal [OF _ signal_notify]]
  have "?r (s\<lparr> running := False, signal_at := SignalDone \<rparr>)" by (simp add: i notify_def)
  from reach_step [OF this step_tx [OF _ tx_break]]
  have "?r (s\<lparr> running := False, signal_at := SignalDone, tx_at := TxJoin \<rparr>)" by (simp add: i)
  from reach_step [OF this step_tx [OF _ tx_join]]
  have "?r (s\<lparr> running := False, signal_at := SignalDone, tx_at := TxDone \<rparr>)" by (simp add: i)
  from reach_step [OF this step_nic [OF _ nic_check]]
  have "?r (s\<lparr> running := False, signal_at := SignalDone, tx_at := TxDone, nic_at := NicGrace \<rparr>)" by (simp add: i)
  from reach_step [OF this step_nic [OF _ nic_exit]]
  have r: "?r (s\<lparr> running := False, signal_at := SignalDone, tx_at := TxDone, nic_at := NicDone \<rparr>)"
    (is "pipe_reach P st w ?fin") by (simp add: i notify_def)
  have t: "\<not> aborted ?fin" "nic_at ?fin = NicDone" "tx_at ?fin = TxDone" "signal_at ?fin = SignalDone"
    "main_at ?fin = MainRun" "\<not> running ?fin" by (simp_all add: i)
  from joins [OF r t] show ?thesis by (auto simp: i)
qed

lemma pushed_batch:
  assumes enter: "io_enter (prog_host P) st w = (st1, w1)"
    and tick: "io_tick (prog_host P) st1 w1 = Some (Inr (Some d, st'), w')"
  shows "pipe_reach P st w ((pipe_init st w)\<lparr> io_st := st', io_world := w', nic_at := NicLoop, tx_at := TxCheck,
    shared_queue := [d], pushed := [d] \<rparr>)"
proof -
  let ?s = "(pipe_init st w)\<lparr> io_st := st1, io_world := w1, nic_at := NicLoop \<rparr>"
  let ?r = "pipe_reach P st w"
  have "?r (?s\<lparr> nic_at := NicTick \<rparr>)"
    using reach_step [OF entered [OF enter] step_nic [OF _ nic_check]] by (simp add: pipe_init_def)
  from reach_step [OF this step_tx [OF _ tx_init]] have "?r (?s\<lparr> nic_at := NicTick, tx_at := TxCheck \<rparr>)"
    by (simp add: pipe_init_def)
  from reach_step [OF this step_nic [OF _ nic_tick], of "Some d" st' w']
  have "?r (?s\<lparr> io_st := st', io_world := w', nic_at := NicPush d, tx_at := TxCheck \<rparr>)"
    by (simp add: pipe_init_def tick)
  from reach_step [OF this step_nic [OF _ nic_push], of d] show ?thesis by (simp add: pipe_init_def notify_def)
qed

lemma sent_batch:
  assumes "io_enter (prog_host P) st w = (st1, w1)"
    and "io_tick (prog_host P) st1 w1 = Some (Inr (Some d, st'), w')"
  shows "\<exists>s. pipe_reach P st w s \<and> main_at s = MainDone \<and> tx_at s = TxDone \<and> taken s = [d]"
proof -
  let ?s = "(pipe_init st w)\<lparr> io_st := st', io_world := w', nic_at := NicLoop \<rparr>"
  let ?r = "pipe_reach P st w"
  from reach_step [OF pushed_batch [OF assms] step_tx [OF _ tx_pop], of d "[]"]
  have "?r (?s\<lparr> io_st := st', io_world := w', nic_at := NicLoop, tx_at := TxSend d, pushed := [d], taken := [d] \<rparr>)"
    by (simp add: pipe_init_def)
  from reach_step [OF this step_tx [OF _ tx_send], of d]
  have "?r (?s\<lparr> io_st := st', io_world := w', nic_at := NicLoop, tx_at := TxCheck, pushed := [d], taken := [d],
      posted := batch_texts P d, test_output := batch_lines P d \<rparr>)" by (simp add: pipe_init_def)
  from asio_drain [OF this]
  have "?r (?s\<lparr> io_st := st', io_world := w', nic_at := NicLoop, tx_at := TxCheck, pushed := [d], taken := [d],
      wire := batch_texts P d, test_output := batch_lines P d \<rparr>)" by (simp add: pipe_init_def)
  from stop_when_idle [OF this] show ?thesis by (simp add: pipe_init_def)
qed

subsection \<open>Shutdown\<close>

text \<open>How many steps the program can still make once it is stopping.\<close>

definition batch_work :: "'w program \<Rightarrow> ExportData \<Rightarrow> nat" where
  "batch_work P d = 2 + length (batch_texts P d)"

definition nic_work :: "'w program \<Rightarrow> 'w pipeline \<Rightarrow> nat" where
  "nic_work P s = (case nic_at s of NicDone \<Rightarrow> 0 | NicGrace \<Rightarrow> 1 | NicLoop \<Rightarrow> 2 | NicEntry \<Rightarrow> 3
     | NicPush d \<Rightarrow> 3 + batch_work P d
     | NicTick \<Rightarrow> 4 + (case io_tick (prog_host P) (io_st s) (io_world s) of
         Some (Inr (Some d, _), _) \<Rightarrow> batch_work P d | _ \<Rightarrow> 0))"

definition tx_work :: "'w program \<Rightarrow> 'w pipeline \<Rightarrow> nat" where
  "tx_work P s = (case tx_at s of TxInit \<Rightarrow> 5 | TxBlocking \<Rightarrow> 4 | TxWaiting \<Rightarrow> 3 | TxCheck \<Rightarrow> 2
     | TxSend d \<Rightarrow> 3 + length (batch_texts P d) | TxJoin \<Rightarrow> 1 | TxDone \<Rightarrow> 0 | TxFailed \<Rightarrow> 0)"

definition signal_work :: "'w pipeline \<Rightarrow> nat" where
  "signal_work s = (case signal_at s of SignalWait \<Rightarrow> 3 | SignalLoop \<Rightarrow> 2 | SignalNotify \<Rightarrow> 1 | SignalDone \<Rightarrow> 0)"

definition main_work :: "'w pipeline \<Rightarrow> nat" where
  "main_work s = (case main_at s of MainRun \<Rightarrow> 6 | MainStop \<Rightarrow> 5 | MainNotify \<Rightarrow> 4 | MainJoinSignal \<Rightarrow> 3
     | MainJoinNic \<Rightarrow> 2 | MainJoinTx \<Rightarrow> 1 | MainDone \<Rightarrow> 0)"

definition work_left :: "'w program \<Rightarrow> 'w pipeline \<Rightarrow> nat" where
  "work_left P s = (if aborted s then 0 else 1 + nic_work P s + tx_work P s +
     sum_list (map (batch_work P) (shared_queue s)) + length (posted s) + signal_work s + main_work s)"

lemmas work_defs = nic_work_def tx_work_def signal_work_def main_work_def work_left_def

lemma notify_work [simp]:
  "nic_work P (notify s) = nic_work P s" "signal_work (notify s) = signal_work s"
  "main_work (notify s) = main_work s" "tx_work P (notify s) \<le> tx_work P s"
  by (auto simp: nic_work_def signal_work_def main_work_def tx_work_def cong: nic_pc.case_cong)

lemma stopping_step:
  assumes "pipe_step P s t" "\<not> running s"
  shows "\<not> running t \<and> work_left P t < work_left P s"
  using assms
  by (cases rule: pipe_step.cases; elim thread_cases)
    (auto simp: work_left_def nic_work_def tx_work_def signal_work_def main_work_def batch_work_def notify_def
      split: option.splits)

lemma stopping_steps:
  assumes "(pipe_step P ^^ n) s t" "\<not> running s"
  shows "\<not> running t \<and> n + work_left P t \<le> work_left P s"
  using assms
proof (induction n arbitrary: t)
  case (Suc n)
  then obtain u where "(pipe_step P ^^ n) s u" "pipe_step P u t" by auto
  with Suc.IH [of u] Suc.prems(2) stopping_step [of P u t] show ?case by auto
qed simp

text \<open>Where a stopping program can come to rest.\<close>

definition tick_hangs :: "'w program \<Rightarrow> 'w pipeline \<Rightarrow> bool" where
  "tick_hangs P s \<longleftrightarrow> nic_at s = NicTick \<and> io_tick (prog_host P) (io_st s) (io_world s) = None"

lemma nic_moves:
  assumes "\<not> aborted s" "\<not> tick_hangs P s" "nic_at s \<noteq> NicDone" "tx_at s \<noteq> TxBlocking"
  shows "\<exists>t. pipe_step P s t"
proof (cases "nic_at s")
  case NicEntry
  obtain st w where "io_enter (prog_host P) (io_st s) (io_world s) = (st, w)" by (rule prod.exhaust)
  from step_nic [OF assms(1) nic_entry [OF NicEntry this]] show ?thesis by blast
next
  case NicLoop
  then show ?thesis using assms(1) step_nic nic_check by blast
next
  case NicTick
  with assms(2) obtain r w where "io_tick (prog_host P) (io_st s) (io_world s) = Some (r, w)"
    by (auto simp: tick_hangs_def)
  with NicTick have "\<exists>t. nic_step P s t"
    by (cases r) (auto dest: nic_throw nic_tick)
  then show ?thesis using assms(1) step_nic by blast
next
  case (NicPush d)
  then show ?thesis using assms(1,4) step_nic nic_push by blast
next
  case NicGrace
  then show ?thesis using assms(1,4) step_nic nic_exit by blast
qed (use assms(3) in simp)

lemma signal_moves:
  assumes "\<not> aborted s" "signal_at s \<noteq> SignalDone"
  shows "\<exists>t. pipe_step P s t"
  using assms step_signal [of s _ P] signal_check [of s] signal_timeout [of s] signal_notify [of s]
  by (cases "signal_at s") blast+

lemma tx_moves:
  assumes "\<not> aborted s" "\<not> running s" "tx_at s \<noteq> TxDone" "tx_at s \<noteq> TxFailed" "tx_at s \<noteq> TxWaiting"
  shows "\<exists>t. pipe_step P s t"
proof -
  have "\<exists>t. tx_step P s t \<or> asio_step s t"
  proof (cases "tx_at s")
    case TxCheck
    with assms(2) show ?thesis
      by (cases "shared_queue s") (blast intro: tx_break tx_pop)+
  next
    case TxJoin
    then show ?thesis by (cases "posted s") (blast intro: tx_join asio_send)+
  qed (use assms in \<open>blast intro: tx_init tx_block tx_send\<close>)+
  then show ?thesis using assms(1) step_tx step_asio by blast
qed

lemma main_moves:
  assumes "\<not> aborted s" "\<not> running s" "signal_at s = SignalDone" "nic_at s = NicDone"
    "tx_at s = TxDone \<or> tx_at s = TxFailed" "main_at s \<noteq> MainDone"
  shows "\<exists>t. pipe_step P s t"
proof -
  have "\<exists>t. main_step P s t"
    using assms by (cases "main_at s")
      (blast intro: main_leave main_stop main_notify main_join_signal main_join_nic main_join_tx)+
  then show ?thesis using assms(1) step_main by blast
qed

lemma no_standstill:
  assumes "pipe_reach P st w s" "grace P" "\<not> running s" "\<not> aborted s" "\<not> tick_hangs P s" "main_at s \<noteq> MainDone"
  shows "\<exists>t. pipe_step P s t"
proof (rule ccontr)
  assume stuck: "\<nexists>t. pipe_step P s t"
  have sig: "signal_at s = SignalDone" using stuck signal_moves assms(4) by blast
  have blk: "tx_at s \<noteq> TxBlocking" using stuck tx_moves [OF assms(4,3), of P] by auto
  have nic: "nic_at s = NicDone" using stuck nic_moves [OF assms(4,5) _ blk] by blast
  with reach_invs [OF assms(1)] assms(2) have "tx_at s \<noteq> TxWaiting" by (simp add: wake_inv_def)
  then have "tx_at s = TxDone \<or> tx_at s = TxFailed" using stuck tx_moves [OF assms(4,3)] by blast
  with stuck main_moves [OF assms(4,3) sig nic _ assms(6)] show False by blast
qed

text \<open>
  C14 (liveness). Once the program is told to stop, it stops: from every state it can be in then, whatever
  the order of the threads, it makes only so many more steps; and it comes to rest only when \<^verbatim>\<open>main\<close> has
  returned, an exception has ended it, or the SmartNIC keeps a bank busy for ever.
\<close>

theorem shutdown_completes:
  assumes "pipe_reach P st w s" "grace P" "\<not> running s"
  shows "((pipe_step P ^^ n) s t \<longrightarrow> n \<le> work_left P s) \<and>
    ((\<nexists>t. pipe_step P s t) \<longrightarrow> main_at s = MainDone \<or> aborted s \<or> tick_hangs P s)"
  using stopping_steps [OF _ assms(3)] no_standstill [OF assms] by (metis add_leE)

text \<open>
  C39 (safety). The last notification of the I/O thread is what this rests on: without the second of sleep
  before it, all notifications can fall into the moment before the transmit thread blocks, and then \<^verbatim>\<open>main\<close>
  waits for that thread for ever.
\<close>

theorem lost_wakeup:
  assumes "\<not> grace P" "\<not> spurious P"
  shows "\<exists>s. pipe_reach P st w s \<and> main_at s = MainJoinTx \<and> tx_at s = TxWaiting \<and> (\<nexists>t. pipe_step P s t)"
proof -
  obtain st1 w1 where enter: "io_enter (prog_host P) st w = (st1, w1)" by (rule prod.exhaust)
  let ?s = "(pipe_init st w)\<lparr> io_st := st1, io_world := w1, nic_at := NicLoop \<rparr>"
  let ?r = "pipe_reach P st w"
  from reach_step [OF entered [OF enter] step_tx [OF _ tx_init]] have "?r (?s\<lparr> tx_at := TxCheck \<rparr>)" by (simp add: pipe_init_def)
  from reach_step [OF this step_tx [OF _ tx_test]] have "?r (?s\<lparr> tx_at := TxBlocking \<rparr>)" by (simp add: pipe_init_def)
  from reach_step [OF this step_signal [OF _ signal_check]]
  have "?r (?s\<lparr> tx_at := TxBlocking, signal_at := SignalWait \<rparr>)" by (simp add: pipe_init_def)
  from reach_step [OF this step_signal [OF _ signal_stop]]
  have "?r (?s\<lparr> running := False, tx_at := TxBlocking, signal_at := SignalNotify \<rparr>)" by (simp add: pipe_init_def)
  from reach_step [OF this step_signal [OF _ signal_notify]]
  have "?r (?s\<lparr> running := False, tx_at := TxBlocking, signal_at := SignalDone \<rparr>)" by (simp add: pipe_init_def notify_def)
  from reach_step [OF this step_nic [OF _ nic_check]]
  have "?r (?s\<lparr> running := False, nic_at := NicGrace, tx_at := TxBlocking, signal_at := SignalDone \<rparr>)"
    by (simp add: pipe_init_def)
  from reach_step [OF this step_nic [OF _ nic_exit]]
  have "?r (?s\<lparr> running := False, nic_at := NicDone, tx_at := TxBlocking, signal_at := SignalDone \<rparr>)"
    by (simp add: pipe_init_def notify_def assms)
  from reach_step [OF this step_main [OF _ main_leave]]
  have "?r (?s\<lparr> running := False, nic_at := NicDone, tx_at := TxBlocking, signal_at := SignalDone,
      main_at := MainStop \<rparr>)" by (simp add: pipe_init_def)
  from reach_step [OF this step_main [OF _ main_stop]]
  have "?r (?s\<lparr> running := False, nic_at := NicDone, tx_at := TxBlocking, signal_at := SignalDone,
      main_at := MainNotify \<rparr>)" by (simp add: pipe_init_def)
  from reach_step [OF this step_main [OF _ main_notify]]
  have "?r (?s\<lparr> running := False, nic_at := NicDone, tx_at := TxBlocking, signal_at := SignalDone,
      main_at := MainJoinSignal \<rparr>)" by (simp add: pipe_init_def notify_def)
  from reach_step [OF this step_main [OF _ main_join_signal]]
  have "?r (?s\<lparr> running := False, nic_at := NicDone, tx_at := TxBlocking, signal_at := SignalDone,
      main_at := MainJoinNic \<rparr>)" by (simp add: pipe_init_def)
  from reach_step [OF this step_main [OF _ main_join_nic]]
  have "?r (?s\<lparr> running := False, nic_at := NicDone, tx_at := TxBlocking, signal_at := SignalDone,
      main_at := MainJoinTx \<rparr>)" by (simp add: pipe_init_def)
  from reach_step [OF this step_tx [OF _ tx_block]]
  have r: "?r (?s\<lparr> running := False, nic_at := NicDone, tx_at := TxWaiting, signal_at := SignalDone,
      main_at := MainJoinTx \<rparr>)" (is "pipe_reach P st w ?fin") by (simp add: pipe_init_def)
  have "\<nexists>t. pipe_step P ?fin t"
    by (auto simp: pipe_init_def assms elim!: pipe_step.cases thread_cases)
  with r show ?thesis by (intro exI [of _ ?fin]) simp
qed

subsection \<open>A worked run\<close>

definition demo_program :: "mem_world program" where
  "demo_program = \<lparr> prog_host = demo_io_host, prog_dump = (\<lambda>_. ''{}''), prog_debug = False, prog_runSecs = 0,
     spurious = False, grace = True \<rparr>"

lemma demo_enter: "io_enter (prog_host demo_program) demo_io_state demo_tick_world = (demo_io_state, demo_tick_world)"
  by (simp add: io_enter_def demo_program_def demo_io_host_def demo_io_state_def demo_tick_world_def mem_at_def)

theorem last_batch_lost_witness:
  "\<exists>d s. pipe_reach demo_program demo_io_state demo_tick_world s \<and> main_at s = MainDone \<and> pushed s = [d] \<and> wire s = []"
proof -
  obtain d st w where "io_tick (prog_host demo_program) demo_io_state demo_tick_world = Some (Inr (Some d, st), w)"
    using demo_io_tick by (auto simp: demo_program_def)
  from last_batch_lost [OF demo_enter this] show ?thesis by blast
qed

lemma demo_late:
  "\<exists>s d. pipe_reach demo_program demo_io_state demo_tick_world s \<and> main_at s = MainDone \<and> tx_at s = TxDone \<and>
    shared_queue s = [d]"
proof -
  obtain d st w where "io_tick (prog_host demo_program) demo_io_state demo_tick_world = Some (Inr (Some d, st), w)"
    using demo_io_tick by (auto simp: demo_program_def)
  from late_batch [OF demo_enter this] show ?thesis by blast
qed

theorem pipeline_fifo_witness:
  "\<exists>s d. pipe_reach demo_program demo_io_state demo_tick_world s \<and> shared_queue s = [d] \<and> pushed s = taken s @ [d]"
proof -
  obtain s d where "pipe_reach demo_program demo_io_state demo_tick_world s" "shared_queue s = [d]"
    using demo_late by blast
  with pipeline_fifo [OF this(1)] show ?thesis by auto
qed

theorem pipeline_refines_channel_witness:
  "channel_step (batch_texts demo_program) (channel_of (pipe_init demo_io_state demo_tick_world))
    (channel_of ((pipe_init demo_io_state demo_tick_world)\<lparr> tx_at := TxCheck \<rparr>))"
  by (rule pipeline_refines_channel [OF reach_init step_tx [OF _ tx_init]]) (simp_all add: pipe_init_def)

theorem shutdown_delivers_witness:
  "\<exists>s. pipe_reach demo_program demo_io_state demo_tick_world s \<and> main_at s = MainDone \<and>
    wire s = concat (map (batch_texts demo_program) (taken s))"
proof -
  obtain s where s: "pipe_reach demo_program demo_io_state demo_tick_world s" "main_at s = MainDone" "tx_at s = TxDone"
    using demo_late by blast
  from shutdown_delivers [OF s(1,2)] s show ?thesis by auto
qed

theorem shutdown_completes_witness:
  "\<exists>s. pipe_reach demo_program demo_io_state demo_tick_world s \<and>
    \<not> (pipe_step demo_program ^^ Suc (work_left demo_program s)) s s"
proof -
  obtain s where s: "pipe_reach demo_program demo_io_state demo_tick_world s" "tx_at s = TxDone"
    using demo_late by blast
  have "grace demo_program" by (simp add: demo_program_def)
  moreover have "\<not> running s" using reach_invs [OF s(1)] s(2) by (auto simp: stop_inv_def)
  ultimately show ?thesis
    using shutdown_completes [OF s(1), of "Suc (work_left demo_program s)" s] s(1) by (meson not_less_eq_eq order_refl)
qed

theorem lost_wakeup_witness:
  "\<exists>s. pipe_reach (demo_program\<lparr> grace := False \<rparr>) demo_io_state demo_tick_world s \<and> main_at s = MainJoinTx \<and>
    tx_at s = TxWaiting"
proof -
  have "\<not> grace (demo_program\<lparr> grace := False \<rparr>)" "\<not> spurious (demo_program\<lparr> grace := False \<rparr>)"
    by (simp_all add: demo_program_def)
  from lost_wakeup [OF this] show ?thesis by blast
qed

end
