(* ===== verification/Device.thy ===== *)
theory Device
  imports Nfp_Api Std_Map
begin

text \<open>
  \<^verbatim>\<open>NFPDevice\<close> (\<^verbatim>\<open>src/Device.cpp\<close>): opens the device, caches its run-time symbols by name and closes
  it in the destructor. The SDK calls on devices are a record of their own.
\<close>

type_synonym nfp_device = nat

record 'w device_api =
  device_open :: "u32 \<Rightarrow> 'w \<Rightarrow> nfp_device option \<times> 'w"
  device_cpp :: "nfp_device \<Rightarrow> 'w \<Rightarrow> nfp_cpp option \<times> 'w"
  device_close :: "nfp_device \<Rightarrow> 'w \<Rightarrow> 'w"
  rtsym_count :: "nfp_device \<Rightarrow> 'w \<Rightarrow> int \<times> 'w"
  rtsym_get :: "nfp_device \<Rightarrow> int \<Rightarrow> 'w \<Rightarrow> nfp_rtsym option \<times> 'w"
  strerror_errno :: "'w \<Rightarrow> string"

record NFPDevice =
  nfp_dev :: "nfp_device option"
  nfp_cpp_handle :: "nfp_cpp option"
  symbolCache :: "(string, nfp_rtsym) omap"

text \<open>The loop of the constructor over the symbol indices.\<close>

fun cache_symbols ::
  "'w device_api \<Rightarrow> nfp_device \<Rightarrow> int list \<Rightarrow> (string, nfp_rtsym) omap \<Rightarrow> 'w \<Rightarrow> (string, nfp_rtsym) omap \<times> 'w" where
  "cache_symbols api dev [] m w = (m, w)"
| "cache_symbols api dev (i # is) m w =
    (case rtsym_get api dev i w of (rtsym, w) \<Rightarrow>
       cache_symbols api dev is (case rtsym of None \<Rightarrow> m | Some s \<Rightarrow> map_update (sym_name s) s m) w)"

definition new_NFPDevice :: "'w device_api \<Rightarrow> u32 \<Rightarrow> 'w \<Rightarrow> NFPDevice outcome \<times> 'w" where
  "new_NFPDevice api devnum w =
    (case device_open api devnum w of
       (None, w) \<Rightarrow> (Inl (runtime_error (''nfp_device_open failed: '' @ strerror_errno api w)), w)
     | (Some dev, w) \<Rightarrow>
    (case device_cpp api dev w of
       (None, w) \<Rightarrow> let w = device_close api dev w in
         (Inl (runtime_error (''nfp_device_cpp failed: '' @ strerror_errno api w)), w)
     | (Some cpp, w) \<Rightarrow>
    (case rtsym_count api dev w of (symbolCount, w) \<Rightarrow>
    (case cache_symbols api dev [0..symbolCount - 1] [] w of (cache, w) \<Rightarrow>
       (Inr \<lparr> nfp_dev = Some dev, nfp_cpp_handle = Some cpp, symbolCache = cache \<rparr>, w)))))"

definition delete_NFPDevice :: "'w device_api \<Rightarrow> NFPDevice \<Rightarrow> 'w \<Rightarrow> NFPDevice \<times> 'w" where
  "delete_NFPDevice api d w =
    (case nfp_dev d of None \<Rightarrow> (d, w) | Some dev \<Rightarrow> (d\<lparr> nfp_dev := None \<rparr>, device_close api dev w))"

definition getSymbolData :: "NFPDevice \<Rightarrow> string option \<Rightarrow> nfp_rtsym option" where
  "getSymbolData d symbolName =
    (case symbolName of None \<Rightarrow> None
     | Some name \<Rightarrow> if nfp_dev d = None then None else map_of (symbolCache d) name)"

subsection \<open>The symbol cache\<close>

text \<open>The symbols the SDK returns for a list of indices.\<close>

fun symbols_read :: "'w device_api \<Rightarrow> nfp_device \<Rightarrow> int list \<Rightarrow> 'w \<Rightarrow> nfp_rtsym list \<times> 'w" where
  "symbols_read api dev [] w = ([], w)"
| "symbols_read api dev (i # is) w =
    (case rtsym_get api dev i w of (rtsym, w) \<Rightarrow>
     case symbols_read api dev is w of (ss, w) \<Rightarrow>
       ((case rtsym of None \<Rightarrow> ss | Some s \<Rightarrow> s # ss), w))"

lemma cache_symbols_fold:
  "cache_symbols api dev is m w =
    (foldl (\<lambda>m s. map_update (sym_name s) s m) m (fst (symbols_read api dev is w)),
     snd (symbols_read api dev is w))"
  by (induction "is" arbitrary: m w) (auto split: prod.splits option.splits)

text \<open>
  A constructed device looks a symbol up by name as the last one of that name that the
  SDK lists, and finds exactly the names that are listed; once destroyed it finds none. A device whose
  CPP handle cannot be obtained is closed again before the constructor throws.
\<close>

lemma device_symbols:
  "(case new_NFPDevice api devnum w of
      (Inr d, w') \<Rightarrow> \<exists>dev w1. nfp_dev d = Some dev \<and>
        (let ss = fst (symbols_read api dev [0..fst (rtsym_count api dev w1) - 1] (snd (rtsym_count api dev w1))) in
         getSymbolData d (Some name) =
           (case filter (\<lambda>s. sym_name s = name) ss of [] \<Rightarrow> None | ys \<Rightarrow> Some (last ys))) \<and>
        getSymbolData (fst (delete_NFPDevice api d w')) (Some name) = None
    | (Inl e, w') \<Rightarrow> fst (device_open api devnum w) = None \<or>
        (\<exists>dev w1. fst (device_open api devnum w) = Some dev \<and> w' = device_close api dev w1))"
proof -
  have f: "map_of (foldl (\<lambda>m s. map_update (sym_name s) s m) [] ss) name =
      (case filter (\<lambda>s. sym_name s = name) ss of [] \<Rightarrow> None | ys \<Rightarrow> Some (last ys))" for ss
    using omap.find_assigned [OF omap.inv_empty, of sym_name "\<lambda>s. s" ss name] by (auto split: list.splits)
  show ?thesis
    by (auto simp: new_NFPDevice_def getSymbolData_def delete_NFPDevice_def cache_symbols_fold f Let_def
        split: prod.splits option.splits) (metis fst_conv snd_conv)
qed

end
