(* ===== verification/Startup.thy ===== *)
theory Startup
  imports Pipeline Device
begin

text \<open>
  \<^verbatim>\<open>main\<close> up to the start of the threads (\<^verbatim>\<open>src/main.cpp\<close>): the shutdown signals, the YAML settings, the
  device with its symbols, the two readers and the clock. The POSIX signal calls and the YAML library are
  parameters; logging is left out.
\<close>

subsection \<open>Shutdown signals\<close>

record 'w signal_api =
  sigemptyset :: "'w \<Rightarrow> int \<times> 'w"
  sigaddset :: "int \<Rightarrow> 'w \<Rightarrow> int \<times> 'w"
  pthread_sigmask_block :: "int list \<Rightarrow> 'w \<Rightarrow> int \<times> 'w"

definition SIGHUP :: int where "SIGHUP = 1"
definition SIGINT :: int where "SIGINT = 2"
definition SIGTERM :: int where "SIGTERM = 15"

text \<open>A signal set is the list of the signals added to it; \<^const>\<open>None\<close> is the result \<^verbatim>\<open>false\<close>.\<close>

definition addShutdownSignal :: "'w signal_api \<Rightarrow> int list \<Rightarrow> int \<Rightarrow> 'w \<Rightarrow> int list option \<times> 'w" where
  "addShutdownSignal api signals signal w =
    (case sigaddset api signal w of (rc, w) \<Rightarrow> (if rc \<noteq> 0 then None else Some (signals @ [signal]), w))"

definition setupShutdownSignals :: "'w signal_api \<Rightarrow> 'w \<Rightarrow> int list option \<times> 'w" where
  "setupShutdownSignals api w =
    (case sigemptyset api w of (rc, w) \<Rightarrow> if rc \<noteq> 0 then (None, w) else
    (case addShutdownSignal api [] SIGINT w of
       (None, w) \<Rightarrow> (None, w)
     | (Some signals, w) \<Rightarrow>
    (case addShutdownSignal api signals SIGTERM w of
       (None, w) \<Rightarrow> (None, w)
     | (Some signals, w) \<Rightarrow>
    (case addShutdownSignal api signals SIGHUP w of
       (None, w) \<Rightarrow> (None, w)
     | (Some signals, w) \<Rightarrow>
    (case pthread_sigmask_block api signals w of (rc, w) \<Rightarrow>
       (if rc \<noteq> 0 then None else Some signals, w))))))"

subsection \<open>Settings\<close>

record settings =
  cfg_debug :: bool
  devnum :: u32
  runSecs :: int
  targetIp :: string
  targetPort :: u16
  semSym :: string
  semDupSym :: string
  flowKeySym :: string
  flowKeyDupSym :: string
  flowDataSym :: string
  flowDataDupSym :: string
  counterSemSym :: string
  counterSemDupSym :: string
  counterDataSym :: string
  counterDataDupSym :: string
  curStateSym :: string
  processingMeSym :: string
  timeConfig :: TimeAdjusterConfig

definition default_settings :: settings where
  "default_settings = \<lparr> cfg_debug = False, devnum = 0, runSecs = 14, targetIp = ''192.168.1.4'', targetPort = 6343,
     semSym = ''_global_semaphores'', semDupSym = ''_global_semaphores_dup'',
     flowKeySym = ''__flow_key'', flowKeyDupSym = ''__flow_key_dup'',
     flowDataSym = ''__flow_data'', flowDataDupSym = ''__flow_data_dup'',
     counterSemSym = ''_cglobal_semaphores'', counterSemDupSym = ''_cglobal_semaphores_dup'',
     counterDataSym = ''__counter_data'', counterDataDupSym = ''__counter_data_dup'',
     curStateSym = ''__cur_state'', processingMeSym = ''__processing_me'',
     timeConfig = default_adjuster_config \<rparr>"

text \<open>
  The conversions \<^verbatim>\<open>as<T>\<close> of a YAML node, \<^const>\<open>None\<close> when they throw, and what indexing the document
  gives: an exception, an undefined node or a defined one.
\<close>

record 'n yaml_api =
  as_bool :: "'n \<Rightarrow> bool option"
  as_unsigned :: "'n \<Rightarrow> u32 option"
  as_int :: "'n \<Rightarrow> int option"
  as_string :: "'n \<Rightarrow> string option"
  as_uint16 :: "'n \<Rightarrow> u16 option"
  as_size :: "'n \<Rightarrow> nat option"
  as_int64 :: "'n \<Rightarrow> i64 option"
  as_double :: "'n \<Rightarrow> rat option"

datatype 'n lookup = LookupThrows | Undefined | Defined 'n

type_synonym 'n document = "string \<Rightarrow> 'n lookup"

type_synonym 'n setter = "'n \<Rightarrow> settings \<Rightarrow> settings option"

definition assign :: "('n \<Rightarrow> 'a option) \<Rightarrow> ('a \<Rightarrow> settings \<Rightarrow> settings) \<Rightarrow> 'n setter" where
  "assign conv upd n s = map_option (\<lambda>v. upd v s) (conv n)"

definition in_time :: "(TimeAdjusterConfig \<Rightarrow> TimeAdjusterConfig) \<Rightarrow> settings \<Rightarrow> settings" where
  "in_time f s = s\<lparr> timeConfig := f (timeConfig s) \<rparr>"

definition in_calibration :: "(CalibrationConfig \<Rightarrow> CalibrationConfig) \<Rightarrow> settings \<Rightarrow> settings" where
  "in_calibration f = in_time (\<lambda>c. c\<lparr> ta_calibration := f (ta_calibration c) \<rparr>)"

definition setting_steps :: "'n yaml_api \<Rightarrow> (string \<times> 'n setter) list" where
  "setting_steps y =
    [(''debug'', assign (as_bool y) (\<lambda>v s. s\<lparr> cfg_debug := v \<rparr>)),
     (''devnum'', assign (as_unsigned y) (\<lambda>v s. s\<lparr> devnum := v \<rparr>)),
     (''runSecs'', assign (as_int y) (\<lambda>v s. s\<lparr> runSecs := v \<rparr>)),
     (''targetIp'', assign (as_string y) (\<lambda>v s. s\<lparr> targetIp := v \<rparr>)),
     (''targetPort'', assign (as_uint16 y) (\<lambda>v s. s\<lparr> targetPort := v \<rparr>)),
     (''semaphore_sym'', assign (as_string y) (\<lambda>v s. s\<lparr> semSym := v \<rparr>)),
     (''semaphore_dup_sym'', assign (as_string y) (\<lambda>v s. s\<lparr> semDupSym := v \<rparr>)),
     (''flow_key_sym'', assign (as_string y) (\<lambda>v s. s\<lparr> flowKeySym := v \<rparr>)),
     (''flow_key_dup_sym'', assign (as_string y) (\<lambda>v s. s\<lparr> flowKeyDupSym := v \<rparr>)),
     (''flow_data_sym'', assign (as_string y) (\<lambda>v s. s\<lparr> flowDataSym := v \<rparr>)),
     (''flow_data_dup_sym'', assign (as_string y) (\<lambda>v s. s\<lparr> flowDataDupSym := v \<rparr>)),
     (''counter_semaphore_sym'', assign (as_string y) (\<lambda>v s. s\<lparr> counterSemSym := v \<rparr>)),
     (''counter_semaphore_dup_sym'', assign (as_string y) (\<lambda>v s. s\<lparr> counterSemDupSym := v \<rparr>)),
     (''counter_data_sym'', assign (as_string y) (\<lambda>v s. s\<lparr> counterDataSym := v \<rparr>)),
     (''counter_data_dup_sym'', assign (as_string y) (\<lambda>v s. s\<lparr> counterDataDupSym := v \<rparr>)),
     (''cur_state_sym'', assign (as_string y) (\<lambda>v s. s\<lparr> curStateSym := v \<rparr>)),
     (''processing_me_sym'', assign (as_string y) (\<lambda>v s. s\<lparr> processingMeSym := v \<rparr>)),
     (''mac_time_symbol'', assign (as_string y) (\<lambda>v. in_time (\<lambda>c. c\<lparr> mac_time_symbol := v \<rparr>))),
     (''startup_sample_count'', assign (as_size y) (\<lambda>v. in_time (\<lambda>c. c\<lparr> startup_sample_count := v \<rparr>))),
     (''startup_best_sample_count'', assign (as_size y) (\<lambda>v. in_time (\<lambda>c. c\<lparr> startup_best_sample_count := v \<rparr>))),
     (''calibration_refresh_burst_size'', assign (as_size y) (\<lambda>v. in_time (\<lambda>c. c\<lparr> refresh_burst_size := v \<rparr>))),
     (''maximum_sample_uncertainty_ns'',
        assign (as_int64 y) (\<lambda>v. in_time (\<lambda>c. c\<lparr> maximum_sample_uncertainty_ns := v \<rparr>))),
     (''regression_window_ns'', assign (as_int64 y) (\<lambda>v. in_calibration (\<lambda>c. c\<lparr> regression_window_ns := v \<rparr>))),
     (''minimum_regression_span_ns'',
        assign (as_int64 y) (\<lambda>v. in_calibration (\<lambda>c. c\<lparr> minimum_regression_span_ns := v \<rparr>))),
     (''maximum_drift_ppm'', assign (as_double y) (\<lambda>v. in_calibration (\<lambda>c. c\<lparr> maximum_drift_ppm := v \<rparr>))),
     (''host_step_threshold_ns'', assign (as_int64 y) (\<lambda>v. in_calibration (\<lambda>c. c\<lparr> host_step_threshold_ns := v \<rparr>))),
     (''model_step_threshold_ns'', assign (as_int64 y) (\<lambda>v. in_calibration (\<lambda>c. c\<lparr> model_step_threshold_ns := v \<rparr>))),
     (''startup_timeout_ms'', assign (as_int64 y) (\<lambda>v. in_time (\<lambda>c. c\<lparr> startup_timeout_ms := v \<rparr>))),
     (''startup_poll_interval_us'', assign (as_int64 y) (\<lambda>v. in_time (\<lambda>c. c\<lparr> startup_poll_interval_us := v \<rparr>)))]"

text \<open>One key after the other; the first exception ends the reading and what was assigned stays.\<close>

fun apply_settings :: "(string \<times> 'n setter) list \<Rightarrow> 'n document \<Rightarrow> settings \<Rightarrow> settings" where
  "apply_settings [] doc s = s"
| "apply_settings ((key, set_value) # rest) doc s =
    (case doc key of
       LookupThrows \<Rightarrow> s
     | Undefined \<Rightarrow> apply_settings rest doc s
     | Defined n \<Rightarrow> (case set_value n s of None \<Rightarrow> s | Some s \<Rightarrow> apply_settings rest doc s))"

definition main_settings :: "'n yaml_api \<Rightarrow> (string \<Rightarrow> 'n document option) \<Rightarrow> string list \<Rightarrow> settings" where
  "main_settings y LoadFile args =
    (case LoadFile (case args of [] \<Rightarrow> ''setting.yaml'' | a # _ \<Rightarrow> a) of
       None \<Rightarrow> default_settings
     | Some doc \<Rightarrow> apply_settings (setting_steps y) doc default_settings)"

subsection \<open>Symbols and readers\<close>

definition c_str :: "string \<Rightarrow> string" where
  "c_str s = takeWhile (\<lambda>c. c \<noteq> CHR 0x00) s"

definition required_symbols :: "settings \<Rightarrow> string list" where
  "required_symbols s = [semSym s, semDupSym s, flowKeySym s, flowKeyDupSym s, flowDataSym s, flowDataDupSym s,
     counterSemSym s, counterSemDupSym s, counterDataSym s, counterDataDupSym s, curStateSym s, processingMeSym s,
     mac_time_symbol (timeConfig s)]"

text \<open>All thirteen symbols, or the names of the missing ones.\<close>

definition find_symbols :: "NFPDevice \<Rightarrow> settings \<Rightarrow> string list + nfp_rtsym list" where
  "find_symbols dev s =
    (let found = map (\<lambda>name. (name, getSymbolData dev (Some (c_str name)))) (required_symbols s);
         missing = map fst (filter (\<lambda>p. snd p = None) found)
     in if missing \<noteq> [] then Inl missing else Inr (map (\<lambda>p. the (snd p)) found))"

definition BUFFER_SIZE :: nat where "BUFFER_SIZE = 20000"
definition BUFFER_SIZE2 :: nat where "BUFFER_SIZE2 = 2048"

definition main_flow_reader :: "'w nfp_api \<Rightarrow> nfp_cpp option \<Rightarrow> nfp_rtsym list \<Rightarrow> SmartNicReader" where
  "main_flow_reader api cpp syms =
    (let dom = (\<lambda>i. of_int (sym_domain (syms ! i))); addr = (\<lambda>i. sym_addr (syms ! i)) in
     new_SmartNicReader api cpp (addr 10) (of_int (sym_domain (syms ! 10))) (addr 11) (of_int (sym_domain (syms ! 11)))
       (addr 0) (addr 1) (addr 2) (addr 3) (addr 4) (addr 5) (dom 0) (dom 2) (dom 4) (dom 1) (dom 3) (dom 5)
       BUFFER_SIZE)"

definition main_counter_reader :: "'w nfp_api \<Rightarrow> nfp_cpp option \<Rightarrow> nfp_rtsym list \<Rightarrow> CounterReader" where
  "main_counter_reader api cpp syms =
    (let dom = (\<lambda>i. of_int (sym_domain (syms ! i))); addr = (\<lambda>i. sym_addr (syms ! i)) in
     new_CounterReader api cpp (addr 10) (of_int (sym_domain (syms ! 10))) (addr 11) (of_int (sym_domain (syms ! 11)))
       (addr 6) (addr 7) (addr 8) (addr 9) (dom 6) (dom 8) (dom 7) (dom 9) BUFFER_SIZE2)"

subsection \<open>Start\<close>

record 'w platform =
  pf_signals :: "'w signal_api"
  pf_devices :: "'w device_api"
  pf_host :: "'w host"

text \<open>
  The exit code of a program that returns early, or the threads' shared state as they start. Returning
  destroys the device. \<^const>\<open>None\<close> is a start-up that never ends.
\<close>

definition main_start ::
  "'w platform \<Rightarrow> TimeSample sorter \<Rightarrow> settings \<Rightarrow> 'w \<Rightarrow> ((int + io_state) \<times> 'w) option" where
  "main_start pf srt cfg w =
    (case setupShutdownSignals (pf_signals pf) w of
       (None, w) \<Rightarrow> Some (Inl 1, w)
     | (Some signals, w) \<Rightarrow>
    (case new_NFPDevice (pf_devices pf) (devnum cfg) w of
       (Inl ex, w) \<Rightarrow> Some (Inl 1, w)
     | (Inr dev, w) \<Rightarrow>
    (case find_symbols dev cfg of
       Inl missing \<Rightarrow> Some (Inl 1, snd (delete_NFPDevice (pf_devices pf) dev w))
     | Inr syms \<Rightarrow>
    (case new_TimeAdjuster (pf_host pf) srt (nfp_cpp_handle dev) (Some (syms ! 12)) (timeConfig cfg) w of
       None \<Rightarrow> None
     | Some (Inl ex, w) \<Rightarrow> Some (Inl 1, snd (delete_NFPDevice (pf_devices pf) dev w))
     | Some (Inr ta, w) \<Rightarrow>
        Some (Inr \<lparr> io_reader = main_flow_reader (host_api (pf_host pf)) (nfp_cpp_handle dev) syms,
          io_counterReader = main_counter_reader (host_api (pf_host pf)) (nfp_cpp_handle dev) syms,
          io_adjuster = ta, io_period = 1000000000, nextTick = 0, driftCalibrationReported = False \<rparr>, w)))))"

definition main_program :: "'w platform \<Rightarrow> (json \<Rightarrow> string) \<Rightarrow> settings \<Rightarrow> bool \<Rightarrow> bool \<Rightarrow> 'w program" where
  "main_program pf dump cfg spur gr = \<lparr> prog_host = pf_host pf, prog_dump = dump, prog_debug = cfg_debug cfg,
     prog_runSecs = runSecs cfg, spurious = spur, grace = gr \<rparr>"

subsection \<open>What the settings are\<close>

text \<open>A key whose value can be read, or that is absent.\<close>

definition readable :: "'n document \<Rightarrow> string \<times> 'n setter \<Rightarrow> bool" where
  "readable doc step = (case doc (fst step) of LookupThrows \<Rightarrow> False | Undefined \<Rightarrow> True
     | Defined n \<Rightarrow> snd step n default_settings \<noteq> None)"

definition take_value :: "'n document \<Rightarrow> settings \<Rightarrow> string \<times> 'n setter \<Rightarrow> settings" where
  "take_value doc s step = (case doc (fst step) of Defined n \<Rightarrow> the (snd step n s) | _ \<Rightarrow> s)"

definition assigns :: "string \<times> 'n setter \<Rightarrow> bool" where
  "assigns step \<longleftrightarrow> (\<forall>n s t. snd step n s = None \<longleftrightarrow> snd step n t = None)"

lemma setting_steps_assign: "step \<in> set (setting_steps y) \<Longrightarrow> assigns step"
  by (auto simp: setting_steps_def assigns_def assign_def)

lemma apply_settings_prefix:
  "list_all assigns steps \<Longrightarrow>
    apply_settings steps doc s = foldl (take_value doc) s (takeWhile (readable doc) steps)"
proof (induction steps doc s rule: apply_settings.induct)
  case (2 key set_value rest doc s)
  show ?case
  proof (cases "doc key")
    case (Defined n)
    have "set_value n s = None \<longleftrightarrow> set_value n default_settings = None"
      using 2(3) by (auto simp: assigns_def)
    with Defined 2(2) [OF Defined] 2(3) show ?thesis
      by (cases "set_value n s") (auto simp: readable_def take_value_def)
  qed (use 2 in \<open>auto simp: readable_def take_value_def\<close>)
qed simp

lemma main_settings_prefix:
  "main_settings y LoadFile args =
    (case LoadFile (case args of [] \<Rightarrow> ''setting.yaml'' | a # _ \<Rightarrow> a) of
       None \<Rightarrow> default_settings
     | Some doc \<Rightarrow> foldl (take_value doc) default_settings (takeWhile (readable doc) (setting_steps y)))"
proof -
  have "list_all assigns (setting_steps y)" by (auto simp: list_all_iff intro: setting_steps_assign)
  then show ?thesis by (simp add: main_settings_def apply_settings_prefix split: option.split)
qed

text \<open>A part of the settings that no step of a list writes.\<close>

definition untouched :: "(settings \<Rightarrow> 'a) \<Rightarrow> string \<times> 'n setter \<Rightarrow> bool" where
  "untouched f step \<longleftrightarrow> assigns step \<and> (\<forall>n s s'. snd step n s = Some s' \<longrightarrow> f s' = f s)"

lemma take_values_untouched:
  assumes "\<forall>step \<in> set steps. untouched f step \<and> readable doc step"
  shows "f (foldl (take_value doc) s steps) = f s"
  using assms
proof (induction steps arbitrary: s)
  case (Cons step steps)
  have "f (take_value doc s step) = f s"
  proof (cases "doc (fst step)")
    case (Defined n)
    have "assigns step" using Cons.prems by (simp add: untouched_def)
    then have "snd step n s = None \<longleftrightarrow> snd step n default_settings = None" unfolding assigns_def by blast
    with Cons.prems Defined have "snd step n s \<noteq> None" by (simp add: readable_def)
    with Cons.prems Defined show ?thesis by (auto simp: take_value_def untouched_def)
  qed (simp_all add: take_value_def)
  with Cons show ?case by simp
qed simp

lemma takeWhile_untouched:
  "\<forall>step \<in> set steps. untouched f step \<Longrightarrow> f (foldl (take_value doc) s (takeWhile (readable doc) steps)) = f s"
  by (rule take_values_untouched) (auto dest: set_takeWhileD)

lemma other_steps:
  "\<forall>step \<in> set (tl (setting_steps y)). untouched cfg_debug step"
  "\<forall>step \<in> set (butlast (setting_steps y)). untouched (\<lambda>s. startup_poll_interval_us (timeConfig s)) step"
  by (auto simp: setting_steps_def untouched_def assigns_def assign_def in_time_def in_calibration_def)

text \<open>
  C29 (error). An unreadable value in the YAML file does not stop the program: the keys before it are
  assigned, its own and all keys after it silently keep their defaults. So \<^verbatim>\<open>debug\<close>, the first key, is taken
  whatever else the file holds, and \<^verbatim>\<open>startup_poll_interval_us\<close>, the last one, only if every key before it
  is absent or readable. A file that cannot be loaded gives the defaults.
\<close>

theorem settings_prefix:
  "main_settings y LoadFile args =
      (case LoadFile (case args of [] \<Rightarrow> ''setting.yaml'' | a # _ \<Rightarrow> a) of
         None \<Rightarrow> default_settings
       | Some doc \<Rightarrow> foldl (take_value doc) default_settings (takeWhile (readable doc) (setting_steps y))) \<and>
    cfg_debug (apply_settings (setting_steps y) doc default_settings) =
      (case doc ''debug'' of Defined n \<Rightarrow> as_bool y n = Some True | _ \<Rightarrow> False) \<and>
    startup_poll_interval_us (timeConfig (apply_settings (setting_steps y) doc default_settings)) =
      (if list_all (readable doc) (butlast (setting_steps y))
       then case doc ''startup_poll_interval_us'' of Defined n \<Rightarrow> (case as_int64 y n of Some v \<Rightarrow> v | None \<Rightarrow> 1000)
            | _ \<Rightarrow> 1000
       else 1000)"
proof -
  let ?steps = "setting_steps y"
  have app: "apply_settings ?steps doc default_settings =
      foldl (take_value doc) default_settings (takeWhile (readable doc) ?steps)"
    by (rule apply_settings_prefix) (auto simp: list_all_iff intro: setting_steps_assign)
  have first: "?steps = (''debug'', assign (as_bool y) (\<lambda>v s. s\<lparr> cfg_debug := v \<rparr>)) # tl ?steps"
    by (simp add: setting_steps_def)
  have dbg: "cfg_debug (apply_settings ?steps doc default_settings) =
      (case doc ''debug'' of Defined n \<Rightarrow> as_bool y n = Some True | _ \<Rightarrow> False)"
    unfolding app
    by (subst first) (auto simp: takeWhile_untouched [OF other_steps(1)] readable_def take_value_def assign_def
        default_settings_def split: lookup.splits option.splits)
  let ?g = "\<lambda>s. startup_poll_interval_us (timeConfig s)"
  let ?last = "(''startup_poll_interval_us'',
      assign (as_int64 y) (\<lambda>v. in_time (\<lambda>c. c\<lparr> startup_poll_interval_us := v \<rparr>)))"
  have "?steps = butlast ?steps @ [?last]" by (simp add: setting_steps_def)
  then have g: "?g (apply_settings ?steps doc default_settings) =
      ?g (foldl (take_value doc) default_settings (takeWhile (readable doc) (butlast ?steps @ [?last])))"
    unfolding app by simp
  have d: "?g default_settings = 1000" by (simp add: default_settings_def default_adjuster_config_def)
  have "?g (apply_settings ?steps doc default_settings) =
      (if list_all (readable doc) (butlast ?steps)
       then case doc ''startup_poll_interval_us'' of Defined n \<Rightarrow> (case as_int64 y n of Some v \<Rightarrow> v | None \<Rightarrow> 1000)
            | _ \<Rightarrow> 1000
       else 1000)"
  proof (cases "list_all (readable doc) (butlast ?steps)")
    case True
    then have "\<forall>step \<in> set (butlast ?steps). untouched ?g step \<and> readable doc step"
      using other_steps(2) by (auto simp: list_all_iff)
    from take_values_untouched [OF this, of default_settings] True show ?thesis
      unfolding g by (auto simp: list_all_iff d readable_def [of doc ?last] take_value_def assign_def in_time_def
          split: lookup.splits option.splits)
  next
    case False
    then have "takeWhile (readable doc) (butlast ?steps @ [?last]) = takeWhile (readable doc) (butlast ?steps)"
      by (auto simp: list_all_iff takeWhile_append)
    with False takeWhile_untouched [OF other_steps(2), of doc default_settings] show ?thesis
      unfolding g by (simp add: d)
  qed
  with dbg main_settings_prefix show ?thesis by blast
qed

subsection \<open>What a start leaves\<close>

lemma main_start_facts:
  assumes "main_start pf srt cfg w = Some (res, w')" "std_sort srt"
  shows "case res of
      Inl code \<Rightarrow> code = 1
    | Inr st \<Rightarrow> fst (setupShutdownSignals (pf_signals pf) w) = Some [SIGINT, SIGTERM, SIGHUP] \<and>
        (\<exists>dev w1. fst (new_NFPDevice (pf_devices pf) (devnum cfg) w1) = Inr dev \<and>
          (\<forall>name \<in> set (required_symbols cfg). getSymbolData dev (Some (c_str name)) \<noteq> None)) \<and>
        sr_cpp (io_reader st) \<noteq> None \<and> cr_cpp (io_counterReader st) = sr_cpp (io_reader st) \<and>
        flow_sizes (io_reader st) \<and> counter_sizes (io_counterReader st) \<and>
        sta_word (io_reader st) = (cr_staCppId (io_counterReader st), cr_staAddr (io_counterReader st)) \<and>
        pro_word (io_reader st) = (cr_proCppId (io_counterReader st), cr_proAddr (io_counterReader st)) \<and>
        io_period st = 1000000000 \<and>
        cal_valid (adjuster_status (io_adjuster st)) \<and>
        adjuster_reach (pf_host pf) srt (timeConfig cfg) (io_adjuster st)"
proof (cases res)
  case (Inl code)
  with assms(1) show ?thesis
    by (auto simp: main_start_def split: prod.splits option.splits sum.splits)
next
  case (Inr st)
  obtain w0 dev w1 syms ta where
    sg: "fst (setupShutdownSignals (pf_signals pf) w) \<noteq> None"
    and dev: "new_NFPDevice (pf_devices pf) (devnum cfg) w0 = (Inr dev, w1)"
    and syms: "find_symbols dev cfg = Inr syms"
    and ta: "new_TimeAdjuster (pf_host pf) srt (nfp_cpp_handle dev) (Some (syms ! 12)) (timeConfig cfg) w1 =
      Some (Inr ta, w')"
    and st: "st = \<lparr> io_reader = main_flow_reader (host_api (pf_host pf)) (nfp_cpp_handle dev) syms,
        io_counterReader = main_counter_reader (host_api (pf_host pf)) (nfp_cpp_handle dev) syms,
        io_adjuster = ta, io_period = 1000000000, nextTick = 0, driftCalibrationReported = False \<rparr>"
    using assms(1) Inr by (auto simp: main_start_def split: prod.splits option.splits sum.splits)
  have blocked: "fst (setupShutdownSignals (pf_signals pf) w) = Some [SIGINT, SIGTERM, SIGHUP]"
    using sg by (auto simp: setupShutdownSignals_def addShutdownSignal_def split: prod.splits if_splits)
  have found: "\<forall>name \<in> set (required_symbols cfg). getSymbolData dev (Some (c_str name)) \<noteq> None"
    using syms by (auto simp: find_symbols_def Let_def filter_empty_conv split: if_splits)
  have cpp: "nfp_cpp_handle dev \<noteq> None"
    using dev by (auto simp: new_NFPDevice_def Let_def split: prod.splits option.splits)
  have reach: "adjuster_reach (pf_host pf) srt (timeConfig cfg) ta" by (rule adjuster_new [OF ta])
  from adjuster_reach_inv [OF reach assms(2)] have "cal_valid (status (calibration ta))" by (simp add: adjuster_inv_def)
  then have "cal_valid (adjuster_status ta)" by (simp add: adjuster_status_def Let_def)
  moreover have "\<exists>dev w1. fst (new_NFPDevice (pf_devices pf) (devnum cfg) w1) = Inr dev \<and>
      (\<forall>name \<in> set (required_symbols cfg). getSymbolData dev (Some (c_str name)) \<noteq> None)"
    using dev found by (intro exI [of _ dev] exI [of _ w0]) simp
  moreover have "sr_cpp (io_reader st) = nfp_cpp_handle dev" "cr_cpp (io_counterReader st) = nfp_cpp_handle dev"
    "flow_sizes (io_reader st)" "counter_sizes (io_counterReader st)"
    "sta_word (io_reader st) = (cr_staCppId (io_counterReader st), cr_staAddr (io_counterReader st))"
    "pro_word (io_reader st) = (cr_proCppId (io_counterReader st), cr_proAddr (io_counterReader st))"
    "io_adjuster st = ta" "io_period st = 1000000000"
    by (simp_all add: st main_flow_reader_def main_counter_reader_def new_SmartNicReader_def new_CounterReader_def
        sta_word_def pro_word_def flow_sizes_def counter_sizes_def BUFFER_SIZE_def BUFFER_SIZE2_def sizeof_stored_flow_key_def
        sizeof_stored_flow_data_def sizeof_stored_counter_def Let_def)
  ultimately show ?thesis using Inr blocked cpp reach by simp
qed

text \<open>
  C28 (functional). If \<^verbatim>\<open>main\<close> gets as far as its threads, then all three shutdown signals are blocked, every
  required symbol was found, both readers share the firmware's state word and counts and have consistent
  sizes, the period is a second, and the clock is calibrated. Otherwise it returns 1.
\<close>

theorem main_start_ready:
  assumes "main_start pf srt cfg w = Some (res, w')" "std_sort srt"
  shows "case res of
      Inl code \<Rightarrow> code = 1
    | Inr st \<Rightarrow> fst (setupShutdownSignals (pf_signals pf) w) = Some [SIGINT, SIGTERM, SIGHUP] \<and>
        (\<exists>dev w1. fst (new_NFPDevice (pf_devices pf) (devnum cfg) w1) = Inr dev \<and>
          (\<forall>name \<in> set (required_symbols cfg). getSymbolData dev (Some (c_str name)) \<noteq> None)) \<and>
        sr_cpp (io_reader st) \<noteq> None \<and> cr_cpp (io_counterReader st) = sr_cpp (io_reader st) \<and>
        flow_sizes (io_reader st) \<and> counter_sizes (io_counterReader st) \<and>
        sta_word (io_reader st) = (cr_staCppId (io_counterReader st), cr_staAddr (io_counterReader st)) \<and>
        pro_word (io_reader st) = (cr_proCppId (io_counterReader st), cr_proAddr (io_counterReader st)) \<and>
        io_period st = 1000000000 \<and>
        cal_valid (adjuster_status (io_adjuster st)) \<and>
        adjuster_reach (pf_host pf) srt (timeConfig cfg) (io_adjuster st)"
  by (rule main_start_facts [OF assms])

subsection \<open>A worked start\<close>

text \<open>A device that lists the thirteen default symbols, on the worked clock's host.\<close>

definition demo_settings :: settings where
  "demo_settings = default_settings\<lparr> timeConfig := demo_config \<rparr>"

definition demo_platform :: "demo_world platform" where
  "demo_platform = \<lparr> pf_signals = \<lparr> sigemptyset = (\<lambda>w. (0, w)), sigaddset = (\<lambda>_ w. (0, w)),
       pthread_sigmask_block = (\<lambda>_ w. (0, w)) \<rparr>,
     pf_devices = \<lparr> device_open = (\<lambda>_ w. (Some 0, w)), device_cpp = (\<lambda>_ w. (Some 0, w)),
       device_close = (\<lambda>_ w. w), rtsym_count = (\<lambda>_ w. (13, w)),
       rtsym_get = (\<lambda>_ i w. (Some (demo_symbol\<lparr> sym_name := required_symbols demo_settings ! nat i \<rparr>), w)),
       strerror_errno = (\<lambda>_. []) \<rparr>,
     pf_host = demo_host \<rparr>"

definition demo_states :: demo_world where
  "demo_states = (0, map demo_state [0, 3, 6, 9, 12, 15, 18, 21, 24])"

definition demo_symbols :: "nfp_rtsym list" where
  "demo_symbols = map (\<lambda>name. demo_symbol\<lparr> sym_name := name \<rparr>) (required_symbols demo_settings)"

definition demo_device :: NFPDevice where
  "demo_device = \<lparr> nfp_dev = Some 0, nfp_cpp_handle = Some 0,
     symbolCache = foldl (\<lambda>m s. map_update (sym_name s) s m) [] demo_symbols \<rparr>"

lemma demo_stages:
  "fst (setupShutdownSignals (pf_signals demo_platform) demo_states) \<noteq> None"
  "snd (setupShutdownSignals (pf_signals demo_platform) demo_states) = demo_states"
  "new_NFPDevice (pf_devices demo_platform) 0 demo_states = (Inr demo_device, demo_states)"
  "find_symbols demo_device demo_settings = Inr demo_symbols"
  "demo_symbols ! 12 = demo_symbol"
  by code_simp+

lemma demo_boot:
  "\<exists>st w. main_start demo_platform (\<lambda>k xs. sort_key k xs) demo_settings demo_states = Some (Inr st, w)"
proof -
  obtain signals where sg: "setupShutdownSignals (pf_signals demo_platform) demo_states = (Some signals, demo_states)"
    using demo_stages(1,2) by (cases "setupShutdownSignals (pf_signals demo_platform) demo_states") auto
  obtain w where "demo_start = Some (Inr demo_adjuster, w)" using demo_start_ok by blast
  then have "new_TimeAdjuster (pf_host demo_platform) (\<lambda>k xs. sort_key k xs) (nfp_cpp_handle demo_device)
      (Some (demo_symbols ! 12)) (timeConfig demo_settings) demo_states = Some (Inr demo_adjuster, w)"
    by (simp add: demo_start_def demo_stages(5) demo_states_def demo_platform_def demo_settings_def demo_device_def
        del: list.map)
  then show ?thesis
    using demo_stages(3,4) sg by (simp add: main_start_def demo_settings_def default_settings_def)
qed

theorem main_start_ready_witness:
  "\<exists>st w. main_start demo_platform (\<lambda>k xs. sort_key k xs) demo_settings demo_states = Some (Inr st, w) \<and>
    flow_sizes (io_reader st) \<and> cal_valid (adjuster_status (io_adjuster st))"
proof -
  obtain st w where run: "main_start demo_platform (\<lambda>k xs. sort_key k xs) demo_settings demo_states = Some (Inr st, w)"
    using demo_boot by blast
  from main_start_ready [OF run stable.std_sort_axioms] have "flow_sizes (io_reader st)"
    "cal_valid (adjuster_status (io_adjuster st))" by simp_all
  with run show ?thesis by blast
qed

end
