(* ===== verification/Sender.thy ===== *)
theory Sender
  imports Pipeline
begin

text \<open>
  The sending side of the program by itself: the transmit thread and the thread of the asio service. While they
  wait the queue is empty, so no push is missed, and what is pushed gets to the wire.
\<close>

definition sender_step :: "'w program \<Rightarrow> 'w pipeline \<Rightarrow> 'w pipeline \<Rightarrow> bool" where
  "sender_step P s t \<longleftrightarrow> tx_step P s t \<or> asio_step s t"

definition wait_inv :: "'w pipeline \<Rightarrow> bool" where
  "wait_inv s \<longleftrightarrow> (tx_at s \<in> {TxBlocking, TxWaiting} \<longrightarrow> shared_queue s = [])"

lemma reach_wait:
  "pipe_reach P st w s \<Longrightarrow> wait_inv s"
proof (induction rule: pipe_reach.induct)
  case (reach_step s t)
  then show ?case
    by (elim pipe_step.cases thread_cases) (auto simp: wait_inv_def)
qed (simp add: wait_inv_def pipe_init_def)

text \<open>The sender is set up, and has not left its loop with batches in the queue.\<close>

definition sending :: "'w pipeline \<Rightarrow> bool" where
  "sending s \<longleftrightarrow> \<not> aborted s \<and> tx_at s \<notin> {TxInit, TxFailed} \<and> (tx_at s \<in> {TxJoin, TxDone} \<longrightarrow> shared_queue s = [])"

definition send_work :: "'w program \<Rightarrow> 'w pipeline \<Rightarrow> nat" where
  "send_work P s = sum_list (map (batch_work P) (shared_queue s)) + length (posted s) +
     (case tx_at s of TxSend d \<Rightarrow> 3 + length (batch_texts P d) | TxCheck \<Rightarrow> 2 | TxBlocking \<Rightarrow> 1 | TxJoin \<Rightarrow> 1 | _ \<Rightarrow> 0)"

lemma sender_step_keeps:
  assumes "sender_step P s t" "sending s" "\<not> spurious P"
  shows "sending t \<and> pushed t = pushed s \<and> Suc (send_work P t) = send_work P s"
  using assms
  by (auto simp: sender_step_def sending_def send_work_def batch_work_def elim!: tx_step.cases asio_step.cases)

lemma sender_reach:
  "pipe_reach P st w s \<Longrightarrow> sender_step P s t \<Longrightarrow> sending s \<Longrightarrow> pipe_reach P st w t"
  by (auto simp: sender_step_def sending_def intro: reach_step step_tx step_asio)

lemma sender_steps:
  assumes "(sender_step P ^^ n) s t" "pipe_reach P st w s" "sending s" "\<not> spurious P"
  shows "pipe_reach P st w t \<and> sending t \<and> pushed t = pushed s \<and> n + send_work P t = send_work P s"
  using assms(1)
proof (induction n arbitrary: t)
  case (Suc n)
  then obtain u where u: "(sender_step P ^^ n) s u" "sender_step P u t" by auto
  from Suc.IH [OF u(1)] sender_step_keeps [OF u(2) _ assms(4)] sender_reach [OF _ u(2)] show ?case by auto
qed (use assms in simp)

lemma sender_moves:
  assumes "pipe_reach P st w s" "sending s" "wire s \<noteq> concat (map (batch_texts P) (pushed s))"
  shows "0 < send_work P s \<and> (\<exists>t. sender_step P s t)"
proof (cases "posted s")
  case (Cons p ps)
  then show ?thesis using asio_send [of s p ps] by (auto simp: send_work_def sender_step_def)
next
  case Nil
  have fifo: "flow_inv P s" and wait: "wait_inv s" using reach_invs [OF assms(1)] reach_wait [OF assms(1)] by blast+
  show ?thesis
  proof (cases "tx_at s")
    case TxCheck
    moreover have "shared_queue s \<noteq> []" using fifo assms(3) Nil TxCheck by (auto simp: flow_inv_def in_hand_def)
    ultimately show ?thesis
      by (cases "shared_queue s") (auto simp: send_work_def sender_step_def intro: tx_pop)
  next
    case (TxSend d)
    then show ?thesis by (auto simp: send_work_def sender_step_def intro: tx_send)
  qed (use fifo wait assms(2,3) Nil in \<open>auto simp: flow_inv_def wait_inv_def in_hand_def sending_def\<close>)
qed

text \<open>
  C13 (liveness). No batch is stuck while the program runs. In any reachable state whose sender is set up and has
  not left its loop early, transmit thread and asio thread by themselves, in whatever order they take their
  steps, bring every datagram of every batch pushed so far to the socket: until that is done one of them can
  move, and it takes them at most \<open>send_work\<close> steps. No notification of a push is missed. Spurious
  wake-ups, which only repeat the test of the queue, are left out of the count.
\<close>

theorem sender_delivers:
  assumes "pipe_reach P st w s" "sending s" "\<not> spurious P" "(sender_step P ^^ n) s t"
  shows "wire t = concat (map (batch_texts P) (pushed s)) \<or> n < send_work P s \<and> (\<exists>u. sender_step P t u)"
proof -
  from sender_steps [OF assms(4,1-3)] have t: "pipe_reach P st w t" "sending t" "pushed t = pushed s"
    "n + send_work P t = send_work P s" by blast+
  from sender_moves [OF t(1,2)] t(3,4) show ?thesis by fastforce
qed

theorem sender_delivers_witness:
  "\<exists>s d. pipe_reach demo_program demo_io_state demo_tick_world s \<and> pushed s = [d] \<and>
    (\<forall>n t. (sender_step demo_program ^^ n) s t \<longrightarrow> send_work demo_program s \<le> n \<longrightarrow>
      wire t = batch_texts demo_program d)"
proof -
  obtain d :: ExportData and st w where "io_tick demo_io_host demo_io_state demo_tick_world = Some (Inr (Some d, st), w)"
    using demo_io_tick by (elim exE conjE) (rule that)
  then have "io_tick (prog_host demo_program) demo_io_state demo_tick_world = Some (Inr (Some d, st), w)"
    by (simp add: demo_program_def)
  from pushed_batch [OF demo_enter this] obtain s where
    s: "pipe_reach demo_program demo_io_state demo_tick_world s" "sending s" "pushed s = [d]"
    by (auto simp: sending_def pipe_init_def)
  have "\<not> spurious demo_program" by (simp add: demo_program_def)
  note del = sender_delivers [OF s(1,2) this]
  have "wire t = batch_texts demo_program d" if "(sender_step demo_program ^^ n) s t" "send_work demo_program s \<le> n" for n t
    using del [OF that(1)] that(2) by (simp add: s(3))
  with s show ?thesis by blast
qed

end
