(* ===== verification/Wire_Types.thy ===== *)
theory Wire_Types
  imports Pipeline
begin

text \<open>
  What a collector may rely on about the values it receives: a small type system for JSON values, the types
  of the two payloads, and the order of the times of a flow. It is a fact about whole runs, since the times
  of a record are signed 64-bit integers only because the conversion makes them so.
\<close>

subsection \<open>Types of JSON values\<close>

text \<open>Unsigned and signed integers of a number of bits, lists, and objects with their members in key order.\<close>

datatype wire_type = WUnsigned nat | WSigned nat | WList wire_type | WObject "(string \<times> wire_type) list"

fun has_type :: "json \<Rightarrow> wire_type \<Rightarrow> bool"
  and has_members :: "(string, json) omap \<Rightarrow> (string \<times> wire_type) list \<Rightarrow> bool" where
  "has_type (JUnsigned n) (WUnsigned k) = (n < 2 ^ k)"
| "has_type (JInteger i) (WSigned k) = (- (2 ^ (k - 1)) \<le> i \<and> i < 2 ^ (k - 1))"
| "has_type (JArray js) (WList t) = (\<forall>j \<in> set js. has_type j t)"
| "has_type (JObject m) (WObject ts) = has_members m ts"
| "has_type _ _ = False"
| "has_members [] [] = True"
| "has_members ((k, j) # m) ((k', t) # ts) = (k = k' \<and> has_type j t \<and> has_members m ts)"
| "has_members _ _ = False"

definition agent_type :: wire_type where
  "agent_type = WObject [(''aip'', WUnsigned 32), (''byte_cnt'', WUnsigned 64), (''in_if'', WUnsigned 32),
     (''index'', WUnsigned 32), (''out_if'', WUnsigned 32), (''packet_cnt'', WUnsigned 64),
     (''sampling_rate'', WUnsigned 32), (''tcp_flag'', WUnsigned 16)]"

definition flow_type :: wire_type where
  "flow_type = WObject [(''flowMap'', WList (WObject [(''agent'', WList agent_type), (''dst_ip'', WUnsigned 32),
     (''dst_port'', WUnsigned 16), (''end_time'', WSigned 45), (''protocol'', WUnsigned 16), (''src_ip'', WUnsigned 32),
     (''src_port'', WUnsigned 16), (''start_time'', WSigned 45)]))]"

definition counter_type :: wire_type where
  "counter_type = WObject [(''counterMap'', WList (WObject [(''agent_ip'', WUnsigned 32), (''if_idx'', WUnsigned 32),
     (''if_speed'', WUnsigned 64), (''in_octets'', WUnsigned 64), (''out_octets'', WUnsigned 64)]))]"

lemma unat_bits:
  "unat (x :: u16) < 65536" "unat (y :: u32) < 4294967296" "unat (z :: u64) < 18446744073709551616"
  using unsigned_less [of x, where ?'a = nat] unsigned_less [of y, where ?'a = nat]
    unsigned_less [of z, where ?'a = nat] by simp_all

lemma agent_typed: "has_type (agent_json ag) agent_type"
  by (simp add: agent_json_def agent_type_def object_def unat_bits)

lemma counter_typed: "has_type (counter_payload p) counter_type"
  by (cases p) (simp add: counter_payload_def counter_item_def counter_type_def object_def unat_bits)

lemma flow_typed:
  assumes "in_i64 (start_time_ns r)" "in_i64 (end_time_ns r)"
    and "fr_start_time r = start_time_ns r sdiv 1000000" "fr_end_time r = end_time_ns r sdiv 1000000"
  shows "has_type (flow_payload (k, r)) flow_type"
proof -
  have "- 17592186044416 \<le> t sdiv 1000000 \<and> t sdiv 1000000 < 17592186044416" if "in_i64 t" for t
  proof -
    have "- 9223372036854775808 \<le> t" "t \<le> 9223372036854775807" using that by (simp_all add: in_i64_numeric)
    from sdiv_mono [OF this(1), of 1000000] sdiv_mono [OF this(2), of 1000000] show ?thesis by simp
  qed
  with assms(1,2) have "- 17592186044416 \<le> fr_start_time r \<and> fr_start_time r < 17592186044416"
    "- 17592186044416 \<le> fr_end_time r \<and> fr_end_time r < 17592186044416" unfolding assms(3,4) by blast+
  then show ?thesis
    by (auto simp: flow_payload_def flow_item_def flow_type_def object_def unat_bits agent_typed)
qed

subsection \<open>The records of a batch\<close>

text \<open>Every record of a batch comes from flow entries of the tick.\<close>

lemma batch_record:
  assumes "make_batch conv el flows counters = Inr (Some d)" "\<And>s n t. conv s n = Inr t \<Longrightarrow> in_i64 t"
    and "(k, r) \<in> set (flowMap d)"
  obtains ys where "ys \<noteq> []" "set ys \<subseteq> set flows" "list_all (converts conv) ys"
    "r = \<lparr> agents = map flow_agent ys, fr_start_time = Min (start_ns conv ` set ys) sdiv 1000000,
      fr_end_time = Max (end_ns conv ` set ys) sdiv 1000000,
      start_time_ns = Min (start_ns conv ` set ys), end_time_ns = Max (end_ns conv ` set ys) \<rparr>"
proof -
  obtain m where m: "aggregate_flows conv flows [] = Inr m" "flowMap d = m"
    using assms(1) by (auto simp: make_batch_def Let_def split: sum.splits if_splits)
  have c: "list_all (converts conv) flows" using m(1) aggregate_flows_throws [of conv flows "[]"] by auto
  let ?ys = "filter (\<lambda>x. flow_key x = k) flows"
  obtain m' where "aggregate_flows conv flows [] = Inr m'" "ordered m'"
    and f: "map_of m' k = (if ?ys = [] then None else Some \<lparr> agents = map flow_agent ?ys,
        fr_start_time = Min (start_ns conv ` set ?ys) sdiv 1000000,
        fr_end_time = Max (end_ns conv ` set ?ys) sdiv 1000000,
        start_time_ns = Min (start_ns conv ` set ?ys), end_time_ns = Max (end_ns conv ` set ?ys) \<rparr>)"
    using aggregate_flows_spec [OF c] assms(2) unfolding Let_def by (metis (no_types, lifting))
  with m have "map_of m' k = Some r"
    using assms(3) by (auto simp: map_of_eq_Some_iff ordered_distinct)
  with f show ?thesis
    using c by (intro that [of ?ys]) (auto simp: list_all_iff split: if_splits)
qed

lemma converted_in_i64:
  assumes "\<And>s n t. conv s n = Inr t \<Longrightarrow> in_i64 t" "converts conv e"
  shows "in_i64 (start_ns conv e)" "in_i64 (end_ns conv e)"
  using assms by (auto simp: converts_def start_ns_def end_ns_def)

lemma batch_times:
  assumes "make_batch conv el flows counters = Inr (Some d)" "\<And>s n t. conv s n = Inr t \<Longrightarrow> in_i64 t"
    and "(k, r) \<in> set (flowMap d)"
  shows "in_i64 (start_time_ns r)" "in_i64 (end_time_ns r)"
    "fr_start_time r = start_time_ns r sdiv 1000000" "fr_end_time r = end_time_ns r sdiv 1000000"
proof -
  obtain ys where ys: "ys \<noteq> []" "list_all (converts conv) ys"
    and r: "r = \<lparr> agents = map flow_agent ys, fr_start_time = Min (start_ns conv ` set ys) sdiv 1000000,
      fr_end_time = Max (end_ns conv ` set ys) sdiv 1000000,
      start_time_ns = Min (start_ns conv ` set ys), end_time_ns = Max (end_ns conv ` set ys) \<rparr>"
    by (rule batch_record [OF assms])
  have "Min (start_ns conv ` set ys) \<in> start_ns conv ` set ys" "Max (end_ns conv ` set ys) \<in> end_ns conv ` set ys"
    using ys(1) by (simp_all add: Min_in Max_in)
  then show "in_i64 (start_time_ns r)" "in_i64 (end_time_ns r)"
    using ys(2) converted_in_i64 [OF assms(2)] by (auto simp: r list_all_iff)
  show "fr_start_time r = start_time_ns r sdiv 1000000" "fr_end_time r = end_time_ns r sdiv 1000000"
    by (simp_all add: r)
qed

subsection \<open>Everything on the wire is well typed\<close>

lemma pushed_batches:
  assumes tick: "\<And>st w d st' w'. io_tick (prog_host P) st w = Some (Inr (Some d, st'), w') \<Longrightarrow> G d"
    and "pipe_reach P st0 w0 s"
  shows "(\<forall>d \<in> set (pushed s). G d) \<and> (\<forall>d. nic_at s = NicPush d \<longrightarrow> G d)"
  using assms(2)
proof (induction rule: pipe_reach.induct)
  case reach_init
  show ?case by (simp add: pipe_init_def)
next
  case (reach_step s t)
  from reach_step.hyps(2) reach_step.IH show ?case
    by (elim pipe_step.cases thread_cases) (auto dest: tick split: option.splits if_splits)
qed

lemma tick_typed:
  assumes "io_tick host st w = Some (Inr (Some d, st'), w')" "p \<in> set (flowMap d)"
  shows "has_type (flow_payload p) flow_type"
proof -
  obtain ta el flows counters where mb: "make_batch (adjuster_toUnixNanoseconds ta) el flows counters = Inr (Some d)"
    using assms(1) by (auto simp: io_tick_def Let_def split: prod.splits option.splits sum.splits)
  obtain k r where p: "p = (k, r)" by (rule prod.exhaust)
  from batch_times [OF mb adjuster_in_i64 assms(2) [unfolded p]] show ?thesis unfolding p by (rule flow_typed)
qed

lemma wire_types:
  assumes "pipe_reach P st w s" "text \<in> set (wire s)"
  shows "\<exists>j. text = prog_dump P j \<and> (has_type j flow_type \<or> has_type j counter_type)"
proof -
  have fifo: "flow_inv P s" using reach_invs [OF assms(1)] by blast
  then have "set (wire s) \<subseteq> set (concat (map (batch_texts P) (taken s)))" "set (taken s) \<subseteq> set (pushed s)"
    by (simp_all add: flow_inv_def)
  with assms(2) obtain d where d: "d \<in> set (pushed s)" "text \<in> set (batch_texts P d)" by auto
  have "\<forall>p \<in> set (flowMap d). has_type (flow_payload p) flow_type"
    using pushed_batches [where G = "\<lambda>d. \<forall>p \<in> set (flowMap d). has_type (flow_payload p) flow_type",
        OF _ assms(1)] d(1) by (auto dest: tick_typed)
  with d(2) counter_typed show ?thesis
    by (auto simp: batch_texts_def send_batch_def transmit_batch_def)
qed

text \<open>
  C7 (type). In every run, every text on the wire is that of a well-typed value: an object with exactly the
  members of a flow or of a counter, each address, interface, port and count an unsigned integer of its
  width, and the times, in milliseconds, signed integers of 45 bits, so exact for a reader that takes
  numbers for doubles.
\<close>

theorem wire_typed:
  assumes "pipe_reach P st w s" "text \<in> set (wire s)"
  shows "\<exists>j. text = prog_dump P j \<and> (has_type j flow_type \<or> has_type j counter_type)"
  by (rule wire_types [OF assms])

subsection \<open>The times of a flow\<close>

definition mac_start :: "flow_data \<Rightarrow> i64" where
  "mac_start e = uint (sec (start_time (fd_data e))) * 1000000000 + uint (nsec (start_time (fd_data e)))"

definition mac_end :: "flow_data \<Rightarrow> i64" where
  "mac_end e = uint (sec (end_time (fd_data e))) * 1000000000 + uint (nsec (end_time (fd_data e)))"

lemma converted_ascend:
  assumes "adjuster_reach host srt cfg ta" "std_sort srt"
    and "0 \<le> maximum_drift_ppm (ta_calibration cfg)" "maximum_drift_ppm (ta_calibration cfg) \<le> 400000"
    and "0 \<le> regression_window_ns (ta_calibration cfg)" "converts (adjuster_toUnixNanoseconds ta) e"
    and "mac_start e \<le> mac_end e" "model_range (status (calibration ta)) (mac_start e)"
    "model_range (status (calibration ta)) (mac_end e)"
  shows "start_ns (adjuster_toUnixNanoseconds ta) e \<le> end_ns (adjuster_toUnixNanoseconds ta) e"
proof -
  have inv: "cal_reach (ta_calibration cfg) (calibration ta)" "cal_valid (status (calibration ta))"
    using adjuster_reach_inv [OF assms(1,2)] by (simp_all add: adjuster_inv_def)
  have "toUnixNanoseconds (calibration ta) m = Inr (model_time (status (calibration ta)) m)" for m
    using inv(2) by (simp add: toUnixNanoseconds_def)
  from conversion_ascends [OF inv(1) assms(3-5) this this assms(7-9)] assms(6)
  show ?thesis
    unfolding converts_def start_ns_def end_ns_def adjuster_conversion [OF assms(1,2)] mac_start_def mac_end_def
    by (auto split: if_splits)
qed

text \<open>
  C21 (functional). The times of a flow are in order: if the SmartNIC stamped every record of a tick with a
  start not after its end, then every flow of the batch, however many records it gathers, has a start not
  after its end, in nanoseconds and in the milliseconds that are sent, whatever drift was fitted.
\<close>

theorem flow_times_ordered:
  assumes "adjuster_reach host srt cfg ta" "std_sort srt"
    and "0 \<le> maximum_drift_ppm (ta_calibration cfg)" "maximum_drift_ppm (ta_calibration cfg) \<le> 400000"
    and "0 \<le> regression_window_ns (ta_calibration cfg)"
    and "make_batch (adjuster_toUnixNanoseconds ta) elapsed flows counters = Inr (Some d)"
    and "\<forall>e \<in> set flows. mac_start e \<le> mac_end e \<and> model_range (status (calibration ta)) (mac_start e) \<and>
      model_range (status (calibration ta)) (mac_end e)"
    and "(k, r) \<in> set (flowMap d)"
  shows "start_time_ns r \<le> end_time_ns r \<and> fr_start_time r \<le> fr_end_time r"
proof -
  let ?conv = "adjuster_toUnixNanoseconds ta"
  obtain ys where ys: "ys \<noteq> []" "set ys \<subseteq> set flows" "list_all (converts ?conv) ys"
    and r: "r = \<lparr> agents = map flow_agent ys, fr_start_time = Min (start_ns ?conv ` set ys) sdiv 1000000,
      fr_end_time = Max (end_ns ?conv ` set ys) sdiv 1000000,
      start_time_ns = Min (start_ns ?conv ` set ys), end_time_ns = Max (end_ns ?conv ` set ys) \<rparr>"
    by (rule batch_record [OF assms(6) adjuster_in_i64 assms(8)])
  obtain e where e: "e \<in> set ys" using ys(1) by (cases ys) auto
  have "start_ns ?conv e \<le> end_ns ?conv e"
    by (rule converted_ascend [OF assms(1-5)]) (use e ys assms(7) in \<open>auto simp: list_all_iff\<close>)
  moreover have "Min (start_ns ?conv ` set ys) \<le> start_ns ?conv e" "end_ns ?conv e \<le> Max (end_ns ?conv ` set ys)"
    using e by simp_all
  ultimately have "Min (start_ns ?conv ` set ys) \<le> Max (end_ns ?conv ` set ys)" by linarith
  then show ?thesis by (simp add: r sdiv_mono)
qed

subsection \<open>Worked examples\<close>

theorem wire_typed_witness:
  "\<exists>s text j. pipe_reach demo_program demo_io_state demo_tick_world s \<and> text \<in> set (wire s) \<and>
    text = prog_dump demo_program j \<and> (has_type j flow_type \<or> has_type j counter_type)"
proof -
  obtain d :: ExportData and st w where "io_tick demo_io_host demo_io_state demo_tick_world = Some (Inr (Some d, st), w)"
    and d: "length (flowMap d) = 1"
    using demo_io_tick by (elim exE conjE) (rule that)
  then have "io_tick (prog_host demo_program) demo_io_state demo_tick_world = Some (Inr (Some d, st), w)"
    by (simp add: demo_program_def)
  from sent_batch [OF demo_enter this] obtain s where s: "pipe_reach demo_program demo_io_state demo_tick_world s"
    "main_at s = MainDone" "tx_at s = TxDone" "taken s = [d]" by blast
  then have "wire s = batch_texts demo_program d" using done_delivered [OF s(1,2)] by auto
  moreover obtain p where "flowMap d = [p]" using d by (auto simp: length_Suc_conv)
  ultimately have "prog_dump demo_program (flow_payload p) \<in> set (wire s)"
    by (simp add: batch_texts_def send_batch_def transmit_batch_def)
  with wire_typed [OF s(1) this] s(1) show ?thesis by blast
qed

lemma demo_origin:
  "(case demo_start of Some (Inr ta, w) \<Rightarrow> \<bar>mac_origin_ns (status (calibration ta))\<bar> \<le> 2000000000000 \<and>
     \<bar>unix_origin_ns (status (calibration ta))\<bar> \<le> 2000000000000000000 | _ \<Rightarrow> False)"
  by code_simp

theorem flow_times_ordered_witness:
  "\<exists>(d :: ExportData) k r. make_batch (adjuster_toUnixNanoseconds demo_adjuster) 0 demo_flows [] = Inr (Some d) \<and>
    (k, r) \<in> set (flowMap d) \<and> fr_start_time r \<le> fr_end_time r"
proof -
  let ?conv = "adjuster_toUnixNanoseconds demo_adjuster"
  have "list_all (converts ?conv) demo_flows"
    by (simp add: adjuster_converts [OF demo_reach stable.std_sort_axioms] demo_flows_def demo_flow_def)
  then obtain m where m: "aggregate_flows ?conv demo_flows [] = Inr m" using aggregate_flows_fold by blast
  with aggregate_flows_empty [OF m] have ne: "m \<noteq> []" by (simp add: demo_flows_def)
  then obtain k r where kr: "(k, r) \<in> set m" by (cases m) auto
  obtain d :: ExportData where mb: "make_batch ?conv 0 demo_flows [] = Inr (Some d)" and d: "flowMap d = m"
    using m ne by (auto simp: make_batch_def Let_def)
  have "model_range (status (calibration demo_adjuster)) t" if "0 \<le> t" "t \<le> 200000000000" for t
  proof -
    obtain w where st: "demo_start = Some (Inr demo_adjuster, w)" using demo_start_ok by blast
    have "\<bar>mac_origin_ns (status (calibration demo_adjuster))\<bar> \<le> 2000000000000 \<and>
      \<bar>unix_origin_ns (status (calibration demo_adjuster))\<bar> \<le> 2000000000000000000"
      using demo_origin unfolding st by simp
    then have o: "\<bar>mac_origin_ns (status (calibration demo_adjuster))\<bar> \<le> 2000000000000"
      and e: "\<bar>unix_origin_ns (status (calibration demo_adjuster))\<bar> \<le> 2000000000000000000" by blast+
    from o that have "\<bar>t - mac_origin_ns (status (calibration demo_adjuster))\<bar> \<le> 2300000000000" by linarith
    then show ?thesis unfolding model_range_def using e by simp
  qed
  then have "\<forall>e \<in> set demo_flows. mac_start e \<le> mac_end e \<and>
      model_range (status (calibration demo_adjuster)) (mac_start e) \<and>
      model_range (status (calibration demo_adjuster)) (mac_end e)"
    by (simp add: demo_flows_def demo_flow_def mac_start_def mac_end_def)
  from flow_times_ordered [OF demo_reach stable.std_sort_axioms _ _ _ mb this, of k r] kr d mb show ?thesis
    by (auto simp: demo_config_def default_adjuster_config_def config_ranges)
qed

end
