(* ===== verification/Schedule.thy ===== *)
theory Schedule
  imports Pipeline
begin

text \<open>
  The timing of the I/O thread: on a host on which time does not run backwards, no operation of a tick moves
  the clock back, the ticks keep to a grid of multiples of the period, and so the program never exports more
  than one batch per period.
\<close>

subsection \<open>No operation of a tick moves the clock back\<close>

locale steady_host =
  fixes host :: "'w host" and clk :: "'w \<Rightarrow> i64"
  assumes host_steady: "host_timed host clk"
begin

abbreviation api :: "'w nfp_api" where
  "api \<equiv> host_api host"

lemma api_steady: "api_timed api clk"
  using host_steady by (simp add: host_timed_def)

named_theorems timed \<open>operations that do not move the clock back\<close>

lemma calls_timed [timed]:
  "area_alloc api c i ad n w = (oa, w') \<Longrightarrow> clk w \<le> clk w'"
  "area_acquire api a w = (rc, w') \<Longrightarrow> clk w \<le> clk w'"
  "area_read api a off n w = (r, w') \<Longrightarrow> clk w \<le> clk w'"
  "area_write api a off bs w = (rc, w') \<Longrightarrow> clk w \<le> clk w'"
  "area_fill api a off v n w = (rc, w') \<Longrightarrow> clk w \<le> clk w'"
  using api_steady unfolding api_timed_def by (metis snd_conv)+

lemma then_timed:
  "t \<le> clk w \<Longrightarrow> t \<le> clk (area_free api a w)" "t \<le> clk w \<Longrightarrow> t \<le> clk (area_release_free api a w)"
  "t \<le> clk w \<Longrightarrow> t \<le> clk (sleep_ms api k w)"
  using api_steady unfolding api_timed_def by (meson order_trans)+

lemma open_area_timed [timed]: "open_area api c i ad n w = (r, w') \<Longrightarrow> clk w \<le> clk w'"
  by (auto simp: open_area_def intro!: then_timed dest!: timed split: prod.splits option.splits if_splits bool.splits)

lemma read_exact_timed [timed]: "read_exact api a off n w = (r, w') \<Longrightarrow> clk w \<le> clk w'"
  by (auto simp: read_exact_def intro!: then_timed dest!: timed split: prod.splits option.splits if_splits bool.splits)

lemma await_idle_timed [timed]:
  assumes "await_idle api a off w = Some (b, w')"
  shows "clk w \<le> clk w'"
  by (rule await_idle_inv [where I = "\<lambda>v. clk w \<le> clk v", OF _ _ assms])
    (auto intro!: then_timed dest!: timed)

lemma wait_quiescent_timed [timed]: "wait_quiescent api c i ad b w = Some (r, w') \<Longrightarrow> clk w \<le> clk w'"
  by (auto simp: wait_quiescent_def intro!: then_timed dest!: timed split: prod.splits option.splits if_splits bool.splits)

lemma open_semaphores_timed [timed]: "open_semaphores api c i ad n k w = (r, w') \<Longrightarrow> clk w \<le> clk w'"
  by (auto simp: open_semaphores_def intro!: then_timed dest!: timed split: prod.splits option.splits if_splits bool.splits)

lemma switch_bank_timed [timed]: "switch_bank api c rd w = (r, w') \<Longrightarrow> clk w \<le> clk w'"
  by (auto simp: switch_bank_def Let_def intro!: then_timed dest!: timed split: prod.splits option.splits if_splits bool.splits)

lemma read_slots_timed [timed]:
  "read_slots (read_flow_entry api k d) is w = (es, w') \<Longrightarrow> clk w \<le> clk w'"
  "read_slots (read_counter_entry api d) is w = (cs, w') \<Longrightarrow> clk w \<le> clk w'"
proof -
  show "clk w \<le> clk w'" if "read_slots (read_flow_entry api k d) is w = (es, w')"
    by (rule read_slots_inv [where I = "\<lambda>v. clk w \<le> clk v", OF _ that])
      (auto simp: read_flow_entry_def dest!: timed split: prod.splits option.splits)
  show "clk w \<le> clk w'" if "read_slots (read_counter_entry api d) is w = (cs, w')"
    by (rule read_slots_inv [where I = "\<lambda>v. clk w \<le> clk v", OF _ that])
      (auto simp: read_counter_entry_def dest!: timed split: prod.splits option.splits)
qed

lemma drain_flow_bank_timed [timed]: "drain_flow_bank api c rd b s sl w = (r, w') \<Longrightarrow> clk w \<le> clk w'"
  by (auto simp: drain_flow_bank_def drain_flow_slots_def intro!: then_timed dest!: timed split: prod.splits option.splits if_splits bool.splits)

lemma sleep_timed: "clk w \<le> clk (sleep_ms api k w)"
  by (rule then_timed) simp

lemma readFlowData_timed [timed]: "readFlowData api rd w = Some (r, w') \<Longrightarrow> clk w \<le> clk w'"
  by (auto simp: readFlowData_def Let_def dest!: timed split: prod.splits option.splits if_splits bool.splits)
    (meson order_trans sleep_timed)+

lemma retired_bank_timed [timed]: "retired_bank api c rd w = (r, w') \<Longrightarrow> clk w \<le> clk w'"
  by (auto simp: retired_bank_def Let_def intro!: then_timed dest!: timed split: prod.splits option.splits if_splits bool.splits)

lemma drain_counter_bank_timed [timed]: "drain_counter_bank api c rd b s sl w = (r, w') \<Longrightarrow> clk w \<le> clk w'"
  by (auto simp: drain_counter_bank_def drain_counter_slots_def intro!: then_timed dest!: timed split: prod.splits option.splits if_splits bool.splits)

lemma readCounterData_timed [timed]: "readCounterData api rd w = Some (r, w') \<Longrightarrow> clk w \<le> clk w'"
  by (auto simp: readCounterData_def intro!: then_timed dest!: timed split: prod.splits option.splits if_splits bool.splits)

lemma read_tick_timed [timed]: "read_tick api fr cr w = Some (r, w') \<Longrightarrow> clk w \<le> clk w'"
  by (auto simp: read_tick_def intro!: then_timed dest!: timed split: prod.splits option.splits if_splits bool.splits)

lemma host_timed_calls [timed]:
  "steady_now host w = (now, w') \<Longrightarrow> clk w \<le> clk w'"
  "clockNanoseconds (gettime_realtime host w) = (x, w') \<Longrightarrow> clk w \<le> clk w'"
  "clockNanoseconds (gettime_monotonic_raw host w) = (x, w') \<Longrightarrow> clk w \<le> clk w'"
  using host_steady unfolding host_timed_def clockNanoseconds_def
  by (auto split: prod.splits option.splits) (metis less_imp_le snd_conv)+

lemma readState_steady [timed]: "readState api r w = (obs, r', w') \<Longrightarrow> clk w \<le> clk w'"
  by (rule readState_timed [OF api_steady])

lemma poll_steady [timed]: "poll (adjuster_source host) s r w = (x, w') \<Longrightarrow> clk w \<le> clk w'"
  by (auto simp: poll_def Let_def and_then_def adjuster_source_def dest!: timed split: prod.splits sum.splits)

lemma pause_timed: "clk w \<le> clk (pause_between host i n b acc w)"
  using host_steady by (simp add: pause_between_def host_timed_def)

lemma collect_loop_timed [timed]:
  assumes "collect_loop host i n d b acc s r w = Some (res, w')"
  shows "clk w \<le> clk w'"
proof -
  define Q where "Q = (\<lambda>(h :: 'w host) (i :: i64) (n :: nat) (d :: i64) (b :: bool) (acc :: PublicationSample list)
    (s :: ClockSampler) (r :: MacClockReader) (w :: 'w)
    (res :: (PublicationSample list \<times> ClockSampler \<times> MacClockReader) outcome \<times> 'w).
    h = host \<longrightarrow> clk w \<le> clk (snd res))"
  have "Q host i n d b acc s r w (res, w')"
  proof (rule collect_loop.raw_induct [OF _ assms], goal_cases)
    case (1 loop h i n d b acc s r w y)
    show ?case
    proof (cases "h = host")
      case h: True
      obtain now w1 where now: "steady_now host w = (now, w1)" by (rule prod.exhaust)
      obtain z w2 where pl: "poll (adjuster_source host) s r w1 = (z, w2)" by (rule prod.exhaust)
      have t: "clk w \<le> clk w1" "clk w1 \<le> clk w2" using now pl by (auto dest: timed)
      show ?thesis
      proof (cases "n \<le> length acc \<or> d \<le> now")
        case True
        with 1(2) now t h show ?thesis by (auto simp: Q_def split: if_splits)
      next
        case False
        show ?thesis
        proof (cases z)
          case (Inl ex)
          with 1(2) False now pl t h show ?thesis by (auto simp: Q_def)
        next
          case (Inr u)
          obtain x s1 r1 where "u = (x, s1, r1)" by (cases u)
          with 1(2) False now pl Inr h have
            "loop host i n d b (gathered acc x) s1 r1 (pause_between host i n b (gathered acc x) w2) = Some y"
            by simp
          from 1(1) [OF this] t pause_timed [of w2 i n b "gathered acc x"] show ?thesis by (simp add: Q_def)
        qed
      qed
    qed (simp add: Q_def)
  qed
  then show ?thesis by (simp add: Q_def)
qed

lemma refresh_timed [timed]: "refresh host ta w = Some (res, w') \<Longrightarrow> clk w \<le> clk w'"
  by (auto simp: refresh_def collectPublicationSamples_def Let_def dest!: timed
      split: prod.splits option.splits sum.splits)

lemma wake_timed: "clk w \<le> clk (sleep_until host t w)" "t \<le> clk (sleep_until host t w)"
  using host_steady by (simp_all add: host_timed_def)

text \<open>A tick ends after the multiple of the period it slept until, which it leaves in \<open>nextTick\<close>.\<close>

lemma io_tick_timed:
  assumes "io_tick host st w = Some (res, w')"
  shows "clk w \<le> clk w' \<and> s64 (nextTick st + io_period st) \<le> clk w'"
proof -
  let ?u = "sleep_until host (s64 (nextTick st + io_period st)) w"
  have "clk ?u \<le> clk w'"
    using assms by (auto simp: io_tick_def Let_def dest!: timed split: prod.splits option.splits sum.splits)
  with wake_timed(1) [where w = w and t = "s64 (nextTick st + io_period st)"]
    wake_timed(2) [where w = w and t = "s64 (nextTick st + io_period st)"] show ?thesis by linarith
qed

lemma io_tick_grid:
  "io_tick host st w = Some (Inr (batch, st'), w') \<Longrightarrow>
    nextTick st' = s64 (nextTick st + io_period st) \<and> io_period st' = io_period st"
  by (auto simp: io_tick_def Let_def split: prod.splits option.splits sum.splits)

lemma io_enter_timed:
  assumes "io_enter host st w = (st', w')"
  shows "clk w \<le> clk w' \<and> nextTick st' = clk w \<and> io_period st' = io_period st"
proof -
  obtain now w1 where now: "steady_now host w = (now, w1)" by (rule prod.exhaust)
  moreover have "now = clk w" using host_steady now unfolding host_timed_def by (metis fst_conv)
  ultimately show ?thesis using assms by (auto simp: io_enter_def dest: timed)
qed

end

subsection \<open>The grid of ticks\<close>

text \<open>
  The ticks that have ended, and the multiple of the period the I/O thread last slept until. A batch of the
  tick that has just ended is still to be pushed.
\<close>

definition to_push :: "nic_pc \<Rightarrow> nat" where
  "to_push pc = (case pc of NicPush d \<Rightarrow> 1 | _ \<Rightarrow> 0)"

definition grid_inv :: "('w \<Rightarrow> i64) \<Rightarrow> io_state \<Rightarrow> 'w \<Rightarrow> 'w pipeline \<Rightarrow> bool" where
  "grid_inv clk st w s \<longleftrightarrow> clk w \<le> clk (io_world s) \<and> io_period (io_st s) = io_period st \<and>
     (nic_at s = NicEntry \<longrightarrow> pushed s = [] \<and> io_world s = w) \<and>
     (nic_at s \<noteq> NicEntry \<longrightarrow> (\<exists>n. length (pushed s) + to_push (nic_at s) \<le> n \<and>
        nextTick (io_st s) = clk w + int n * io_period st \<and> nextTick (io_st s) \<le> clk (io_world s)))"

lemma notify_grid [simp]:
  "io_world (notify s) = io_world s" "io_st (notify s) = io_st s" "nic_at (notify s) = nic_at s"
  "pushed (notify s) = pushed s"
  by (simp_all add: notify_def)

lemma grid_inv_cong:
  "grid_inv clk st w s \<Longrightarrow> io_world t = io_world s \<Longrightarrow> io_st t = io_st s \<Longrightarrow> nic_at t = nic_at s \<Longrightarrow>
    pushed t = pushed s \<Longrightarrow> grid_inv clk st w t"
  by (simp add: grid_inv_def)

lemma grid_tick:
  assumes "steady_host host clk" "io_tick host st w = Some (Inr (batch, st'), w')"
    and "nextTick st = c + int n * p" "nextTick st \<le> clk w" "0 \<le> c" "0 \<le> p" "io_period st = p"
    and "clk w' + p < 2 ^ 63"
  shows "nextTick st' = c + int (Suc n) * p \<and> io_period st' = p \<and> nextTick st' \<le> clk w' \<and> clk w \<le> clk w'"
proof -
  note t = steady_host.io_tick_timed [OF assms(1,2)] steady_host.io_tick_grid [OF assms(1,2)]
  have "s64 (nextTick st + io_period st) = nextTick st + p"
  proof (rule s64_id [THEN trans])
    have "0 \<le> int n * p" using assms(6) by simp
    with t assms(3-8) show "in_i64 (nextTick st + io_period st)" unfolding in_i64_def by linarith
  qed (simp add: assms(7))
  with t assms(3,7) show ?thesis by (simp add: distrib_right)
qed

lemma world_steady:
  assumes "pipe_step P s t" "steady_host (prog_host P) clk"
  shows "clk (io_world s) \<le> clk (io_world t)"
  using assms(1)
proof cases
  case step_nic
  from step_nic(2) show ?thesis
    by cases (auto dest: steady_host.io_enter_timed [OF assms(2)] steady_host.io_tick_timed [OF assms(2)])
qed (auto elim!: tx_step.cases asio_step.cases signal_step.cases main_step.cases)

lemma grid_nic:
  assumes "grid_inv clk st w s" "nic_step P s t" "steady_host (prog_host P) clk"
    and "0 \<le> clk w" "0 \<le> io_period st" "clk (io_world t) + io_period st < 2 ^ 63"
  shows "grid_inv clk st w t"
  using assms(2)
proof cases
  case (nic_entry st1 w1)
  with steady_host.io_enter_timed [OF assms(3) nic_entry(3)] assms(1) show ?thesis
    by (auto simp: grid_inv_def to_push_def intro: exI [of _ 0])
next
  case (nic_tick batch st1 w1)
  then obtain n where n: "length (pushed s) \<le> n" "nextTick (io_st s) = clk w + int n * io_period st"
    "nextTick (io_st s) \<le> clk (io_world s)" and p: "io_period (io_st s) = io_period st"
    and w: "clk w \<le> clk (io_world s)"
    using assms(1) by (auto simp: grid_inv_def to_push_def)
  have "clk w1 + io_period st < 2 ^ 63" using assms(6) nic_tick(1) by simp
  from grid_tick [OF assms(3) nic_tick(3) n(2,3) assms(4,5) p this] w
  have t: "nextTick st1 = clk w + int (Suc n) * io_period st" "io_period st1 = io_period st"
    "nextTick st1 \<le> clk w1" "clk w \<le> clk w1" "clk (io_world s) \<le> clk w1" by linarith+
  have "length (pushed t) + to_push (nic_at t) \<le> Suc n"
    using n(1) nic_tick(1) by (simp add: to_push_def split: option.split)
  with t nic_tick(1) show ?thesis by (auto simp: grid_inv_def split: option.splits)
next
  case (nic_throw ex w1)
  with steady_host.io_tick_timed [OF assms(3) nic_throw(3)] assms(1) show ?thesis
    by (auto simp: grid_inv_def intro: exI order_trans)
qed (use assms(1) in \<open>auto simp: grid_inv_def to_push_def\<close>)

lemma grid_step:
  assumes "grid_inv clk st w s" "pipe_step P s t" "steady_host (prog_host P) clk"
    and "0 \<le> clk w" "0 \<le> io_period st" "clk (io_world t) + io_period st < 2 ^ 63"
  shows "grid_inv clk st w t"
  using assms(2)
proof cases
  case step_nic
  with grid_nic [OF assms(1) _ assms(3-6)] show ?thesis by blast
qed (use assms(1) in \<open>auto elim!: tx_step.cases asio_step.cases signal_step.cases main_step.cases intro: grid_inv_cong\<close>)

lemma reach_grid:
  assumes "pipe_reach P st w s" "steady_host (prog_host P) clk" "0 \<le> clk w" "0 \<le> io_period st"
    and "clk (io_world s) + io_period st < 2 ^ 63"
  shows "grid_inv clk st w s"
  using assms(1,5)
proof induction
  case reach_init
  then show ?case by (simp add: grid_inv_def pipe_init_def)
next
  case (reach_step s t)
  then have "grid_inv clk st w s" using world_steady [OF reach_step(2) assms(2)] by simp
  then show ?case by (rule grid_step [OF _ reach_step(2) assms(2-4) reach_step(4)])
qed

text \<open>
  C8 (bounds). The program never exports faster than one batch per period. However the threads interleave,
  a tick wakes at a multiple of the period after the entry of the I/O thread, so that the delay of one tick
  does not shift the next, and the batches pushed so far, one per period at most, fit into the time since the
  start, even when the thread catches up on ticks it has missed. The hypotheses say that time does not run backwards, that \<^verbatim>\<open>sleep_until\<close> sleeps long
  enough, and that the steady clock is a period away from the end of its range.
\<close>

theorem export_rate:
  assumes "pipe_reach P st w s" "host_timed (prog_host P) clk" "0 \<le> clk w" "0 \<le> io_period st"
    and "clk (io_world s) + io_period st < 2 ^ 63"
  shows "clk w + int (length (pushed s)) * io_period st \<le> clk (io_world s) \<and>
    (nic_at s = NicEntry \<or> (\<exists>n. length (pushed s) \<le> n \<and> nextTick (io_st s) = clk w + int n * io_period st))"
proof (cases "nic_at s = NicEntry")
  case True
  with reach_grid [OF assms(1) steady_host.intro [OF assms(2)] assms(3-5)] show ?thesis by (simp add: grid_inv_def)
next
  case False
  with reach_grid [OF assms(1) steady_host.intro [OF assms(2)] assms(3-5)] obtain n where
    n: "length (pushed s) \<le> n" "nextTick (io_st s) = clk w + int n * io_period st"
      "nextTick (io_st s) \<le> clk (io_world s)"
    unfolding grid_inv_def by (blast intro: add_leD1)
  have "int (length (pushed s)) * io_period st \<le> int n * io_period st"
    using n(1) assms(4) by (simp add: mult_right_mono)
  with n show ?thesis by auto
qed

subsection \<open>A worked tick\<close>

text \<open>A period of a nanosecond, and a flow record that converts.\<close>

definition demo_due_state :: io_state where
  "demo_due_state = \<lparr> io_reader = new_SmartNicReader demo_api (Some 0) 0 0 0 0 0 0 0 0 0 0 0 0 0 0 0 0 1,
     io_counterReader = new_CounterReader demo_api None 0 0 0 0 0 0 0 0 0 0 0 0 1,
     io_adjuster = demo_adjuster, io_period = 1, nextTick = 0, driftCalibrationReported = False \<rparr>"

definition demo_due_world :: demo_world where
  "demo_due_world = (1499998, [[0, 0, 0, 0], [0, 0, 0, 0], [3, 0, 0, 0], replicate 32 0, replicate 32 0,
     demo_state 30, demo_state 33, demo_state 36])"

interpretation demo_clock: steady_host demo_host fst
  by unfold_locales (rule demo_timed)

definition demo_clock_program :: "demo_world program" where
  "demo_clock_program = \<lparr> prog_host = demo_host, prog_dump = (\<lambda>_. []), prog_debug = False, prog_runSecs = 0,
     spurious = False, grace = True \<rparr>"

lemma demo_due_read:
  "(case readFlowData demo_api (io_reader demo_due_state) (1500000, snd demo_due_world) of
     Some ((es, r), w) \<Rightarrow> w = demo_later \<and> map (\<lambda>e. (nsec (start_time (fd_data e)), nsec (end_time (fd_data e)))) es = [(0, 0)]
   | None \<Rightarrow> False)"
  by code_simp

lemma demo_due_refresh:
  "\<exists>ta w. refresh demo_host demo_adjuster demo_later = Some (Inr (True, ta), w) \<and> fst w < 3000000"
proof -
  have "(case refresh demo_host demo_adjuster demo_later of Some (Inr (b, ta), w) \<Rightarrow> b \<and> fst w < 3000000 | _ \<Rightarrow> False)"
    by code_simp
  then show ?thesis using demo_refresh_ok by auto
qed

lemma demo_due_enter:
  "io_enter demo_host demo_due_state demo_due_world =
    (demo_due_state\<lparr> nextTick := 1499998 \<rparr>, (1499999, snd demo_due_world))"
  by (simp add: io_enter_def demo_host_def demo_due_state_def demo_due_world_def demo_wait_def)

lemma demo_due_tick:
  "\<exists>d st w. io_tick demo_host (demo_due_state\<lparr> nextTick := 1499998 \<rparr>) (1499999, snd demo_due_world) =
    Some (Inr (Some d, st), w) \<and> fst w < 4000000"
proof -
  obtain es r where rd: "readFlowData demo_api (io_reader demo_due_state) (1500000, snd demo_due_world) =
      Some ((es, r), demo_later)"
    and es: "map (\<lambda>e. (nsec (start_time (fd_data e)), nsec (end_time (fd_data e)))) es = [(0, 0)]"
    using demo_due_read by (auto split: option.splits)
  obtain ta w where rf: "refresh demo_host demo_adjuster demo_later = Some (Inr (True, ta), w)" "fst w < 3000000"
    using demo_due_refresh by blast
  obtain e where e: "es = [e]" "nsec (start_time (fd_data e)) = 0" "nsec (end_time (fd_data e)) = 0"
    using es by (auto simp: map_eq_Cons_conv)
  have mb: "\<exists>d. make_batch (adjuster_toUnixNanoseconds ta) el es [] = Inr (Some d)" for el
  proof -
    have "list_all (converts (adjuster_toUnixNanoseconds ta)) es"
      using adjuster_converts [OF adjuster_refresh [OF demo_reach rf(1)] stable.std_sort_axioms, of e] e by simp
    then obtain m where "aggregate_flows (adjuster_toUnixNanoseconds ta) es [] = Inr m"
      using aggregate_flows_fold by blast
    with aggregate_flows_empty [OF this] e(1) show ?thesis by (simp add: make_batch_def Let_def)
  qed
  have due: "s64 1499999 = 1499999" by (rule s64_id) (simp add: in_i64_def)
  have "read_tick (host_api demo_host) (io_reader demo_due_state) (io_counterReader demo_due_state)
      (1500000, snd demo_due_world) = Some ((es, [], r), demo_later)"
    using rd by (simp add: read_tick_def demo_due_state_def readCounterData_def new_CounterReader_def Let_def demo_host_def)
  moreover have "io_adjuster demo_due_state = demo_adjuster" "io_period demo_due_state = 1"
    by (simp_all add: demo_due_state_def)
  moreover have "steady_now demo_host (sleep_until demo_host 1499999 (1499999, snd demo_due_world)) =
      (1499999, (1500000, snd demo_due_world))"
    "steady_now demo_host w = (fst w, demo_wait 1 w)" "fst (demo_wait 1 w) < 4000000"
    using rf(2) by (cases w; simp add: demo_host_def demo_wait_def)+
  moreover obtain d where "make_batch (adjuster_toUnixNanoseconds ta) (elapsed_seconds 1499999 (fst w)) es [] = Inr (Some d)"
    using mb by blast
  ultimately show ?thesis
    by (intro exI) (simp add: io_tick_def Let_def due rf(1) del: split_paired_Ex)
qed

theorem export_rate_witness:
  "\<exists>s. pipe_reach demo_clock_program demo_due_state demo_due_world s \<and> length (pushed s) = 1 \<and>
    1499999 \<le> fst (io_world s)"
proof -
  have host: "prog_host demo_clock_program = demo_host" by (simp add: demo_clock_program_def)
  obtain d st' w' where tick: "io_tick demo_host (demo_due_state\<lparr> nextTick := 1499998 \<rparr>) (1499999, snd demo_due_world) =
      Some (Inr (Some d, st'), w')" "fst w' < 4000000"
    using demo_due_tick by blast
  let ?t = "(pipe_init demo_due_state demo_due_world)\<lparr> io_st := st', io_world := w', nic_at := NicLoop,
    tx_at := TxCheck, shared_queue := [d], pushed := [d] \<rparr>"
  have r: "pipe_reach demo_clock_program demo_due_state demo_due_world ?t"
    by (rule pushed_batch [of demo_clock_program, unfolded host, OF demo_due_enter tick(1)])
  have "fst demo_due_world = 1499998" "io_period demo_due_state = 1"
    by (simp_all add: demo_due_world_def demo_due_state_def)
  with export_rate [OF r, unfolded host, OF demo_timed] tick(2)
  have "1499999 \<le> fst (io_world ?t)" by (simp add: pipe_init_def)
  with r show ?thesis by (intro exI [of _ ?t]) (simp add: pipe_init_def)
qed

end
