(* ===== verification/End_To_End.thy ===== *)
theory End_To_End
  imports Startup Sender Wire_Types Schedule "HOL-Library.Countable"
begin

text \<open>
  The components put together: what holds of every tick in every run of the threads, what a collector can
  read from the wire, and what can end the program with an exception.
\<close>

subsection \<open>What the I/O thread keeps\<close>

lemma readFlowData_reader:
  assumes "readFlowData api r w = Some ((es, r'), w')"
  shows "\<exists>b. r' = r\<lparr> sr_bufferState := b \<rparr>"
proof -
  have "\<exists>b. r = r\<lparr> sr_bufferState := b \<rparr>" by (rule exI [of _ "sr_bufferState r"]) simp
  with assms show ?thesis
    by (auto simp: readFlowData_def Let_def split: option.splits prod.splits if_splits bool.splits)
qed

text \<open>The state of the I/O thread after any number of ticks that started from \<open>st0\<close>.\<close>

definition io_kept :: "'w host \<Rightarrow> io_state \<Rightarrow> io_state \<Rightarrow> bool" where
  "io_kept host st0 st \<longleftrightarrow> (\<exists>b. io_reader st = (io_reader st0)\<lparr> sr_bufferState := b \<rparr>) \<and>
     io_counterReader st = io_counterReader st0 \<and> io_period st = io_period st0 \<and>
     (\<forall>srt cfg. adjuster_reach host srt cfg (io_adjuster st0) \<longrightarrow> adjuster_reach host srt cfg (io_adjuster st))"

lemma io_kept_refl: "io_kept host st st"
  unfolding io_kept_def by (metis SmartNicReader.surjective SmartNicReader.update_convs(16))

lemma io_kept_tick:
  assumes "io_kept host st0 st" "io_tick host st w = Some (Inr (batch, st'), w')"
  shows "io_kept host st0 st'"
proof -
  obtain flows counters reader accepted ta u1 u2 u3 where
    "read_tick (host_api host) (io_reader st) (io_counterReader st) u1 = Some ((flows, counters, reader), u2)"
    and rf: "refresh host (io_adjuster st) u2 = Some (Inr (accepted, ta), u3)"
    and st': "io_reader st' = reader" "io_counterReader st' = io_counterReader st" "io_adjuster st' = ta"
      "io_period st' = io_period st"
    using assms(2) by (auto simp: io_tick_def Let_def split: prod.splits option.splits sum.splits)
  then obtain u where "readFlowData (host_api host) (io_reader st) u1 = Some ((flows, reader), u)"
    by (auto simp: read_tick_def split: option.splits prod.splits)
  from readFlowData_reader [OF this] obtain b where "reader = (io_reader st)\<lparr> sr_bufferState := b \<rparr>" ..
  with assms(1) st' rf show ?thesis by (auto simp: io_kept_def intro: adjuster_refresh)
qed

lemma io_kept_enter: "io_kept host st0 st \<Longrightarrow> io_enter host st w = (st', w') \<Longrightarrow> io_kept host st0 st'"
  by (auto simp: io_kept_def io_enter_def split: prod.splits)

lemma pipe_kept:
  assumes "pipe_reach P st0 w0 s"
  shows "io_kept (prog_host P) st0 (io_st s)"
  using assms
proof (induction rule: pipe_reach.induct)
  case reach_init
  show ?case by (simp add: pipe_init_def io_kept_refl)
next
  case (reach_step s t)
  from reach_step.hyps(2) reach_step.IH show ?case
    by (elim pipe_step.cases thread_cases) (auto intro: io_kept_tick io_kept_enter)
qed

subsection \<open>Every tick\<close>

lemma same_places:
  "active_bank (r\<lparr> sr_bufferState := x \<rparr>) c = active_bank r c"
  "sta_word (r\<lparr> sr_bufferState := x \<rparr>) = sta_word r" "pro_word (r\<lparr> sr_bufferState := x \<rparr>) = pro_word r"
  "flow_bank (r\<lparr> sr_bufferState := x \<rparr>) b = flow_bank r b"
  "tick_bank (r\<lparr> sr_bufferState := x \<rparr>) cr = tick_bank r cr"
  "flow_at (r\<lparr> sr_bufferState := x \<rparr>) c b i = flow_at r c b i"
  "flow_slots (r\<lparr> sr_bufferState := x \<rparr>) c b = flow_slots r c b"
  "flow_sizes (r\<lparr> sr_bufferState := x \<rparr>) = flow_sizes r" "sr_cpp (r\<lparr> sr_bufferState := x \<rparr>) = sr_cpp r"
  by (simp_all add: active_bank_def sta_word_def pro_word_def flow_bank_def tick_bank_def flow_at_def flow_slots_def
      flow_sizes_def fun_eq_iff)

text \<open>
  C1 (functional). Every tick of every run exports exactly what the SmartNIC had collected, with the firmware
  at work all the time: there is a moment at which the bank that was active when the tick began has come to rest, such that
  the batch has one record for every five-tuple among the flow records in its ready slots and for no other. That record holds an agent
  for each flow record of the five-tuple, in the order of the slots, and the earliest start and latest end of
  their time stamps, converted with the clock as the tick leaves it, and cut to milliseconds. The agents of the whole batch are
  those of the ready slots, each once, and every interface has the values of its last ready counter. Without a
  batch no slot was ready.
\<close>

theorem every_tick_exports:
  assumes "nfp_firmware (host_api (prog_host P)) dev place rely (sta_word fr) (pro_word fr) (tick_bank fr cr)"
    and "pipe_reach P st0 w0 s" "io_tick (prog_host P) (io_st s) (io_world s) = Some (Inr (batch, st'), w')"
    and "w1 = tick_begins (prog_host P) (io_st s) (io_world s)" "fr = io_reader st0" "cr = io_counterReader st0"
    and "sr_cpp fr = Some cpp" "flow_sizes fr" "cr_cpp cr = Some cpp'" "counter_sizes cr"
    and "sta_word fr = (cr_staCppId cr, cr_staAddr cr)" "b = active_bank fr (fst (dev w1))"
    and "words_apart (sta_word fr) (pro_word fr) (tick_bank fr cr b)" "flow_bank fr b \<inter> counter_bank cr b = {}"
  shows "\<exists>c L. retires rely (sta_word fr) (pro_word fr) b (dev w1) (c, L) \<and>
    (let flows = map (flow_at fr c b) (flow_slots fr c b); counters = map (counter_at cr c b) (counter_slots cr c b)
     in case batch of None \<Rightarrow> flows = [] \<and> counters = []
      | Some d \<Rightarrow> flows_exported (adjuster_toUnixNanoseconds (io_adjuster st')) flows (flowMap d) \<and>
          counters_exported counters (counterMap d) \<and>
          sum_list (map (\<lambda>p. mset (agents (snd p))) (flowMap d)) = mset (map flow_agent flows))"
proof -
  obtain x where r: "io_reader (io_st s) = fr\<lparr> sr_bufferState := x \<rparr>" and c: "io_counterReader (io_st s) = cr"
    using pipe_kept [OF assms(2)] assms(5,6) by (auto simp: io_kept_def)
  show ?thesis
    unfolding Let_def batch_exports_def [symmetric]
    by (rule io_tick_snapshot [OF _ assms(3,4) r [symmetric] c [symmetric], unfolded same_places, OF assms(1,7-14)])
qed

subsection \<open>What the collector reads\<close>

text \<open>
  The collector turns each datagram back into a JSON value and reads it as a flow or as a counter. Of the JSON library
  only this is needed: a payload can be read back from its text.
\<close>

definition readable_dump :: "(json \<Rightarrow> string) \<Rightarrow> (string \<Rightarrow> json option) \<Rightarrow> bool" where
  "readable_dump dump parse \<longleftrightarrow> (\<forall>p. parse (dump (flow_payload p)) = Some (flow_payload p)) \<and>
     (\<forall>p. parse (dump (counter_payload p)) = Some (counter_payload p))"

definition flows_read :: "(string \<Rightarrow> json option) \<Rightarrow> string list \<Rightarrow> (Tuple \<times> Agent list \<times> i64 \<times> i64) list" where
  "flows_read parse texts = List.map_filter (\<lambda>t. Option.bind (parse t) parse_flow_payload) texts"

definition counters_read :: "(string \<Rightarrow> json option) \<Rightarrow> string list \<Rightarrow> (CounterAgent \<times> CounterRecord) list" where
  "counters_read parse texts = List.map_filter (\<lambda>t. Option.bind (parse t) parse_counter_payload) texts"

definition flow_sent :: "Tuple \<times> FlowRecord \<Rightarrow> Tuple \<times> Agent list \<times> i64 \<times> i64" where
  "flow_sent p = (fst p, agents (snd p), fr_start_time (snd p), fr_end_time (snd p))"

lemma payload_kinds:
  "parse_flow_payload (flow_payload p) = Some (flow_sent p)" "parse_counter_payload (flow_payload p) = None"
  "parse_counter_payload (counter_payload q) = Some q" "parse_flow_payload (counter_payload q) = None"
  by (cases p; cases "fst p"; cases q; cases "fst q";
      simp add: parse_flow_payload_def flow_payload_def flow_item_def parse_tuple_def member_object field_def
      parse_agents parse_counter_payload_def counter_payload_def counter_item_def flow_sent_def)+

lemma reads_append:
  "flows_read parse (xs @ ys) = flows_read parse xs @ flows_read parse ys"
  "counters_read parse (xs @ ys) = counters_read parse xs @ counters_read parse ys"
  by (induction xs) (auto simp: flows_read_def counters_read_def List.map_filter_def split: option.splits)

lemma reads_payloads:
  assumes "readable_dump dump parse"
  shows "flows_read parse (map (\<lambda>p. dump (flow_payload p)) ps) = map flow_sent ps"
    "counters_read parse (map (\<lambda>p. dump (flow_payload p)) ps) = []"
    "flows_read parse (map (\<lambda>p. dump (counter_payload p)) qs) = []"
    "counters_read parse (map (\<lambda>p. dump (counter_payload p)) qs) = qs"
  using assms
proof -
  have "parse (dump (flow_payload p)) = Some (flow_payload p)" "parse (dump (counter_payload q)) = Some (counter_payload q)"
    for p q using assms unfolding readable_dump_def by blast+
  then show "flows_read parse (map (\<lambda>p. dump (flow_payload p)) ps) = map flow_sent ps"
    "counters_read parse (map (\<lambda>p. dump (flow_payload p)) ps) = []"
    "flows_read parse (map (\<lambda>p. dump (counter_payload p)) qs) = []"
    "counters_read parse (map (\<lambda>p. dump (counter_payload p)) qs) = qs"
    by (simp_all add: flows_read_def counters_read_def List.map_filter_def filter_map comp_def payload_kinds del: not_None_eq)
qed

lemma reads_batches:
  assumes "readable_dump (prog_dump P) parse"
  shows "flows_read parse (concat (map (batch_texts P) ds)) = concat (map (\<lambda>d. map flow_sent (flowMap d)) ds) \<and>
    counters_read parse (concat (map (batch_texts P) ds)) = concat (map counterMap ds)"
proof (induction ds)
  case (Cons d ds)
  have "batch_texts P d = map (\<lambda>p. prog_dump P (flow_payload p)) (flowMap d) @
      map (\<lambda>p. prog_dump P (counter_payload p)) (counterMap d)"
    by (simp add: batch_texts_def send_batch_def transmit_batch_def)
  with Cons reads_payloads [OF assms] show ?case by (simp add: reads_append)
qed (simp add: flows_read_def counters_read_def List.map_filter_def)

text \<open>
  C6 (functional). When the program has returned, a collector reads from the wire exactly the flows and
  the counters of the batches the I/O thread pushed, in their order, with all agents and the times in milliseconds, except
  possibly those of the last batch.
\<close>

theorem collector_receives:
  assumes "pipe_reach P st w s" "main_at s = MainDone" "tx_at s = TxDone" "readable_dump (prog_dump P) parse"
  shows "(pushed s = taken s \<or> (\<exists>d. pushed s = taken s @ [d])) \<and>
    flows_read parse (wire s) = concat (map (\<lambda>d. map flow_sent (flowMap d)) (taken s)) \<and>
    counters_read parse (wire s) = concat (map counterMap (taken s))"
proof -
  from done_delivered [OF assms(1,2)] assms(3) have "wire s = concat (map (batch_texts P) (taken s))"
    "pushed s = taken s \<or> (\<exists>d. pushed s = taken s @ [d])" by auto
  with reads_batches [OF assms(4), of "taken s"] show ?thesis by auto
qed

subsection \<open>What ends the program\<close>

definition clock_failure :: exn where
  "clock_failure = runtime_error ''clock_gettime failed during time calibration''"

text \<open>Some call of \<^verbatim>\<open>clock_gettime\<close> fails.\<close>

definition clock_unreadable :: "'w host \<Rightarrow> bool" where
  "clock_unreadable host \<longleftrightarrow> (\<exists>u. fst (gettime_realtime host u) = None \<or> fst (gettime_monotonic_raw host u) = None)"

lemma clock_throws: "clockNanoseconds r = (Inl ex, w) \<Longrightarrow> ex = clock_failure \<and> fst r = None"
  by (auto simp: clockNanoseconds_def clock_failure_def split: prod.splits option.splits)

lemma source_throws:
  "src_realtime (adjuster_source host) w = (Inl ex, w') \<Longrightarrow> ex = clock_failure \<and> clock_unreadable host"
  "src_monotonic (adjuster_source host) w = (Inl ex, w') \<Longrightarrow> ex = clock_failure \<and> clock_unreadable host"
  by (auto simp: adjuster_source_def clock_unreadable_def dest!: clock_throws)

lemma poll_throws:
  "poll (adjuster_source host) s r w = (Inl ex, w') \<Longrightarrow> ex = clock_failure \<and> clock_unreadable host"
  unfolding poll_def Let_def and_then_def
  by (auto dest: source_throws split: prod.splits sum.splits)

lemma collect_loop_throws:
  assumes "collect_loop host i n d b acc s r w = Some (Inl ex, w')"
  shows "ex = clock_failure \<and> clock_unreadable host"
proof -
  define Q where "Q = (\<lambda>(h :: 'a host) (i :: i64) (n :: nat) (d :: i64) (b :: bool) (acc :: PublicationSample list)
    (s :: ClockSampler) (r :: MacClockReader) (w :: 'a)
    (res :: (PublicationSample list \<times> ClockSampler \<times> MacClockReader) outcome \<times> 'a).
    \<forall>ex. fst res = Inl ex \<longrightarrow> ex = clock_failure \<and> clock_unreadable h)"
  have "Q host i n d b acc s r w (Inl ex, w')"
  proof (rule collect_loop.raw_induct [OF _ assms], goal_cases)
    case (1 loop h i n d b acc s r w y)
    obtain now w1 where now: "steady_now h w = (now, w1)" by (rule prod.exhaust)
    obtain z w2 where pl: "poll (adjuster_source h) s r w1 = (z, w2)" by (rule prod.exhaust)
    show ?case
    proof (cases "n \<le> length acc \<or> d \<le> now")
      case True
      with 1(2) now show ?thesis by (auto simp: Q_def split: if_splits)
    next
      case False
      show ?thesis
      proof (cases z)
        case (Inl ex)
        with 1(2) False now pl have "y = (Inl ex, w2)" by simp
        with poll_throws [OF pl [unfolded Inl]] show ?thesis by (simp add: Q_def)
      next
        case (Inr t)
        obtain x s1 r1 where "t = (x, s1, r1)" by (cases t)
        with 1(2) False now pl Inr obtain acc1 u where "loop h i n d b acc1 s1 r1 u = Some y"
          by (auto simp: Let_def)
        from 1(1) [OF this] show ?thesis by (simp add: Q_def)
      qed
    qed
  qed
  then show ?thesis by (simp add: Q_def)
qed

text \<open>
  Room for the burst of a refresh: what \<^verbatim>\<open>reserve\<close> throws and that it comes first. A length of \<open>2 ^ 57\<close> is more than
  a vector of samples can have.
\<close>

definition no_room :: "'w host \<Rightarrow> nat \<Rightarrow> exn \<Rightarrow> bool" where
  "no_room host n ex \<longleftrightarrow> ex = length_error ''vector::reserve'' \<and> 2 ^ 57 \<le> n \<or>
     ex = bad_alloc \<and> 0 < n \<and> n < 2 ^ 57 \<and> (\<exists>u. \<not> can_allocate host (64 * int n) u)"

lemma too_long: "vector_max_size < int n \<longleftrightarrow> 2 ^ 57 \<le> n"
  by (simp add: vector_max_size_def sizeof_PublicationSample_def) linarith

lemma reserve_throws: "reserve_samples host n w = Some ex \<Longrightarrow> no_room host n ex"
  by (auto simp: reserve_samples_def no_room_def too_long sizeof_PublicationSample_def split: if_splits)

lemma reserve_returns: "reserve_samples host n w = None \<Longrightarrow> n < 2 ^ 57"
  by (auto simp: reserve_samples_def too_long split: if_splits)

lemma refresh_ends:
  assumes "refresh host ta w = Some (res, w')"
  shows "case res of Inl ex \<Rightarrow> no_room host (refresh_burst_size (ta_config ta)) ex \<or>
      ex = clock_failure \<and> clock_unreadable host \<and> refresh_burst_size (ta_config ta) < 2 ^ 57
    | Inr _ \<Rightarrow> refresh_burst_size (ta_config ta) < 2 ^ 57"
  using assms
  by (auto simp: refresh_def collectPublicationSamples_def Let_def
      split: prod.splits option.splits sum.splits dest: collect_loop_throws reserve_throws reserve_returns)

lemma aggregate_throws:
  assumes "aggregate_flows conv es m = Inl ex"
  shows "\<exists>e \<in> set es. conv (sec (start_time (fd_data e))) (nsec (start_time (fd_data e))) = Inl ex \<or>
    conv (sec (end_time (fd_data e))) (nsec (end_time (fd_data e))) = Inl ex"
  using assms
proof (induction es arbitrary: m)
  case (Cons e es)
  then show ?case by (auto simp: add_flow_def Let_def split: sum.splits)
qed simp

text \<open>The flow records a tick reads.\<close>

definition flows_of_tick :: "'w host \<Rightarrow> io_state \<Rightarrow> 'w \<Rightarrow> flow_data list" where
  "flows_of_tick host st w =
    (case read_tick (host_api host) (io_reader st) (io_counterReader st) (tick_begins host st w) of
       None \<Rightarrow> [] | Some ((flows, counters, reader), w) \<Rightarrow> flows)"

definition malformed :: "flow_data \<Rightarrow> bool" where
  "malformed e \<longleftrightarrow> 1000000000 \<le> uint (nsec (start_time (fd_data e))) \<or> 1000000000 \<le> uint (nsec (end_time (fd_data e)))"

definition abort_cause :: "'w host \<Rightarrow> TimeAdjusterConfig \<Rightarrow> flow_data list \<Rightarrow> exn \<Rightarrow> bool" where
  "abort_cause host cfg flows ex \<longleftrightarrow> no_room host (refresh_burst_size cfg) ex \<or>
     refresh_burst_size cfg < 2 ^ 57 \<and>
       (ex = runtime_error ''clock_gettime failed during time calibration'' \<and> clock_unreadable host \<or>
        ex = invalid_argument ''SmartNIC timestamp nanoseconds are invalid'' \<and> (\<exists>e \<in> set flows. malformed e))"

lemma malformed_throws:
  assumes "adjuster_reach host srt cfg ta" "std_sort srt"
    and "make_batch (adjuster_toUnixNanoseconds ta) elapsed flows counters = Inl ex"
  shows "ex = invalid_argument ''SmartNIC timestamp nanoseconds are invalid'' \<and> (\<exists>e \<in> set flows. malformed e)"
proof -
  from assms(3) have "aggregate_flows (adjuster_toUnixNanoseconds ta) flows [] = Inl ex"
    by (auto simp: make_batch_def Let_def split: sum.splits if_splits)
  from aggregate_throws [OF this] show ?thesis
    unfolding adjuster_conversion [OF assms(1,2)] malformed_def by (auto split: if_splits)
qed

lemma abort_reasons:
  assumes "adjuster_reach (prog_host P) srt cfg (io_adjuster st)" "std_sort srt" "pipe_reach P st w s"
    and "io_tick (prog_host P) (io_st s) (io_world s) = Some (res, w')"
  shows "case res of Inl ex \<Rightarrow> abort_cause (prog_host P) cfg (flows_of_tick (prog_host P) (io_st s) (io_world s)) ex
    | Inr _ \<Rightarrow> refresh_burst_size cfg < 2 ^ 57"
proof -
  let ?ta = "io_adjuster (io_st s)"
  have reach: "adjuster_reach (prog_host P) srt cfg ?ta"
    using pipe_kept [OF assms(3)] assms(1) by (simp add: io_kept_def)
  have cfg: "ta_config ?ta = cfg" using adjuster_reach_inv [OF reach assms(2)] by (simp add: adjuster_inv_def)
  obtain flows counters reader u where
    rt: "read_tick (host_api (prog_host P)) (io_reader (io_st s)) (io_counterReader (io_st s))
      (tick_begins (prog_host P) (io_st s) (io_world s)) = Some ((flows, counters, reader), u)"
    using assms(4) by (auto simp: io_tick_def tick_begins_def Let_def split: prod.splits option.splits)
  then have fl: "flows_of_tick (prog_host P) (io_st s) (io_world s) = flows" by (simp add: flows_of_tick_def)
  obtain rr u' where rf: "refresh (prog_host P) ?ta u = Some (rr, u')"
    using assms(4) rt by (auto simp: io_tick_def tick_begins_def Let_def split: prod.splits option.splits)
  note ends = refresh_ends [OF rf, unfolded cfg]
  show ?thesis
  proof (cases rr)
    case (Inl ex)
    then have "res = Inl ex"
      using assms(4) rt rf by (auto simp: io_tick_def tick_begins_def Let_def split: prod.splits)
    with ends Inl show ?thesis by (auto simp: abort_cause_def clock_failure_def)
  next
    case (Inr x)
    obtain accepted ta where x: "x = (accepted, ta)" by (rule prod.exhaust)
    from reach rf have ta: "adjuster_reach (prog_host P) srt cfg ta"
      unfolding Inr x by (rule adjuster_refresh)
    have small: "refresh_burst_size cfg < 2 ^ 57" using ends Inr by simp
    show ?thesis
    proof (cases res)
      case (Inl ex)
      then obtain elapsed where "make_batch (adjuster_toUnixNanoseconds ta) elapsed flows counters = Inl ex"
        using assms(4) rt rf Inr x
        by (auto simp: io_tick_def tick_begins_def Let_def split: prod.splits sum.splits)
      from malformed_throws [OF ta assms(2) this] small Inl show ?thesis by (simp add: abort_cause_def fl)
    qed (use small in simp)
  qed
qed

text \<open>
  C10 (error). Once the clock is calibrated, a tick throws out of the I/O thread for three reasons only: there is no
  room for the samples of a refresh, a host clock cannot be read, or one of the flow records the tick has read carries nanoseconds
  that are not below a second. Room is missing in two ways: a configured burst of \<open>2 ^ 57\<close> samples or more is a length error,
  and then no tick ends otherwise; a smaller one throws only if the allocator refuses its bytes. In particular the clock never becomes
  uncalibrated, and no error of the SDK ends the program. (Other allocations are taken to succeed.)
\<close>

theorem abort_causes:
  assumes "adjuster_reach (prog_host P) srt cfg (io_adjuster st)" "std_sort srt" "pipe_reach P st w s"
    and "io_tick (prog_host P) (io_st s) (io_world s) = Some (res, w')"
  shows "case res of
      Inl ex \<Rightarrow> ex = length_error ''vector::reserve'' \<and> 2 ^ 57 \<le> refresh_burst_size cfg \<or>
        refresh_burst_size cfg < 2 ^ 57 \<and>
         (ex = bad_alloc \<and> 0 < refresh_burst_size cfg \<and>
            (\<exists>u. \<not> can_allocate (prog_host P) (64 * int (refresh_burst_size cfg)) u) \<or>
          ex = runtime_error ''clock_gettime failed during time calibration'' \<and> clock_unreadable (prog_host P) \<or>
          ex = invalid_argument ''SmartNIC timestamp nanoseconds are invalid'' \<and>
            (\<exists>e \<in> set (flows_of_tick (prog_host P) (io_st s) (io_world s)). malformed e))
    | Inr _ \<Rightarrow> refresh_burst_size cfg < 2 ^ 57"
  using abort_reasons [OF assms] unfolding abort_cause_def no_room_def by (auto split: sum.splits)

subsection \<open>Worked runs\<close>

theorem every_tick_exports_witness:
  "\<exists>(d :: ExportData) st w c. io_tick demo_io_host demo_io_state demo_tick_world = Some (Inr (Some d, st), w) \<and>
    map (\<lambda>p. length (agents (snd p))) (flowMap d) = [2] \<and> length (counterMap d) = 1 \<and>
    flows_exported (adjuster_toUnixNanoseconds (io_adjuster st))
      (map (flow_at demo_flow_reader c 1) (flow_slots demo_flow_reader c 1)) (flowMap d) \<and>
    counters_exported (map (counter_at demo_counter_reader c 1) (counter_slots demo_counter_reader c 1)) (counterMap d)"
proof -
  let ?s = "(pipe_init demo_io_state demo_tick_world)\<lparr> io_st := demo_io_state, io_world := demo_tick_world, nic_at := NicLoop \<rparr>"
  obtain d :: ExportData and st w where
    run: "io_tick demo_io_host demo_io_state demo_tick_world = Some (Inr (Some d, st), w)"
    and two: "map (\<lambda>p. length (agents (snd p))) (flowMap d) = [2]" "length (counterMap d) = 1"
    using demo_io_run by (auto split: option.splits sum.splits prod.splits)
  then have tick: "io_tick (prog_host demo_program) (io_st ?s) (io_world ?s) = Some (Inr (Some d, st), w)"
    by (simp add: demo_program_def)
  have fw: "nfp_firmware (host_api (prog_host demo_program)) mem_dev mem_place (runs busy_firmware)
      (sta_word demo_flow_reader) (pro_word demo_flow_reader) (tick_bank demo_flow_reader demo_counter_reader)"
    using busy_tick_firmware by (simp add: demo_program_def demo_io_host_def)
  have w1: "demo_tick_world = tick_begins (prog_host demo_program) (io_st ?s) (io_world ?s)"
    and rd: "demo_flow_reader = io_reader demo_io_state" "demo_counter_reader = io_counterReader demo_io_state"
    by (simp_all add: demo_program_def demo_io_host_def demo_io_state_def tick_begins_def)
  have act: "1 = active_bank demo_flow_reader (fst (mem_dev demo_tick_world))" by code_simp
  from every_tick_exports [OF fw entered [OF demo_enter] tick w1 rd demo_flow_facts(1,2) demo_counter_facts(1-3) act demo_tick_apart]
    run two show ?thesis by (auto simp: Let_def)
qed

text \<open>A text for every JSON value: as many letters as its number in an enumeration.\<close>

instance json :: countable
  by countable_datatype

definition demo_dump :: "json \<Rightarrow> string" where
  "demo_dump j = replicate (to_nat j) CHR ''x''"

definition demo_parse :: "string \<Rightarrow> json option" where
  "demo_parse t = Some (from_nat (length t))"

lemma demo_readable: "readable_dump demo_dump demo_parse"
  by (simp add: readable_dump_def demo_dump_def demo_parse_def)

theorem collector_receives_witness:
  "\<exists>s (d :: ExportData). pipe_reach (demo_program\<lparr> prog_dump := demo_dump \<rparr>) demo_io_state demo_tick_world s \<and>
    length (flowMap d) = 1 \<and> flows_read demo_parse (wire s) = map flow_sent (flowMap d)"
proof -
  let ?P = "demo_program\<lparr> prog_dump := demo_dump \<rparr>"
  obtain d st w where tick: "io_tick (prog_host ?P) demo_io_state demo_tick_world = Some (Inr (Some d, st), w)"
    and d: "length (flowMap d) = 1"
    using demo_io_tick by (auto simp: demo_program_def)
  have "io_enter (prog_host ?P) demo_io_state demo_tick_world = (demo_io_state, demo_tick_world)"
    using demo_enter by simp
  from sent_batch [OF this tick] obtain s where s: "pipe_reach ?P demo_io_state demo_tick_world s" "main_at s = MainDone"
    "tx_at s = TxDone" and t: "taken s = [d]" by blast
  have "readable_dump (prog_dump ?P) demo_parse" using demo_readable by simp
  from collector_receives [OF s this] t have "flows_read demo_parse (wire s) = map flow_sent (flowMap d)" by simp
  with s(1) d show ?thesis by blast
qed

text \<open>The clocks of the worked host can always be read, and it has room for a burst.\<close>

lemma demo_room:
  "\<not> clock_unreadable demo_host" "can_allocate demo_host (64 * int (refresh_burst_size demo_config)) u"
  "refresh_burst_size demo_config < 2 ^ 57"
  by (simp_all add: clock_unreadable_def demo_host_def demo_config_def default_adjuster_config_def)

text \<open>A tick that is due, whose only flow record ends in a time stamp with a full second of nanoseconds.\<close>

definition demo_bad_reader :: SmartNicReader where
  "demo_bad_reader = new_SmartNicReader demo_api (Some 0) 0 0 0 0 0 0 0 0 0 0 0 0 0 0 0 0 1"

definition demo_bad_state :: io_state where
  "demo_bad_state = \<lparr> io_reader = demo_bad_reader, io_counterReader = new_CounterReader demo_api None 0 0 0 0 0 0 0 0 0 0 0 0 1,
     io_adjuster = demo_adjuster, io_period = 1000000000, nextTick = - 1000000000, driftCalibrationReported = False \<rparr>"

definition demo_bad_world :: demo_world where
  "demo_bad_world = (1499999, [[0, 0, 0, 0], [0, 0, 0, 0], [3, 0, 0, 0], replicate 32 0,
     replicate 28 0 @ [0, 202, 154, 59], demo_state 30, demo_state 33, demo_state 36])"

lemma demo_bad_read:
  "(case readFlowData demo_api demo_bad_reader (snd (steady_now demo_host demo_bad_world)) of
     Some ((es, r), w) \<Rightarrow> w = demo_later \<and> map (\<lambda>e. nsec (end_time (fd_data e))) es = [1000000000] | None \<Rightarrow> False)"
  by code_simp

lemma demo_bad_tick: "\<exists>ex w. io_tick demo_host demo_bad_state demo_bad_world = Some (Inl ex, w)"
proof -
  obtain es r where rd: "readFlowData demo_api demo_bad_reader (snd (steady_now demo_host demo_bad_world)) =
      Some ((es, r), demo_later)" and es: "map (\<lambda>e. nsec (end_time (fd_data e))) es = [1000000000]"
    using demo_bad_read by (auto split: option.splits)
  obtain ta w where rf: "refresh demo_host demo_adjuster demo_later = Some (Inr (True, ta), w)"
    using demo_refresh_ok by blast
  obtain e where "es = [e]" "nsec (end_time (fd_data e)) = 1000000000" using es by (auto simp: map_eq_Cons_conv)
  then have "\<not> list_all (converts (adjuster_toUnixNanoseconds ta)) es"
    using adjuster_converts [OF adjuster_refresh [OF demo_reach rf] stable.std_sort_axioms, of e] by simp
  then obtain ex where "aggregate_flows (adjuster_toUnixNanoseconds ta) es [] = Inl ex"
    using aggregate_flows_throws by blast
  then have mb: "make_batch (adjuster_toUnixNanoseconds ta) el es [] = Inl ex" for el
    by (simp add: make_batch_def)
  have "read_tick (host_api demo_host) (io_reader demo_bad_state) (io_counterReader demo_bad_state)
      (snd (steady_now demo_host demo_bad_world)) = Some ((es, [], r), demo_later)"
    using rd by (simp add: read_tick_def demo_bad_state_def readCounterData_def new_CounterReader_def Let_def demo_host_def)
  moreover have "io_adjuster demo_bad_state = demo_adjuster" by (simp add: demo_bad_state_def)
  moreover have "sleep_until demo_host (s64 (nextTick demo_bad_state + io_period demo_bad_state)) demo_bad_world = demo_bad_world"
    by (simp add: demo_host_def demo_bad_state_def demo_bad_world_def demo_wait_def s64_id)
  ultimately show ?thesis
    using rf mb by (auto simp: io_tick_def Let_def split: prod.splits)
qed

theorem abort_causes_witness:
  "\<exists>w. io_tick demo_host demo_bad_state demo_bad_world =
      Some (Inl (invalid_argument ''SmartNIC timestamp nanoseconds are invalid''), w) \<and>
    (\<exists>e \<in> set (flows_of_tick demo_host demo_bad_state demo_bad_world). malformed e)"
proof -
  let ?s = "pipe_init demo_bad_state demo_bad_world"
  obtain ex w where run: "io_tick demo_host demo_bad_state demo_bad_world = Some (Inl ex, w)"
    using demo_bad_tick by blast
  then have tick: "io_tick (prog_host demo_clock_program) (io_st ?s) (io_world ?s) = Some (Inl ex, w)"
    by (simp add: demo_clock_program_def pipe_init_def)
  have host: "prog_host demo_clock_program = demo_host" by (simp add: demo_clock_program_def)
  have "adjuster_reach (prog_host demo_clock_program) (\<lambda>k xs. sort_key k xs) demo_config (io_adjuster demo_bad_state)"
    using demo_reach by (simp add: host demo_bad_state_def)
  from abort_causes [OF this stable.std_sort_axioms reach_init tick] have
    "ex = invalid_argument ''SmartNIC timestamp nanoseconds are invalid'' \<and>
      (\<exists>e \<in> set (flows_of_tick demo_host demo_bad_state demo_bad_world). malformed e)"
    using demo_room by (auto simp: host pipe_init_def)
  with run show ?thesis by auto
qed

end
