(* ===== verification/Logging.thy ===== *)
theory Logging
  imports Prelude
begin

text \<open>
  \<^verbatim>\<open>configureLogging\<close> (\<^verbatim>\<open>src/main.cpp\<close>): the format of the log, and a second sink that writes to a file which
  is rotated. The file system and the logging library are parameters. Log lines themselves are not modelled.
\<close>

datatype level = Info | Warn | Error | Critical

record log_sink =
  sink_file :: "string option"
  sink_pattern :: string
  sink_max_size :: nat
  sink_max_files :: nat

record logger =
  sinks :: "log_sink list"
  flush_on :: level
  log_errors :: "string list"

text \<open>Both calls may throw, with a message.\<close>

record 'w log_api =
  create_directories :: "string \<Rightarrow> 'w \<Rightarrow> string option \<times> 'w"
  rotating_file_sink :: "string \<Rightarrow> nat \<Rightarrow> nat \<Rightarrow> 'w \<Rightarrow> (string + log_sink) \<times> 'w"

definition kMaxLogFileSize :: nat where "kMaxLogFileSize = 10 * 1024 * 1024"

definition kMaxRotatedLogFiles :: nat where "kMaxRotatedLogFiles = 1"

definition kLogFile :: string where "kLogFile = ''logs/sflow_middle.log''"

definition kLogPattern :: string where "kLogPattern = ''[%Y-%m-%d %H:%M:%S.%e] [%^%l%$] %v''"

definition configureLogging :: "'w log_api \<Rightarrow> logger \<Rightarrow> 'w \<Rightarrow> logger \<times> 'w" where
  "configureLogging api lg w =
    (let lg = lg\<lparr> sinks := map (\<lambda>s. s\<lparr> sink_pattern := kLogPattern \<rparr>) (sinks lg), flush_on := Warn \<rparr>;
         failed = (\<lambda>what. lg\<lparr> log_errors := log_errors lg @
           [''Failed to configure rotating log file '' @ CHR 0x27 # kLogFile @ CHR 0x27 # '': '' @ what] \<rparr>)
     in case create_directories api ''logs'' w of
          (Some what, w) \<Rightarrow> (failed what, w)
        | (None, w) \<Rightarrow>
       (case rotating_file_sink api kLogFile kMaxLogFileSize kMaxRotatedLogFiles w of
          (Inl what, w) \<Rightarrow> (failed what, w)
        | (Inr fileSink, w) \<Rightarrow>
            (lg\<lparr> sinks := sinks lg @ [fileSink\<lparr> sink_pattern := kLogPattern \<rparr>] \<rparr>, w)))"

text \<open>
  Whatever fails, the sinks there were stay in place and in order, every sink has the one format, and a
  message says that the file is missing exactly when it is.
\<close>

lemma configureLogging_sinks:
  assumes "configureLogging api lg w = (lg', w')"
  shows "map sink_file (take (length (sinks lg)) (sinks lg')) = map sink_file (sinks lg) \<and>
    (\<forall>s \<in> set (sinks lg'). sink_pattern s = kLogPattern) \<and> flush_on lg' = Warn \<and>
    (length (sinks lg') = Suc (length (sinks lg)) \<longleftrightarrow> log_errors lg' = log_errors lg) \<and>
    (length (sinks lg') = length (sinks lg) \<longleftrightarrow> log_errors lg' \<noteq> log_errors lg)"
  using assms by (auto simp: configureLogging_def Let_def comp_def split: prod.splits option.splits sum.splits)

end
