(* ===== verification/Main_Program.thy ===== *)
theory Main_Program
  imports End_To_End Logging
begin

text \<open>
  \<^verbatim>\<open>main\<close> (\<^verbatim>\<open>src/main.cpp\<close>) from its arguments to its end: logging, signals, settings, start-up, the threads and
  their join. What it is given by its surroundings is one record; how it ends is a relation, since the
  threads can be interleaved in many ways.
\<close>

record ('w, 'n) surroundings =
  env_platform :: "'w platform"
  env_log :: "'w log_api"
  env_yaml :: "'n yaml_api"
  env_LoadFile :: "string \<Rightarrow> 'n document option"
  env_sort :: "TimeSample sorter"
  env_dump :: "json \<Rightarrow> string"
  env_spurious :: bool
  env_grace :: bool

definition env_settings :: "('w, 'n) surroundings \<Rightarrow> string list \<Rightarrow> settings" where
  "env_settings env args = main_settings (env_yaml env) (env_LoadFile env) args"

definition env_program :: "('w, 'n) surroundings \<Rightarrow> string list \<Rightarrow> 'w program" where
  "env_program env args = main_program (env_platform env) (env_dump env) (env_settings env args)
     (env_spurious env) (env_grace env)"

text \<open>Up to the start of the threads; \<open>args\<close> are the arguments after the name of the program.\<close>

definition main_boot ::
  "('w, 'n) surroundings \<Rightarrow> string list \<Rightarrow> logger \<Rightarrow> 'w \<Rightarrow> ((int + io_state) \<times> logger \<times> 'w) option" where
  "main_boot env args lg w =
    (case configureLogging (env_log env) lg w of (lg, w) \<Rightarrow>
     map_option (\<lambda>(res, w). (res, lg, w))
       (main_start (env_platform env) (env_sort env) (env_settings env args) w))"

text \<open>The ways \<^verbatim>\<open>main\<close> can end, and what it has sent by then.\<close>

datatype program_end = Returned int | Terminated exn

inductive main_ends ::
  "('w, 'n) surroundings \<Rightarrow> string list \<Rightarrow> logger \<Rightarrow> 'w \<Rightarrow> program_end \<Rightarrow> string list \<Rightarrow> bool"
  for env args lg w where
  ends_early: "main_boot env args lg w = Some (Inl code, lg', w') \<Longrightarrow> main_ends env args lg w (Returned code) []"
| ends_joined: "main_boot env args lg w = Some (Inr st, lg', w') \<Longrightarrow> pipe_reach (env_program env args) st w' s \<Longrightarrow>
    main_at s = MainDone \<Longrightarrow> main_ends env args lg w (Returned 0) (wire s)"
| ends_thrown: "main_boot env args lg w = Some (Inr st, lg', w') \<Longrightarrow> pipe_reach (env_program env args) st w' s \<Longrightarrow>
    \<not> aborted s \<Longrightarrow> nic_at s = NicTick \<Longrightarrow>
    io_tick (pf_host (env_platform env)) (io_st s) (io_world s) = Some (Inl ex, w'') \<Longrightarrow>
    main_ends env args lg w (Terminated ex) (wire s)"

subsection \<open>What a run of the program can do\<close>

text \<open>Batches that ticks have made, and the datagrams of such batches.\<close>

definition tick_batch :: "'w program \<Rightarrow> ExportData \<Rightarrow> bool" where
  "tick_batch P d \<longleftrightarrow> (flowMap d \<noteq> [] \<or> counterMap d \<noteq> []) \<and>
     (\<exists>st w st' w'. io_tick (prog_host P) st w = Some (Inr (Some d, st'), w'))"

definition sent_whole :: "'w program \<Rightarrow> string list \<Rightarrow> bool" where
  "sent_whole P texts \<longleftrightarrow> (\<exists>ds. (\<forall>d \<in> set ds. tick_batch P d) \<and> texts = concat (map (batch_texts P) ds))"

definition sent_partly :: "'w program \<Rightarrow> string list \<Rightarrow> bool" where
  "sent_partly P texts \<longleftrightarrow> (\<exists>rest. sent_whole P (texts @ rest))"

definition well_typed_text :: "'w program \<Rightarrow> string \<Rightarrow> bool" where
  "well_typed_text P text \<longleftrightarrow> (\<exists>j. text = prog_dump P j \<and> (has_type j flow_type \<or> has_type j counter_type))"

lemma tick_makes: "io_tick (prog_host P) st w = Some (Inr (Some d, st'), w') \<Longrightarrow> tick_batch P d"
  unfolding tick_batch_def
  by (intro conjI exI)
    (auto simp: io_tick_def make_batch_def Let_def split: prod.splits option.splits sum.splits if_splits)

lemma taken_made:
  assumes "pipe_reach P st w s"
  shows "\<forall>d \<in> set (taken s). tick_batch P d"
proof -
  have "\<forall>d \<in> set (pushed s). tick_batch P d"
    by (rule pushed_batches [where G = "tick_batch P", OF _ assms, THEN conjunct1]) (rule tick_makes)
  moreover have "pushed s = taken s @ shared_queue s" using reach_invs [OF assms] by (simp add: flow_inv_def)
  ultimately show ?thesis by simp
qed

lemma reach_sent_partly:
  assumes "pipe_reach P st w s"
  shows "sent_partly P (wire s)"
proof -
  have "wire s @ posted s @ concat (map (batch_texts P) (in_hand s)) = concat (map (batch_texts P) (taken s))"
    using reach_invs [OF assms] by (simp add: flow_inv_def)
  with taken_made [OF assms] show ?thesis unfolding sent_partly_def sent_whole_def by blast
qed

lemma done_sent_whole:
  assumes "pipe_reach P st w s" "main_at s = MainDone"
  shows "sent_whole P (wire s)"
proof (cases "wire s = []")
  case True
  then show ?thesis unfolding sent_whole_def by (intro exI [of _ "[]"]) simp
next
  case False
  with done_delivered [OF assms] have "wire s = concat (map (batch_texts P) (taken s))" by auto
  with taken_made [OF assms(1)] show ?thesis unfolding sent_whole_def by blast
qed

lemma booted:
  assumes "main_boot env args lg w = Some (Inr st, lg', w')" "std_sort (env_sort env)"
  shows "adjuster_reach (prog_host (env_program env args)) (env_sort env) (timeConfig (env_settings env args)) (io_adjuster st)"
proof -
  obtain u where "main_start (env_platform env) (env_sort env) (env_settings env args) u = Some (Inr st, w')"
    using assms(1) by (auto simp: main_boot_def split: prod.splits)
  from main_start_facts [OF this assms(2)] show ?thesis by (simp add: env_program_def main_program_def)
qed

text \<open>
  C9 (safety). However \<^verbatim>\<open>main\<close> is started and its threads are interleaved, it ends in one of three ways. It
  returns 1 before any thread was started and sends nothing. It returns 0, and what it has sent are all the
  datagrams of some batches that ticks have made, none of them empty, with no batch cut off. Or an exception terminates it, and then
  the datagrams sent may break off within a batch: a configured refresh burst that is longer than any vector, or for whose
  bytes the allocator has no room, a host clock that could not be read, or a malformed time stamp. In each case every
  datagram is the text of a well-typed flow or counter. (Other allocations are taken to succeed.)
\<close>

theorem main_outcome:
  assumes "main_ends env args lg w e texts" "std_sort (env_sort env)"
    and "n = refresh_burst_size (timeConfig (env_settings env args))" "host = pf_host (env_platform env)"
  shows "(case e of
      Returned code \<Rightarrow> code = 1 \<and> texts = [] \<or> code = 0 \<and> sent_whole (env_program env args) texts
    | Terminated ex \<Rightarrow> sent_partly (env_program env args) texts \<and>
        (ex = length_error ''vector::reserve'' \<and> 2 ^ 57 \<le> n \<or>
         ex = bad_alloc \<and> 0 < n \<and> n < 2 ^ 57 \<and> (\<exists>u. \<not> can_allocate host (64 * int n) u) \<or>
         ex = runtime_error ''clock_gettime failed during time calibration'' \<and> clock_unreadable host \<or>
         ex = invalid_argument ''SmartNIC timestamp nanoseconds are invalid'')) \<and>
    (\<forall>text \<in> set texts. well_typed_text (env_program env args) text)"
  using assms(1)
proof cases
  case (ends_early code lg' w')
  then obtain u where "main_start (env_platform env) (env_sort env) (env_settings env args) u = Some (Inl code, w')"
    by (auto simp: main_boot_def split: prod.splits)
  from main_start_facts [OF this assms(2)] ends_early show ?thesis by simp
next
  case (ends_joined st lg' w' s)
  then show ?thesis using done_sent_whole wire_types by (fastforce simp: well_typed_text_def)
next
  case (ends_thrown st lg' w' s ex w'')
  have host: "prog_host (env_program env args) = host" by (simp add: env_program_def main_program_def assms(4))
  then have "io_tick (prog_host (env_program env args)) (io_st s) (io_world s) = Some (Inl ex, w'')"
    using ends_thrown(7) by (simp add: assms(4))
  from abort_reasons [OF booted [OF ends_thrown(3) assms(2)] assms(2) ends_thrown(4) this]
  have "no_room host n ex \<or> ex = runtime_error ''clock_gettime failed during time calibration'' \<and> clock_unreadable host \<or>
      ex = invalid_argument ''SmartNIC timestamp nanoseconds are invalid''"
    by (auto simp: abort_cause_def host assms(3))
  then show ?thesis
    using ends_thrown reach_sent_partly wire_types by (fastforce simp: well_typed_text_def no_room_def)
qed

subsection \<open>A worked run\<close>

text \<open>
  What the SmartNIC returns to one tick on the worked host: a flow record and a counter in the first of the slots, all their bytes zero.
\<close>

definition slot_image :: "nat \<Rightarrow> u8 list" where
  "slot_image n = [3, 0, 0, 0] @ replicate (4 * n) 0"

lemma le_nat_zeros: "le_nat (replicate k 0) = 0"
  by (induction k) simp_all

lemma slot_image_ready: "ready_slots (Suc n) (slot_image n) = [0]"
proof -
  have "readLe32 (slot_image n) (i * 4) = 0" if i: "0 < i" for i
  proof -
    obtain j where j: "i * 4 = 4 + j" using i that by (cases i) simp_all
    have "drop (i * 4) (slot_image n) = replicate (4 * n - j) 0"
      by (simp add: slot_image_def j drop_Cons' add.commute)
    then show ?thesis by (simp add: readLe32_def le_field_def le_nat_zeros)
  qed
  moreover have "readLe32 (slot_image n) 0 = 3"
    by (simp add: readLe32_def le_field_def slot_image_def)
  ultimately show ?thesis
    by (simp add: ready_slots_def kSemDataReady_def upt_conv_Cons filter_empty_conv del: upt_Suc)
qed

lemma slot_image_length: "length (slot_image n) = 4 * Suc n"
  by (simp add: slot_image_def)

lemma demo_open: "open_area demo_api cpp i ad n (t, outs) = (Some 0, (t + 100000, outs))"
  by (simp add: open_area_def demo_api_def demo_wait_def)

lemma demo_exact: "length raw = n \<Longrightarrow> n < 2 ^ 31 \<Longrightarrow>
    read_exact demo_api a off n (t, raw # rest) = (Some raw, (t, rest))"
  by (simp add: read_exact_def demo_api_def demo_read_def s32_id)

lemma demo_calls:
  "area_write demo_api a off bs w = (int (length bs), w)" "area_fill demo_api a off v n w = (0, w)"
  "area_release_free demo_api a w = w" "sleep_ms demo_api ms w = w"
  by (simp_all add: demo_api_def)

lemma zero_word: "readLe32 [0, 0, 0, 0] 0 = 0"
  by code_simp

lemma demo_idle: "await_idle demo_api a off (t, [0, 0, 0, 0] # rest) = Some (True, (t, rest))"
  by (subst await_idle.simps) (simp add: demo_exact zero_word)

lemma demo_quiescent:
  "wait_quiescent demo_api cpp i ad b (t, [0, 0, 0, 0] # rest) = Some (True, (t + 100000, rest))"
  by (simp add: wait_quiescent_def demo_open demo_idle demo_calls)

lemma demo_semaphores:
  "4 * Suc n < 2 ^ 31 \<Longrightarrow> open_semaphores demo_api cpp i ad (Suc n) (4 * Suc n) (t, slot_image n # rest) =
    (Some (0, [0]), (t + 100000, rest))"
  by (simp add: open_semaphores_def demo_open demo_exact slot_image_length slot_image_ready del: mult_Suc_right)

lemma demo_flow_entry:
  "length k = 32 \<Longrightarrow> length d = 32 \<Longrightarrow> read_flow_entry demo_api ka da i (t, k # d # rest) =
    (Some \<lparr> fd_key = decode_flow_key k, fd_data = decode_flow_data d, fd_index = of_nat i \<rparr>, (t, rest))"
  by (simp add: read_flow_entry_def demo_exact sizeof_stored_flow_key_def sizeof_stored_flow_data_def)

lemma demo_counter_entry:
  "length d = 32 \<Longrightarrow> read_counter_entry demo_api da i (t, d # rest) =
    (Some \<lparr> cd_data = decode_counter d, cd_index = of_nat i \<rparr>, (t, rest))"
  by (simp add: read_counter_entry_def demo_exact sizeof_stored_counter_def)

lemma demo_flows_read:
  assumes "sr_cpp r = Some cpp" "sr_slotCount r = Suc n" "sr_semSize r = 4 * Suc n" "4 * Suc n < 2 ^ 31"
    and "length k = 32" "length d = 32"
  shows "\<exists>r' t'. readFlowData demo_api r (t, [0, 0, 0, 0] # [0, 0, 0, 0] # slot_image n # k # d # rest) =
    Some (([\<lparr> fd_key = decode_flow_key k, fd_data = decode_flow_data d, fd_index = 0 \<rparr>], r'), (t', rest))"
  using assms(1-3)
  by (simp add: readFlowData_def switch_bank_def demo_open demo_exact demo_calls zero_word Let_def demo_quiescent
      demo_semaphores [OF assms(4)] drain_flow_bank_def drain_flow_slots_def demo_flow_entry assms(5,6)
      del: mult_Suc_right)

lemma demo_counters_read:
  assumes "cr_cpp r = Some cpp" "cr_slotCount r = Suc n" "cr_semSize r = 4 * Suc n" "4 * Suc n < 2 ^ 31"
    and "length d = 32"
  shows "\<exists>t'. readCounterData demo_api r (t, [0, 0, 0, 0] # [0, 0, 0, 0] # slot_image n # d # rest) =
    Some ([\<lparr> cd_data = decode_counter d, cd_index = 0 \<rparr>], (t', rest))"
  using assms(1-3)
  by (simp add: readCounterData_def retired_bank_def demo_open demo_exact demo_calls zero_word Let_def demo_quiescent
      demo_semaphores [OF assms(4)] drain_counter_bank_def drain_counter_slots_def demo_counter_entry assms(5)
      del: mult_Suc_right)


definition demo_tick_script :: "u8 list list" where
  "demo_tick_script = [[0, 0, 0, 0], [0, 0, 0, 0], slot_image 19999, replicate 32 0, replicate 32 0,
     [0, 0, 0, 0], [0, 0, 0, 0], slot_image 2047, replicate 32 0]"

lemma demo_refresh_ends:
  assumes "adjuster_reach demo_host srt demo_config ta" "std_sort srt"
  shows "\<exists>b ta' w'. refresh demo_host ta w = Some (Inr (b, ta'), w')"
proof -
  have cfg: "ta_config ta = demo_config" using adjuster_reach_inv [OF assms] by (simp add: adjuster_inv_def)
  obtain res w' where rf: "refresh demo_host ta w = Some (res, w')"
    using refresh_returns [OF demo_timed] by fastforce
  from refresh_ends [OF rf] obtain p where "res = Inr p"
    using demo_room by (cases res) (auto simp: cfg no_room_def)
  with rf show ?thesis by (cases p) simp
qed

lemma demo_full_tick:
  assumes "adjuster_reach demo_host srt demo_config (io_adjuster st)" "std_sort srt"
    and "sr_cpp (io_reader st) = Some cpp" "sr_slotCount (io_reader st) = 20000" "sr_semSize (io_reader st) = 80000"
    and "cr_cpp (io_counterReader st) = Some cpp" "cr_slotCount (io_counterReader st) = 2048"
      "cr_semSize (io_counterReader st) = 8192"
  shows "\<exists>d st' w'. io_tick demo_host st (t, demo_tick_script) = Some (Inr (Some d, st'), w') \<and>
    length (flowMap d) = 1 \<and> length (counterMap d) = 1"
proof -
  have "snd (sleep_until demo_host u (t, demo_tick_script)) = demo_tick_script" for u
    by (simp add: demo_host_def demo_wait_def)
  then obtain t1 where wake: "sleep_until demo_host (s64 (nextTick st + io_period st)) (t, demo_tick_script) = (t1, demo_tick_script)"
    by (metis prod.collapse)
  define e where "e = \<lparr> fd_key = decode_flow_key (replicate 32 0), fd_data = decode_flow_data (replicate 32 0), fd_index = 0 \<rparr>"
  define x where "x = \<lparr> cd_data = decode_counter (replicate 32 0), cd_index = 0 \<rparr>"
  have suc: "sr_slotCount (io_reader st) = Suc 19999" "sr_semSize (io_reader st) = 4 * Suc 19999"
    "cr_slotCount (io_counterReader st) = Suc 2047" "cr_semSize (io_counterReader st) = 4 * Suc 2047"
    "4 * Suc 19999 < 2 ^ 31" "4 * Suc 2047 < 2 ^ 31" "length (replicate 32 (0 :: u8)) = 32"
    using assms(4,5,7,8) by simp_all
  obtain r' t2 where fr: "readFlowData demo_api (io_reader st) (t1 + 1, demo_tick_script) =
      Some (([e], r'), (t2, drop 5 demo_tick_script))"
    using demo_flows_read [OF assms(3) suc(1,2,5,7,7)] unfolding e_def demo_tick_script_def by fastforce
  obtain t3 where cr: "readCounterData demo_api (io_counterReader st) (t2, drop 5 demo_tick_script) = Some ([x], (t3, []))"
    using demo_counters_read [OF assms(6) suc(3,4,6,7), of t2 "[]"] unfolding x_def demo_tick_script_def
    by fastforce
  from fr cr have rt: "read_tick (host_api demo_host) (io_reader st) (io_counterReader st) (t1 + 1, demo_tick_script) =
      Some (([e], [x], r'), (t3, []))"
    by (simp add: read_tick_def demo_host_def)
  obtain b ta w3 where rf: "refresh demo_host (io_adjuster st) (t3, []) = Some (Inr (b, ta), w3)"
    using demo_refresh_ends [OF assms(1,2)] by blast
  have "nsec (start_time (fd_data e)) = 0" "nsec (end_time (fd_data e)) = 0"
    unfolding e_def flow_data.simps by code_simp+
  with adjuster_converts [OF adjuster_refresh [OF assms(1) rf] assms(2), of e]
  have "converts (adjuster_toUnixNanoseconds ta) e" by simp
  then have mb: "\<exists>d. make_batch (adjuster_toUnixNanoseconds ta) el [e] [x] = Inr (Some d) \<and>
      length (flowMap d) = 1 \<and> length (counterMap d) = 1" for el
    by (simp add: make_batch_def add_flow_converts aggregate_counters_def Let_def)
  have now: "steady_now demo_host w = (fst w, demo_wait 1 w)" for w by (simp add: demo_host_def)
  obtain d where d: "make_batch (adjuster_toUnixNanoseconds ta) (elapsed_seconds t1 (fst w3)) [e] [x] = Inr (Some d)"
    "length (flowMap d) = 1" "length (counterMap d) = 1" using mb by blast
  have "demo_wait 1 (t1, demo_tick_script) = (t1 + 1, demo_tick_script)" by (simp add: demo_wait_def)
  with d show ?thesis
    by (intro exI) (simp add: io_tick_def Let_def wake now rt rf del: split_paired_Ex)
qed

lemma demo_new:
  "\<exists>ta t. new_TimeAdjuster demo_host (\<lambda>k xs. sort_key k xs) (Some 0) (Some demo_symbol) demo_config
    (0, map demo_state [0, 3, 6, 9, 12, 15] @ rest) = Some (Inr ta, (t, rest))"
proof -
  let ?new = "new_TimeAdjuster demo_host (\<lambda>k xs. sort_key k xs) (Some 0) (Some demo_symbol) demo_config
    (0, demo_state 0 # demo_state 3 # demo_state 6 # demo_state 9 # demo_state 12 # demo_state 15 # rest)"
  have "case ?new of Some (Inr ta, w) \<Rightarrow> snd w = rest | _ \<Rightarrow> False" by code_simp
  moreover then obtain p where "?new = Some p" by (cases ?new) simp_all
  moreover obtain res t outs where "p = (res, (t, outs))" by (cases p) auto
  ultimately show ?thesis by (cases res) simp_all
qed

subsection \<open>The run of the program\<close>

text \<open>
  The worked platform and a file with three settings. The clock is calibrated, one tick exports its batch, the batch is sent,
  and a signal stops the program.
\<close>

definition demo_yaml :: "nat yaml_api" where
  "demo_yaml = \<lparr> as_bool = (\<lambda>_. None), as_unsigned = (\<lambda>_. None), as_int = (\<lambda>_. None), as_string = (\<lambda>_. None),
     as_uint16 = (\<lambda>_. None), as_size = Some, as_int64 = (\<lambda>n. Some (int n)), as_double = (\<lambda>_. None) \<rparr>"

definition demo_document :: "nat document" where
  "demo_document key = (if key = ''startup_sample_count'' then Defined 5
     else if key = ''calibration_refresh_burst_size'' then Defined 2
     else if key = ''startup_poll_interval_us'' then Defined 100 else Undefined)"

definition demo_surroundings :: "(demo_world, nat) surroundings" where
  "demo_surroundings = \<lparr> env_platform = demo_platform,
     env_log = \<lparr> create_directories = (\<lambda>_ w. (None, w)), rotating_file_sink = (\<lambda>_ _ _ w. (Inl ''no space left'', w)) \<rparr>,
     env_yaml = demo_yaml, env_LoadFile = (\<lambda>name. if name = ''setting.yaml'' then Some demo_document else None),
     env_sort = (\<lambda>k xs. sort_key k xs), env_dump = demo_dump, env_spurious = False, env_grace = True \<rparr>"

definition console :: logger where
  "console = \<lparr> sinks = [\<lparr> sink_file = None, sink_pattern = [], sink_max_size = 0, sink_max_files = 0 \<rparr>],
     flush_on = Error, log_errors = [] \<rparr>"

definition demo_power_on :: demo_world where
  "demo_power_on = (0, map demo_state [0, 3, 6, 9, 12, 15] @ demo_tick_script)"

lemma demo_env_settings: "env_settings demo_surroundings [] = demo_settings"
  by (simp add: env_settings_def demo_surroundings_def main_settings_def setting_steps_def demo_document_def
      assign_def in_time_def demo_yaml_def demo_settings_def demo_config_def default_settings_def)

lemma demo_calls_pure:
  "\<exists>signals. setupShutdownSignals (pf_signals demo_platform) w = (Some signals, w)"
  "new_NFPDevice (pf_devices demo_platform) 0 w = (Inr demo_device, w)"
proof -
  have "setupShutdownSignals (pf_signals demo_platform) w = (Some [SIGINT, SIGTERM, SIGHUP], w)" by code_simp
  then show "\<exists>signals. setupShutdownSignals (pf_signals demo_platform) w = (Some signals, w)" by blast
  show "new_NFPDevice (pf_devices demo_platform) 0 w = (Inr demo_device, w)" by code_simp
qed

lemma demo_started:
  "\<exists>ta t. main_start demo_platform (\<lambda>k xs. sort_key k xs) demo_settings demo_power_on =
    Some (Inr \<lparr> io_reader = main_flow_reader demo_api (Some 0) demo_symbols,
      io_counterReader = main_counter_reader demo_api (Some 0) demo_symbols,
      io_adjuster = ta, io_period = 1000000000, nextTick = 0, driftCalibrationReported = False \<rparr>, (t, demo_tick_script))"
proof -
  obtain signals where sg: "setupShutdownSignals (pf_signals demo_platform) demo_power_on = (Some signals, demo_power_on)"
    using demo_calls_pure(1) by blast
  obtain ta t where "new_TimeAdjuster demo_host (\<lambda>k xs. sort_key k xs) (Some 0) (Some demo_symbol) demo_config
      demo_power_on = Some (Inr ta, (t, demo_tick_script))"
    using demo_new [of demo_tick_script] unfolding demo_power_on_def by blast
  then have "new_TimeAdjuster (pf_host demo_platform) (\<lambda>k xs. sort_key k xs) (nfp_cpp_handle demo_device)
      (Some (demo_symbols ! 12)) (timeConfig demo_settings) demo_power_on = Some (Inr ta, (t, demo_tick_script))"
    by (simp add: demo_stages(5) demo_platform_def demo_settings_def demo_device_def)
  then show ?thesis
    using demo_calls_pure(2) demo_stages(4) sg
    by (intro exI [of _ ta] exI [of _ t])
      (simp add: main_start_def demo_settings_def default_settings_def demo_device_def demo_platform_def demo_host_def)
qed

lemma demo_booted:
  "\<exists>st lg' t. main_boot demo_surroundings [] console demo_power_on = Some (Inr st, lg', (t, demo_tick_script)) \<and>
    sr_cpp (io_reader st) = Some 0 \<and> sr_slotCount (io_reader st) = 20000 \<and> sr_semSize (io_reader st) = 80000 \<and>
    cr_cpp (io_counterReader st) = Some 0 \<and> cr_slotCount (io_counterReader st) = 2048 \<and>
    cr_semSize (io_counterReader st) = 8192"
proof -
  obtain ta t where s: "main_start demo_platform (\<lambda>k xs. sort_key k xs) demo_settings demo_power_on =
    Some (Inr \<lparr> io_reader = main_flow_reader demo_api (Some 0) demo_symbols,
      io_counterReader = main_counter_reader demo_api (Some 0) demo_symbols,
      io_adjuster = ta, io_period = 1000000000, nextTick = 0, driftCalibrationReported = False \<rparr>, (t, demo_tick_script))"
    using demo_started by blast
  obtain lg' where "main_boot demo_surroundings [] console demo_power_on =
    map_option (\<lambda>(res, w). (res, lg', w)) (main_start demo_platform (\<lambda>k xs. sort_key k xs) demo_settings demo_power_on)"
    by (simp add: main_boot_def demo_env_settings configureLogging_def) (simp add: demo_surroundings_def)
  with s show ?thesis
    by (simp add: main_flow_reader_def main_counter_reader_def new_SmartNicReader_def new_CounterReader_def Let_def
        BUFFER_SIZE_def BUFFER_SIZE2_def)
qed

theorem main_outcome_witness:
  "\<exists>texts. main_ends demo_surroundings [] console demo_power_on (Returned 0) texts \<and> length texts = 2 \<and>
    sent_whole (env_program demo_surroundings []) texts \<and>
    (\<forall>text \<in> set texts. well_typed_text (env_program demo_surroundings []) text)"
proof -
  let ?P = "env_program demo_surroundings []"
  have host: "prog_host ?P = demo_host"
    by (simp add: env_program_def main_program_def demo_surroundings_def demo_platform_def)
  have srt: "std_sort (env_sort demo_surroundings)"
    by (simp add: demo_surroundings_def stable.std_sort_axioms)
  obtain st lg' t where b: "main_boot demo_surroundings [] console demo_power_on = Some (Inr st, lg', (t, demo_tick_script))"
    and r: "sr_cpp (io_reader st) = Some 0" "sr_slotCount (io_reader st) = 20000" "sr_semSize (io_reader st) = 80000"
      "cr_cpp (io_counterReader st) = Some 0" "cr_slotCount (io_counterReader st) = 2048"
      "cr_semSize (io_counterReader st) = 8192"
    using demo_booted by blast
  have ta: "adjuster_reach demo_host (env_sort demo_surroundings) demo_config (io_adjuster st)"
    using booted [OF b srt] by (simp add: host demo_env_settings demo_settings_def)
  let ?st = "st\<lparr> nextTick := t, driftCalibrationReported := False \<rparr>"
  have enter: "io_enter (prog_host ?P) st (t, demo_tick_script) = (?st, (t + 1, demo_tick_script))"
    unfolding host by (simp add: io_enter_def demo_host_def demo_wait_def)
  obtain d st' w' where "io_tick demo_host ?st (t + 1, demo_tick_script) = Some (Inr (Some d, st'), w')"
    and d: "length (flowMap d) = 1" "length (counterMap d) = 1"
    using demo_full_tick [of "env_sort demo_surroundings" ?st 0 "t + 1"] ta srt r by auto
  from sent_batch [OF enter, unfolded host, OF this(1)] obtain s where
    s: "pipe_reach ?P st (t, demo_tick_script) s" "main_at s = MainDone" "tx_at s = TxDone" "taken s = [d]" by blast
  have e: "main_ends demo_surroundings [] console demo_power_on (Returned 0) (wire s)"
    by (rule ends_joined [OF b s(1,2)])
  have "wire s = batch_texts ?P d" using done_delivered [OF s(1,2)] s(3,4) by simp
  with d have "length (wire s) = 2" by (simp add: batch_texts_def send_batch_def transmit_batch_def)
  with main_outcome [OF e srt refl refl] e show ?thesis by auto
qed

end
