(* ===== verification/Decimal.thy ===== *)
theory Decimal
  imports Prelude
begin

text \<open>
  Integers as text: how a stream prints them, how \<^verbatim>\<open>std::stoul\<close> and \<^verbatim>\<open>std::stoi\<close> read them, and lines and
  fields of text between separators.
\<close>

subsection \<open>Printing and reading\<close>

definition digit_char :: "int \<Rightarrow> char" where
  "digit_char d = char_of (48 + d)"

definition char_digit :: "char \<Rightarrow> int" where
  "char_digit c = of_char c - 48"

definition is_digit :: "char \<Rightarrow> bool" where
  "is_digit c \<longleftrightarrow> 0 \<le> char_digit c \<and> char_digit c \<le> 9"

function show_digits :: "int \<Rightarrow> string" where
  "show_digits n = (if n < 10 then [digit_char n] else show_digits (n div 10) @ [digit_char (n mod 10)])"
  by auto
termination by (relation "measure nat") auto

declare show_digits.simps [simp del]

definition show_int :: "int \<Rightarrow> string" where
  "show_int x = (if x < 0 then CHR ''-'' # show_digits (- x) else show_digits x)"

text \<open>The number at the start of a text as \<^verbatim>\<open>strtol\<close> reads it with base 10: white space, a sign, digits.\<close>

definition is_space :: "char \<Rightarrow> bool" where
  "is_space c \<longleftrightarrow> c \<in> set [CHR '' '', CHR 0x09, CHR 0x0A, CHR 0x0B, CHR 0x0C, CHR 0x0D]"

definition digits_value :: "string \<Rightarrow> int" where
  "digits_value ds = foldl (\<lambda>v c. 10 * v + char_digit c) 0 ds"

definition unsigned_number :: "string \<Rightarrow> int option" where
  "unsigned_number s = (let ds = takeWhile is_digit s in if ds = [] then None else Some (digits_value ds))"

definition leading_number :: "string \<Rightarrow> int option" where
  "leading_number s = (case dropWhile is_space s of
     [] \<Rightarrow> None
   | c # cs \<Rightarrow> if c = CHR ''-'' then map_option uminus (unsigned_number cs)
       else unsigned_number (if c = CHR ''+'' then cs else c # cs))"

text \<open>\<^verbatim>\<open>strtoul\<close> negates a number with a minus sign modulo the width.\<close>

definition stoul :: "string \<Rightarrow> u64 outcome" where
  "stoul s = (case leading_number s of
     None \<Rightarrow> Inl (invalid_argument ''stoul'')
   | Some v \<Rightarrow> if 2 ^ 64 \<le> \<bar>v\<bar> then Inl (out_of_range ''stoul'') else Inr (of_int v))"

definition stoi :: "string \<Rightarrow> int outcome" where
  "stoi s = (case leading_number s of
     None \<Rightarrow> Inl (invalid_argument ''stoi'')
   | Some v \<Rightarrow> if v < - (2 ^ 31) \<or> 2 ^ 31 \<le> v then Inl (out_of_range ''stoi'') else Inr v)"

lemma digit_char_inverse [simp]: "0 \<le> d \<Longrightarrow> d \<le> 9 \<Longrightarrow> char_digit (digit_char d) = d"
  by (simp add: digit_char_def char_digit_def)

lemma is_digit_char [simp]: "0 \<le> d \<Longrightarrow> d \<le> 9 \<Longrightarrow> is_digit (digit_char d)"
  by (simp add: is_digit_def)

lemma digits_value_snoc [simp]: "digits_value (ds @ [c]) = 10 * digits_value ds + char_digit c"
  by (simp add: digits_value_def)

lemma show_digits_inverse:
  "0 \<le> n \<Longrightarrow> digits_value (show_digits n) = n \<and> list_all is_digit (show_digits n) \<and> show_digits n \<noteq> []"
proof (induction n rule: show_digits.induct)
  case (1 n)
  show ?case
  proof (cases "n < 10")
    case True
    with 1 show ?thesis by (subst (1 2 3) show_digits.simps) (simp add: digits_value_def)
  next
    case False
    with 1 have "0 \<le> n mod 10" "n mod 10 \<le> 9" "0 \<le> n div 10" by auto
    with 1(1) False show ?thesis by (subst (1 2 3) show_digits.simps) simp
  qed
qed

lemma unsigned_number_show: "0 \<le> n \<Longrightarrow> unsigned_number (show_digits n) = Some n"
  using show_digits_inverse [of n]
  by (simp add: unsigned_number_def list_all_iff Let_def takeWhile_eq_all_conv [THEN iffD2])

lemma digit_not_mark: "is_digit c \<Longrightarrow> \<not> is_space c \<and> c \<noteq> CHR ''-'' \<and> c \<noteq> CHR ''+'' \<and> c \<noteq> CHR '',''"
  by (auto simp: is_digit_def char_digit_def is_space_def)

lemma leading_number_show [simp]: "leading_number (show_int x) = Some x"
proof (cases "x < 0")
  case True
  moreover have "\<not> is_space CHR ''-''" by (simp add: is_space_def)
  ultimately show ?thesis by (simp add: show_int_def leading_number_def unsigned_number_show)
next
  case False
  then obtain c cs where c: "show_digits x = c # cs" "is_digit c"
    using show_digits_inverse [of x] by (cases "show_digits x") auto
  with False digit_not_mark [OF c(2)] unsigned_number_show [of x] show ?thesis
    by (simp add: show_int_def leading_number_def)
qed

lemma show_int_chars: "c \<in> set (show_int x) \<Longrightarrow> is_digit c \<or> c = CHR ''-''"
  using show_digits_inverse [of "\<bar>x\<bar>"] by (auto simp: show_int_def list_all_iff split: if_splits)

text \<open>Reading what was printed gives the number back, if it is in range.\<close>

lemma sto_show:
  "- (2 ^ 31) \<le> x \<Longrightarrow> x < 2 ^ 31 \<Longrightarrow> stoi (show_int x) = Inr x"
  "\<bar>x\<bar> < 2 ^ 64 \<Longrightarrow> stoul (show_int x) = Inr (of_int x)"
  by (simp_all add: stoi_def stoul_def)

subsection \<open>Fields and lines\<close>

fun split_on :: "char \<Rightarrow> string \<Rightarrow> string list" where
  "split_on c [] = [[]]"
| "split_on c (x # xs) = (case split_on c xs of
     [] \<Rightarrow> [] | f # fs \<Rightarrow> (if x = c then [] # f # fs else (x # f) # fs))"

fun join_with :: "char \<Rightarrow> string list \<Rightarrow> string" where
  "join_with c [] = []"
| "join_with c [f] = f"
| "join_with c (f # fs) = f @ c # join_with c fs"

definition text_lines :: "string \<Rightarrow> string list" where
  "text_lines s = butlast (split_on (CHR 0x0A) s)"

lemma split_on_ne [simp]: "split_on c s \<noteq> []"
  by (induction s) (auto split: list.splits)

lemma split_on_field: "c \<notin> set f \<Longrightarrow> split_on c f = [f]"
  by (induction f) auto

lemma split_on_append: "c \<notin> set f \<Longrightarrow> split_on c (f @ c # s) = f # split_on c s"
  by (induction f) (auto split: list.splits)

lemma split_on_join: "fs \<noteq> [] \<Longrightarrow> \<forall>f \<in> set fs. c \<notin> set f \<Longrightarrow> split_on c (join_with c fs) = fs"
  by (induction c fs rule: join_with.induct) (auto simp: split_on_field split_on_append)

lemma join_with_chars: "x \<in> set (join_with c fs) \<Longrightarrow> x = c \<or> (\<exists>f \<in> set fs. x \<in> set f)"
  by (induction c fs rule: join_with.induct) auto

lemma text_lines_concat:
  "\<forall>l \<in> set ls. CHR 0x0A \<notin> set l \<Longrightarrow> text_lines (concat (map (\<lambda>l. l @ [CHR 0x0A]) ls)) = ls"
  unfolding text_lines_def by (induction ls) (auto simp: split_on_append)

end
