(* ===== verification/Clock_Probe.thy ===== *)
theory Clock_Probe
  imports Time_Adjuster Device Decimal
begin

text \<open>
  The tool \<^verbatim>\<open>tools/raw_clock_probe.cpp\<close>: reads the exported clock state a number of times with the host
  clocks around each read, and prints a line per read after a header. A row is first a record, then its text.
  Its arguments are read before the handler of exceptions is in place; a later exception ends the rows and
  the program with a failure.
\<close>

record probe_row =
  row_bounds :: HostClockBounds
  row_latency :: i64
  row_valid :: bool
  row_reason :: string
  row_state :: MacTimeStateHost
  row_changed :: bool

definition probe_clock :: "(i64 \<times> i64) option \<times> 'w \<Rightarrow> i64 outcome \<times> 'w" where
  "probe_clock r = (case r of
     (None, w) \<Rightarrow> (Inl (runtime_error ''clock_gettime failed''), w)
   | (Some (tv_sec, tv_nsec), w) \<Rightarrow> (Inr (s64 (s64 (tv_sec * kNanosecondsPerSecond) + tv_nsec)), w))"

text \<open>One round of the loop; \<open>previous\<close> is the last valid state (\<^verbatim>\<open>havePrevious\<close>).\<close>

definition probe_round ::
  "'w host \<Rightarrow> MacTimeStateHost option \<Rightarrow> MacClockReader \<Rightarrow> 'w \<Rightarrow>
    (probe_row \<times> MacTimeStateHost option \<times> MacClockReader) outcome \<times> 'w" where
  "probe_round host previous r w =
    and_then (probe_clock (gettime_realtime host w)) (\<lambda>rb w.
    and_then (probe_clock (gettime_monotonic_raw host w)) (\<lambda>mb w.
    (case readState (host_api host) r w of (observation, r, w) \<Rightarrow>
    and_then (probe_clock (gettime_monotonic_raw host w)) (\<lambda>ma w.
    and_then (probe_clock (gettime_realtime host w)) (\<lambda>ra w.
      let bounds = \<lparr> realtime_before_ns = rb, realtime_after_ns = ra,
            monotonic_before_ns = mb, monotonic_after_ns = ma \<rparr>;
          changed = (valid observation \<and> (previous = None \<or> state_neq (obs_state observation) (the previous)));
          row = \<lparr> row_bounds = bounds, row_latency = s64 (ma - mb), row_valid = valid observation,
            row_reason = reject_reason observation, row_state = obs_state observation, row_changed = changed \<rparr>
      in (Inr (row, if valid observation then Some (obs_state observation) else previous, r), w))))))"

fun probe_loop ::
  "'w host \<Rightarrow> i64 \<Rightarrow> nat \<Rightarrow> MacTimeStateHost option \<Rightarrow> MacClockReader \<Rightarrow> 'w \<Rightarrow> (probe_row list \<times> exn option) \<times> 'w" where
  "probe_loop host interval 0 previous r w = (([], None), w)"
| "probe_loop host interval (Suc n) previous r w =
    (case probe_round host previous r w of
       (Inl ex, w) \<Rightarrow> (([], Some ex), w)
     | (Inr (row, previous, r), w) \<Rightarrow>
        (case probe_loop host interval n previous r (sleep_ns host interval w) of
           ((rows, ex), w) \<Rightarrow> ((row # rows, ex), w)))"

text \<open>The text of a row.\<close>

definition row_fields :: "probe_row \<Rightarrow> string list" where
  "row_fields row =
    (let bounds = row_bounds row; state = row_state row in
     [show_int (realtime_before_ns bounds), show_int (realtime_after_ns bounds),
      show_int (monotonic_before_ns bounds), show_int (monotonic_after_ns bounds),
      show_int (row_latency row), (if row_valid row then ''1'' else ''0''), row_reason row,
      show_int (uint (mac_time_s state)), show_int (uint (mac_time_ns state)), show_int (uint (me_time state)),
      show_int (uint (conv_mult state)), show_int (uint (conv_rshift state)),
      (if row_changed row then ''1'' else ''0'')])"

definition row_text :: "probe_row \<Rightarrow> string" where
  "row_text row = join_with (CHR '','') (row_fields row) @ [CHR 0x0A]"

definition probe_header :: string where
  "probe_header = ''realtime_before_ns,realtime_after_ns,'' @ ''monotonic_before_ns,monotonic_after_ns,'' @
     ''read_latency_ns,valid,reject_reason,'' @ ''mac_time_s,mac_time_ns,me_time,conv_mult,conv_rshift,'' @
     ''state_changed'' @ [CHR 0x0A]"

text \<open>The body of \<^verbatim>\<open>main\<close> after the arguments: the text printed and the exit code.\<close>

definition probe_main ::
  "'w device_api \<Rightarrow> 'w host \<Rightarrow> u32 \<Rightarrow> string \<Rightarrow> nat \<Rightarrow> i64 \<Rightarrow> 'w \<Rightarrow> (string \<times> int) \<times> 'w" where
  "probe_main dapi host devnum symbolName n interval w =
    (case new_NFPDevice dapi devnum w of
       (Inl ex, w) \<Rightarrow> (([], 1), w)
     | (Inr device, w) \<Rightarrow>
    (case getSymbolData device (Some (takeWhile (\<lambda>c. c \<noteq> CHR 0x00) symbolName)) of
       None \<Rightarrow> (([], 1), snd (delete_NFPDevice dapi device w))
     | Some symb \<Rightarrow>
    (case new_MacClockReader (host_api host) (nfp_cpp_handle device) (Some symb) symbolName
         sizeof_MacTimeStateHost of
       Inl ex \<Rightarrow> (([], 1), snd (delete_NFPDevice dapi device w))
     | Inr reader \<Rightarrow>
    (case probe_loop host interval n None reader w of ((rows, ex), w) \<Rightarrow>
       ((probe_header @ concat (map row_text rows), if ex = None then 0 else 1),
        snd (delete_NFPDevice dapi device w))))))"

text \<open>
  The device number, the name of the symbol, the number of rows and the pause in microseconds. A number is
  read from the start of its argument, whatever follows, and the device number is cut to 32 bits.
\<close>

definition argument :: "string list \<Rightarrow> nat \<Rightarrow> (string \<Rightarrow> 'a outcome) \<Rightarrow> 'a \<Rightarrow> 'a outcome" where
  "argument argv i parse otherwise = (if i < length argv then parse (argv ! i) else Inr otherwise)"

definition probe_args :: "string list \<Rightarrow> (u32 \<times> string \<times> int \<times> int) outcome" where
  "probe_args argv =
    (case argument argv 1 stoul 0 of Inl ex \<Rightarrow> Inl ex | Inr devnum \<Rightarrow>
    (let symbolName = (if 2 < length argv then argv ! 2 else ''_mac_time'') in
    (case argument argv 3 stoi 1000 of Inl ex \<Rightarrow> Inl ex | Inr wanted \<Rightarrow>
    (case argument argv 4 stoi 1000 of Inl ex \<Rightarrow> Inl ex | Inr interval \<Rightarrow>
       Inr (ucast devnum, symbolName, wanted, interval)))))"

text \<open>The whole program; an exception on the left leaves \<^verbatim>\<open>main\<close>.\<close>

definition probe_program ::
  "'w device_api \<Rightarrow> 'w host \<Rightarrow> string list \<Rightarrow> 'w \<Rightarrow> (string \<times> int) outcome \<times> 'w" where
  "probe_program dapi host argv w =
    (case probe_args argv of
       Inl ex \<Rightarrow> (Inl ex, w)
     | Inr (devnum, symbolName, wanted, interval) \<Rightarrow>
        (case probe_main dapi host devnum symbolName (nat wanted) (interval * 1000) w of
           (result, w) \<Rightarrow> (Inr result, w)))"

subsection \<open>The rows\<close>

text \<open>The state of the last valid row before row \<open>i\<close>.\<close>

definition last_valid :: "MacTimeStateHost option \<Rightarrow> probe_row list \<Rightarrow> MacTimeStateHost option" where
  "last_valid previous rows = foldl (\<lambda>p row. if row_valid row then Some (row_state row) else p) previous rows"

lemma probe_round_read:
  assumes "probe_round host previous r w = (Inr (row, previous', r'), w')"
  obtains w2 ob w3 where "readState (host_api host) r w2 = (ob, r', w3)" "row_valid row = valid ob"
    "row_reason row = reject_reason ob" "row_state row = obs_state ob"
    "previous' = (if valid ob then Some (obs_state ob) else previous)"
    "row_changed row \<longleftrightarrow> valid ob \<and> (previous = None \<or> state_neq (obs_state ob) (the previous))"
proof -
  obtain rb mb w2 where rest: "(case readState (host_api host) r w2 of (observation, r, w) \<Rightarrow>
    and_then (probe_clock (gettime_monotonic_raw host w)) (\<lambda>ma w.
    and_then (probe_clock (gettime_realtime host w)) (\<lambda>ra w.
      (Inr (\<lparr> row_bounds = \<lparr> realtime_before_ns = rb, realtime_after_ns = ra,
            monotonic_before_ns = mb, monotonic_after_ns = ma \<rparr>, row_latency = s64 (ma - mb),
          row_valid = valid observation, row_reason = reject_reason observation,
          row_state = obs_state observation,
          row_changed = (valid observation \<and> (previous = None \<or> state_neq (obs_state observation) (the previous))) \<rparr>,
        if valid observation then Some (obs_state observation) else previous, r), w)))) = (Inr (row, previous', r'), w')"
    using assms unfolding probe_round_def and_then_Inr_iff Let_def by blast
  obtain ob r1 w3 where rs: "readState (host_api host) r w2 = (ob, r1, w3)" by (rule prod_cases3)
  show thesis
    by (rule that [of w2 ob w3]) (use rest rs in \<open>auto simp: and_then_Inr_iff\<close>)
qed

lemma probe_round_row:
  assumes "probe_round host previous r w = (Inr (row, previous', r'), w')"
  shows "previous' = last_valid previous [row] \<and>
    (row_changed row \<longleftrightarrow> row_valid row \<and> previous \<noteq> Some (row_state row))"
  using assms
  by (rule probe_round_read) (cases previous; simp add: last_valid_def state_neq_def state_eq_iff; metis)

lemma probe_loop_changed:
  assumes "probe_loop host interval n previous r w = ((rows, ex), w')" "i < length rows"
  shows "row_changed (rows ! i) \<longleftrightarrow> row_valid (rows ! i) \<and> last_valid previous (take i rows) \<noteq> Some (row_state (rows ! i))"
  using assms
proof (induction n arbitrary: previous r w rows i)
  case (Suc n)
  obtain z w1 where z: "probe_round host previous r w = (z, w1)" by (rule prod.exhaust)
  show ?case
  proof (cases z)
    case (Inr t)
    obtain row previous' r' where t: "t = (row, previous', r')" by (cases t)
    note rr = probe_round_row [OF z [unfolded Inr t]]
    obtain rows' where rest: "probe_loop host interval n previous' r' (sleep_ns host interval w1) = ((rows', ex), w')"
      and rows: "rows = row # rows'"
      using Suc.prems(1) z Inr t by (auto split: prod.splits)
    show ?thesis
    proof (cases i)
      case 0
      with rr rows show ?thesis by (auto simp: last_valid_def)
    next
      case (Suc j)
      with Suc.IH [OF rest, of j] Suc.prems(2) rows rr show ?thesis by (auto simp: last_valid_def)
    qed
  qed (use Suc.prems z in auto)
qed simp

lemma probe_loop_length:
  assumes "probe_loop host interval n previous r w = ((rows, ex), w')"
  shows "length rows \<le> n \<and> (ex = None \<longrightarrow> length rows = n)"
  using assms
proof (induction n arbitrary: previous r w rows)
  case (Suc n)
  then show ?case by (auto split: prod.splits sum.splits)
qed simp

lemma probe_round_reason:
  assumes "probe_round host previous r w = (Inr (row, previous', r'), w')"
  shows "row_reason row \<in> set ([] # raw_reasons @ state_reasons) \<and>
    (if row_valid row then reader_last r' = Some (state_ns (row_state row)) \<and>
       (\<forall>t. reader_last r = Some t \<longrightarrow> t \<le> state_ns (row_state row))
     else reader_last r' = reader_last r)"
proof -
  obtain w2 ob w3 where rs: "readState (host_api host) r w2 = (ob, r', w3)" and
    row: "row_valid row = valid ob" "row_reason row = reject_reason ob" "row_state row = obs_state ob"
    using assms by (rule probe_round_read)
  have "reject_reason ob \<in> set ([] # raw_reasons @ state_reasons)"
    using rs by (auto simp: readState_def Let_def zero_observation_def split: prod.splits sum.splits option.splits
        dest: readRaw_reasons validateState_reasons)
  with mac.read_valid [OF rs] mac.read_invalid [OF rs] row show ?thesis by auto
qed

lemma probe_loop_rows:
  assumes "probe_loop host interval n previous r w = ((rows, ex), w')"
  shows "(\<forall>row \<in> set rows. row_reason row \<in> set ([] # raw_reasons @ state_reasons)) \<and>
    sorted (map (state_ns \<circ> row_state) (filter row_valid rows)) \<and>
    (\<forall>t. reader_last r = Some t \<longrightarrow> (\<forall>row \<in> set rows. row_valid row \<longrightarrow> t \<le> state_ns (row_state row)))"
  using assms
proof (induction n arbitrary: previous r w rows)
  case (Suc n)
  obtain z w1 where z: "probe_round host previous r w = (z, w1)" by (rule prod.exhaust)
  show ?case
  proof (cases z)
    case (Inr t)
    obtain row previous' r' where t: "t = (row, previous', r')" by (cases t)
    note rr = probe_round_reason [OF z [unfolded Inr t]]
    obtain rows' where rest: "probe_loop host interval n previous' r' (sleep_ns host interval w1) = ((rows', ex), w')"
      and rows: "rows = row # rows'"
      using Suc.prems z Inr t by (auto split: prod.splits)
    from Suc.IH [OF rest] rr show ?thesis unfolding rows by (cases "row_valid row") auto
  qed (use Suc.prems z in auto)
qed simp

text \<open>Reading a line back.\<close>

definition number_field :: "string list \<Rightarrow> nat \<Rightarrow> int" where
  "number_field fs i = (case leading_number (fs ! i) of None \<Rightarrow> 0 | Some v \<Rightarrow> v)"

definition read_row :: "string \<Rightarrow> probe_row" where
  "read_row line =
    (let fs = split_on (CHR '','') line; num = number_field fs in
     \<lparr> row_bounds = \<lparr> realtime_before_ns = num 0, realtime_after_ns = num 1, monotonic_before_ns = num 2,
         monotonic_after_ns = num 3 \<rparr>, row_latency = num 4, row_valid = (num 5 = 1), row_reason = fs ! 6,
       row_state = \<lparr> mac_time_s = of_int (num 7), mac_time_ns = of_int (num 8), me_time = of_int (num 9),
         conv_mult = of_int (num 10), conv_rshift = of_int (num 11) \<rparr>, row_changed = (num 12 = 1) \<rparr>)"

definition plain :: "string \<Rightarrow> bool" where
  "plain s \<longleftrightarrow> CHR '','' \<notin> set s \<and> CHR 0x0A \<notin> set s"

lemma plain_int [simp]: "plain (show_int x)"
  using show_int_chars [of _ x] by (fastforce simp: plain_def is_digit_def char_digit_def)

lemma plain_flag [simp]: "plain (if b then ''1'' else ''0'')"
  by (simp add: plain_def)

lemma plain_reason: "reason \<in> set ([] # raw_reasons @ state_reasons) \<Longrightarrow> plain reason"
  by (auto simp: plain_def raw_reasons_def state_reasons_def)

lemma plain_fields: "plain (row_reason row) \<Longrightarrow> \<forall>f \<in> set (row_fields row). plain f"
  by (simp add: row_fields_def Let_def)

lemma read_row_fields:
  assumes "plain (row_reason row)"
  shows "read_row (join_with (CHR '','') (row_fields row)) = row"
proof -
  have "split_on (CHR '','') (join_with (CHR '','') (row_fields row)) = row_fields row"
    using plain_fields [OF assms] by (intro split_on_join) (auto simp: row_fields_def Let_def plain_def)
  moreover have "leading_number ''1'' = Some 1" "leading_number ''0'' = Some 0" by code_simp+
  ultimately show ?thesis
    by (simp add: read_row_def number_field_def row_fields_def Let_def)
qed

lemma probe_lines:
  assumes "\<forall>row \<in> set rows. plain (row_reason row)"
  shows "text_lines (probe_header @ concat (map row_text rows)) =
    butlast probe_header # map (\<lambda>row. join_with (CHR '','') (row_fields row)) rows"
proof -
  let ?line = "\<lambda>row. join_with (CHR '','') (row_fields row)"
  have "CHR 0x0A \<notin> set (?line row)" if "row \<in> set rows" for row
  proof
    assume "CHR 0x0A \<in> set (?line row)"
    from join_with_chars [OF this] plain_fields [OF assms [rule_format, OF that]] show False
      by (auto simp: plain_def)
  qed
  moreover have h: "probe_header = butlast probe_header @ [CHR 0x0A]" "CHR 0x0A \<notin> set (butlast probe_header)"
    by (simp_all add: probe_header_def)
  ultimately have "text_lines (concat (map (\<lambda>l. l @ [CHR 0x0A]) (butlast probe_header # map ?line rows))) =
      butlast probe_header # map ?line rows"
    by (intro text_lines_concat) auto
  moreover have "concat (map (\<lambda>l. l @ [CHR 0x0A]) (butlast probe_header # map ?line rows)) =
      probe_header @ concat (map row_text rows)"
    using h(1) by (auto simp: row_text_def intro!: arg_cong [of _ _ concat])
  ultimately show ?thesis by simp
qed

text \<open>
  C40 (roundtrip). What the probe prints can be read back, and what is read is true of the clock. A program
  that could read its arguments prints nothing and fails, or prints its header and lines of 13 fields, as
  many as were asked for if it succeeds, that give back its rows. In these the times of the valid reads
  ascend, and a row is marked as changed exactly when its read is valid and differs from the last valid read
  before it, with any number of invalid reads in between.
\<close>

theorem probe_rows:
  assumes "probe_program dapi host argv w = (Inr (out, code), w')"
    and "probe_args argv = Inr (devnum, symbolName, wanted, interval)"
  shows "(code = 0 \<or> code = 1) \<and> (out = [] \<and> code = 1 \<or>
    (\<exists>rows. map read_row (tl (text_lines out)) = rows \<and> out = probe_header @ concat (map row_text rows) \<and>
      length rows \<le> nat wanted \<and> (code = 0 \<longrightarrow> length rows = nat wanted) \<and>
      sorted (map (state_ns \<circ> row_state) (filter row_valid rows)) \<and>
      (\<forall>i < length rows. row_changed (rows ! i) \<longleftrightarrow>
        row_valid (rows ! i) \<and> last_valid None (take i rows) \<noteq> Some (row_state (rows ! i)))))"
proof -
  have "out = [] \<and> code = 1 \<or> (\<exists>r u rows ex u'. probe_loop host (interval * 1000) (nat wanted) None r u = ((rows, ex), u') \<and>
      out = probe_header @ concat (map row_text rows) \<and> code = (if ex = None then 0 else 1))"
    using assms unfolding probe_program_def probe_main_def
    by (simp split: prod.splits option.splits sum.splits split del: if_split) blast+
  then show ?thesis
  proof
    assume "\<exists>r u rows ex u'. probe_loop host (interval * 1000) (nat wanted) None r u = ((rows, ex), u') \<and>
      out = probe_header @ concat (map row_text rows) \<and> code = (if ex = None then 0 else 1)"
    then obtain r u rows ex u' where p: "probe_loop host (interval * 1000) (nat wanted) None r u = ((rows, ex), u')"
      and out: "out = probe_header @ concat (map row_text rows)" and c: "code = (if ex = None then 0 else 1)" by blast
    have pl: "\<forall>row \<in> set rows. plain (row_reason row)" using probe_loop_rows [OF p] plain_reason by blast
    then have "map read_row (tl (text_lines out)) = rows"
      by (simp add: out probe_lines comp_def read_row_fields map_idI)
    with probe_loop_length [OF p] probe_loop_changed [OF p] probe_loop_rows [OF p] out c show ?thesis by auto
  qed simp
qed

text \<open>
  The arguments are read outside of the handler: one that does not start with a number in range leaves
  \<^verbatim>\<open>main\<close> as an exception.
\<close>

lemma probe_aborts:
  "probe_program dapi host argv w = (Inl ex, w') \<Longrightarrow> w' = w \<and>
    (\<exists>i \<in> {1, 3, 4}. i < length argv \<and> leading_number (argv ! i) \<notin> Some ` {- (2 ^ 31)..<2 ^ 31})"
  by (auto simp: probe_program_def probe_args_def argument_def stoul_def stoi_def Let_def
      split: prod.splits sum.splits if_splits option.splits)

lemma cut_word: "(ucast (of_int v :: u64) :: u32) = of_int v"
  by (rule bit_word_eqI) (simp add: bit_simps)

lemma probe_device_number:
  "probe_args argv = Inr (devnum, symbolName, wanted, interval) \<Longrightarrow> 1 < length argv \<Longrightarrow>
    \<exists>v. leading_number (argv ! 1) = Some v \<and> devnum = of_int v"
  by (auto simp: probe_args_def argument_def stoul_def cut_word Let_def split: sum.splits option.splits if_splits)

subsection \<open>A worked probe\<close>

definition demo_probe_device :: "demo_world device_api" where
  "demo_probe_device = \<lparr> device_open = (\<lambda>_ w. (Some 0, w)), device_cpp = (\<lambda>_ w. (Some 0, w)),
     device_close = (\<lambda>_ w. w), rtsym_count = (\<lambda>_ w. (1, w)), rtsym_get = (\<lambda>_ i w. (Some demo_symbol, w)),
     strerror_errno = (\<lambda>_. []) \<rparr>"

text \<open>The second argument is a device number with a sign and text behind it.\<close>

definition demo_argv :: "string list" where
  "demo_argv = [''raw_clock_probe'', '' -0x'', ''mac_time'', ''3'', ''1'']"

definition demo_probe :: "(string \<times> int) outcome \<times> demo_world" where
  "demo_probe = probe_program demo_probe_device demo_host demo_argv (0, map demo_state [3, 3, 6])"

lemma demo_args: "probe_args demo_argv = Inr (0, ''mac_time'', 3, 1)"
  by code_simp

lemma demo_probe_run:
  "(case fst demo_probe of Inr (out, code) \<Rightarrow> map row_valid (map read_row (tl (text_lines out))) = [True, True, True] \<and> code = 0
    | Inl ex \<Rightarrow> False)"
  by code_simp

theorem probe_rows_witness:
  "\<exists>out w. demo_probe = (Inr (out, 0), w) \<and> length (tl (text_lines out)) = 3 \<and>
    row_changed (read_row (text_lines out ! 1))"
proof -
  obtain res w where d: "demo_probe = (res, w)" by (rule prod.exhaust)
  from demo_probe_run [unfolded d] obtain out where res: "res = Inr (out, 0)"
    and v: "map row_valid (map read_row (tl (text_lines out))) = [True, True, True]"
    by (cases res) auto
  let ?rows = "map read_row (tl (text_lines out))"
  have len: "length ?rows = 3" using arg_cong [OF v, of length] by simp
  from probe_rows [OF d [unfolded demo_probe_def res] demo_args] len
  have c: "row_changed (?rows ! 0) \<longleftrightarrow> row_valid (?rows ! 0) \<and> last_valid None (take 0 ?rows) \<noteq> Some (row_state (?rows ! 0))"
    by auto
  have "row_valid (?rows ! 0)" using v len by (cases ?rows) auto
  with c have "row_changed (?rows ! 0)" by (simp add: last_valid_def)
  moreover have "?rows ! 0 = read_row (text_lines out ! 1)" using len by (simp add: nth_tl)
  ultimately have "demo_probe = (Inr (out, 0), w) \<and> length (tl (text_lines out)) = 3 \<and>
      row_changed (read_row (text_lines out ! 1))" using d res len by simp
  then show ?thesis by (intro exI)
qed

end
