(* ===== verification/Repo_Tests.thy ===== *)
theory Repo_Tests
  imports Clock_Calibration
begin

text \<open>
  The test program \<^verbatim>\<open>test/time_calibration_test.cpp\<close> run on the model of the calibration: its helpers and four of its
  six tests, each the conjunction of what the test requires. The two tests of the drift fit are left out, since
  they take some thousand roundings of rational numbers. The tests of the sampler are in \<open>Clock_Sampler\<close>.
\<close>

definition kSecond :: i64 where "kSecond = 1000000000"
definition kMacBase :: i64 where "kMacBase = 2000000000000"
definition kUnixBase :: i64 where "kUnixBase = 1780000000000000000"

definition sampleAt :: "i64 \<Rightarrow> rat \<Rightarrow> i64 \<Rightarrow> i64 \<Rightarrow> TimeSample" where
  "sampleAt elapsedNs scl noiseNs latencyNs = \<lparr> ts_mac_ns = kMacBase + elapsedNs,
     unix_ns = kUnixBase + llround (ld (of_int elapsedNs * scl)) + noiseNs,
     monotonic_ns = 500000000000 + elapsedNs, latency_ns = latencyNs \<rparr>"

definition startupSamples :: "TimeSample list" where
  "startupSamples = map (\<lambda>i. sampleAt (i * 1000000) 1 ((i mod 3 - 1) * 10000) (50000 + i * 10000)) [0..15]"

definition test_initialize :: "TimeSample list \<Rightarrow> bool \<times> ClockCalibration" where
  "test_initialize xs = initialize (\<lambda>k xs. sort_key k xs) xs (new_ClockCalibration default_calibration_config)"

definition testAtomicMacTime :: bool where
  "testAtomicMacTime \<longleftrightarrow> composeAtomicMacTime 12 345 12 = Some (12 * kSecond + 345) \<and>
     composeAtomicMacTime 12 999999999 13 = None \<and> composeAtomicMacTime 12 1000000000 12 = None"

definition testStartupOffsetAndLatencyFiltering :: bool where
  "testStartupOffsetAndLatencyFiltering \<longleftrightarrow>
    (case test_initialize (startupSamples @ [sampleAt 20000000 1 50000000 900000]) of (ok, c) \<Rightarrow>
       ok \<and> cal_valid (status c) \<and> sample_count (status c) = 8 \<and> minimum_latency_ns (status c) = 50000 \<and>
       rejected_samples (status c) = 1 \<and>
       (case toUnixNanoseconds c (kMacBase + 500000000) of
          Inr converted \<Rightarrow> llabs (converted - (kUnixBase + 500000000)) < 20000 | Inl _ \<Rightarrow> False))"

definition testClockResets :: bool where
  "testClockResets \<longleftrightarrow>
    (case test_initialize startupSamples of (ok, c) \<Rightarrow> ok \<and>
    (case addSample (sampleAt kSecond 1 0 100000) c of (ok, c) \<Rightarrow> ok \<and>
    (let rollback = (sampleAt (2 * kSecond) 1 0 100000)\<lparr> ts_mac_ns := kMacBase - 1 \<rparr> in
     case addSample rollback c of (ok, c) \<Rightarrow> ok \<and>
       cal_valid (status c) \<and> sample_count (status c) = 1 \<and> \<not> drift_calibrated (status c) \<and>
    (let hostStep = sampleAt (3 * kSecond) 1 0 100000;
         hostStep = hostStep\<lparr> unix_ns := unix_ns hostStep + 10000000 \<rparr> in
     case addSample hostStep c of (ok, c) \<Rightarrow> ok \<and>
       sample_count (status c) = 1 \<and> \<not> drift_calibrated (status c)))))"

definition testLargeEpochAndMonotonicConversion :: bool where
  "testLargeEpochAndMonotonicConversion \<longleftrightarrow>
    (case test_initialize startupSamples of (ok, c) \<Rightarrow> ok \<and>
    (case (toUnixNanoseconds c (kMacBase + 100), toUnixNanoseconds c (kMacBase + 101)) of
       (Inr first, Inr second) \<Rightarrow> 1700000000000000000 < first \<and> first < second | _ \<Rightarrow> False))"

lemma calibration_tests_pass:
  "testAtomicMacTime" "testStartupOffsetAndLatencyFiltering" "testClockResets" "testLargeEpochAndMonotonicConversion"
  by code_simp+

end
