(* ===== verification/Spec2Isabelle.thy ===== *)
theory Spec2Isabelle
  imports Main_Program Clock_Probe Repo_Tests
begin

text \<open>
  A model of \<^verbatim>\<open>sflow_middle\<close>, the program between a Netronome SmartNIC that samples network flows and the
  collector that receives them over UDP. Once a second it takes the flow records and interface counters
  the firmware has gathered in one of two memory banks, translates their SmartNIC time stamps into Unix
  time, groups them, and sends one JSON datagram per flow and per counter.

  \<^bold>\<open>Parts of the program and their theories.\<close>

  \<^item> \<open>Prelude\<close>: machine integers, exceptions, \<^verbatim>\<open>std::sort\<close> (the locale \<open>std_sort\<close>) and \<^verbatim>\<open>std::min_element\<close>.
    \<open>Float_Model\<close>: \<^verbatim>\<open>double\<close> and \<^verbatim>\<open>long double\<close> as rationals rounded to 53 and 64 bits after every operation.
    \<open>Std_Map\<close>: \<^verbatim>\<open>std::map\<close> as a sorted association list (the locale \<open>std_map\<close>).
  \<^item> \<open>Nfp_Api\<close>: the SDK calls as a record of functions on an unspecified device state; the log of a run and
    the discipline of opening and closing memory areas. \<open>Mem_Device\<close>: the locale \<open>nfp_memory\<close>, what the SDK
    documents of reads, writes and fills while the firmware writes to the same memory, and a memory device that
    satisfies it with any firmware.
  \<^item> \<open>Mac_Clock_Reader\<close> (\<^verbatim>\<open>src/MacClockReader.cpp\<close>): reads and validates the clock state the firmware exports.
    \<open>Clock_Types\<close> and \<open>Clock_Sampler\<close> (\<^verbatim>\<open>src/ClockSampler.cpp\<close>): turn observed changes of that state into samples of
    SmartNIC time against host time; the reader is an interface (the locale \<open>clock_state_reader\<close>) as
    \<^verbatim>\<open>IClockStateReader\<close> is in the code. \<open>Clock_Calibration\<close> and \<open>Time_Adjuster\<close> (\<^verbatim>\<open>src/Time.cpp\<close>): fit a line
    through the samples and convert time stamps with it.
  \<^item> \<open>Bank_Protocol\<close>, \<open>Flow_Reader\<close> (\<^verbatim>\<open>src/Reader.cpp\<close>) and \<open>Counter_Reader\<close> (\<^verbatim>\<open>src/CounterReader.cpp\<close>): the
    double-buffered tables in SmartNIC memory; the locale \<open>nfp_firmware\<close> is the firmware's side of that protocol.
    \<open>Device\<close> (\<^verbatim>\<open>src/Device.cpp\<close>): the device and its symbols.
  \<^item> \<open>Aggregation\<close>, \<open>Io_Thread\<close>, \<open>Transmit\<close>, \<open>Pipeline\<close> and \<open>Startup\<close> (\<^verbatim>\<open>src/main.cpp\<close>): grouping a tick's records,
    one tick of \<^verbatim>\<open>smartNicIoThread\<close>, the payloads of \<^verbatim>\<open>transmitThread\<close>, all threads together, and \<^verbatim>\<open>main\<close>
    up to their start. \<open>Logging\<close>: \<^verbatim>\<open>configureLogging\<close>. \<open>Sender\<close> (what the sending threads do by themselves),
    \<open>Wire_Types\<close> (what is on the wire), \<open>Schedule\<close> (when ticks happen) and
    \<open>End_To_End\<close> draw the conclusions about runs of the threads, and \<open>Main_Program\<close> puts \<^verbatim>\<open>main\<close> together, from its
    arguments to the ways it can end.
  \<^item> \<open>Decimal\<close> (numbers as text) and \<open>Clock_Probe\<close> (\<^verbatim>\<open>tools/raw_clock_probe.cpp\<close>): the diagnostic tool, from its arguments
    to the text it prints. \<open>Repo_Tests\<close>: scenarios of \<^verbatim>\<open>test/time_calibration_test.cpp\<close>, which the model passes.

  \<^bold>\<open>How the model follows the code.\<close> A class is a record with the fields of the class, a member function a
  function that takes the record and the state of the world and returns both updated; exceptions are the left side of
  a sum. Unsigned integers are words; a signed 64-bit integer is an \<^typ>\<open>int\<close> reduced by \<^const>\<open>s64\<close> after every
  operation that can overflow. A sampler, a calibration and the rest keep the names of the code; a prefix is added
  where two records have a field of the same name. The SDK, the POSIX clocks, sleeping, the YAML and the JSON
  library and the asio socket are parameters: records of functions on a type variable \<open>'w\<close>. So is whether the allocator has
  room for the samples of a burst (\<^const>\<open>can_allocate\<close>), whose number is a setting (\<^const>\<open>reserve_samples\<close>). Nothing is assumed
  of them except where a theorem names the assumption: \<open>std_sort\<close> (a permutation, ascending), \<open>host_timed\<close> (time does
  not run backwards, reading the steady clock takes some, sleeping until a time lasts until then), \<open>nfp_memory\<close> and
  \<open>nfp_firmware\<close>. The worked examples at the end of a theory instantiate each.

  \<^bold>\<open>The firmware\<close> runs while the program reads. \<open>nfp_memory\<close> lets it act, within a rely relation, before, between and
  after the accesses of every call: an aligned word is read at one moment, but the bytes of a longer read may stem from
  different ones. \<open>nfp_firmware\<close> says what the code trusts: the state word is left alone, a thread chooses the bank
  that is active when it chooses, it is counted as a writer of it (or has given up) before the program has slept its
  millisecond, and a bank that is chosen by nobody, not active and with a count of zero is at rest, that is, left
  alone. That a millisecond is enough cannot be seen in the code; every theorem on the contents of a read rests on it.
  The firmware of the worked examples does write while the program waits.

  \<^bold>\<open>Loops.\<close> The two loops of the code that may run for ever are partial functions whose result \<^const>\<open>None\<close> is a loop
  that does not end: \<open>await_idle\<close>, with \<open>read_tick_returns\<close> saying exactly when the reads of a tick end, and \<open>collect_loop\<close>, with
  \<open>adjuster_terminates\<close> saying that on a host whose steady clock advances it always does. All other recursion is structural, except for
  the digits of a number (\<open>show_digits\<close>); there is no fuel.

  \<^bold>\<open>Threads.\<close> \<open>Pipeline\<close> has a step relation per thread on one shared state, and their interleaving. A step is what
  a thread does up to the next point another thread could observe, so the test of the wait predicate and the block are
  two steps, as are clearing the flag and notifying. A tick of the I/O thread is one step, since only that thread
  touches the device. The second of sleep before the last notification is the parameter \<^const>\<open>grace\<close>: untimed steps
  cannot say that a second is longer than the moment between two instructions.

  \<^bold>\<open>What is shown.\<close>

  \<^item> From device to batch: a read returns the ready slots of the retired bank and clears that bank only
    (\<open>readFlowData_correct\<close>), flows and counters of a tick are one snapshot (\<open>read_tick_one_snapshot\<close>), the maps hold
    what one computes from the list of all records (\<open>aggregate_flows_correct\<close>), and together:
    every tick of every run exports exactly what the bank held: which records count for a five-tuple, and what an export
    says of them, is written out in the fields of the records by \<open>flows_exported\<close> and \<open>counters_exported\<close> (\<open>every_tick_exports\<close>). Areas are closed on every path and semaphores
    cleared last (\<open>readFlowData_discipline\<close>, \<open>readCounterData_discipline\<close>).
  \<^item> From batch to wire: the payload can be read back (\<open>payload_roundtrip\<close>), the queue is first in first out
    (\<open>pipeline_fifo\<close>), the threads refine a channel (\<open>pipeline_refines_channel\<close>), what is pushed is sent, with no
    push missed (\<open>sender_delivers\<close>), at the end all but the last batch has arrived (\<open>shutdown_delivers\<close>,
    \<open>last_batch_lost\<close>), a collector reads from the wire what was pushed (\<open>collector_receives\<close>), where every text has the type of a flow or of a counter (\<open>wire_typed\<close>), a program
    that is told to stop stops (\<open>shutdown_completes\<close>), and an exception ends a tick for three reasons only, no room for the samples of a refresh, an
    unreadable host clock or a malformed time stamp (\<open>abort_causes\<close>).
  \<^item> Time: an adjuster that was constructed is calibrated and stays so, converts monotonically and within the
    configured drift, and fails for one reason only; samples are transitions that really happened, within their
    uncertainty; valid clock states ascend. What starts before it ends still does after conversion and grouping
    (\<open>flow_times_ordered\<close>). Ticks keep to a grid, and there is at most one batch per period (\<open>export_rate\<close>).
  \<^item> Start: what the settings are after an error (\<open>settings_prefix\<close>), and what holds when the threads start
    (\<open>main_start_ready\<close>), which is what the theorems on ticks and conversion ask for.
  \<^item> The whole program: with which exit code or exception it ends, and that all it has sent by then are typed datagrams
    of whole batches, unless an exception breaks off (\<open>main_outcome\<close>).
  \<^item> The probe: its output gives back its rows (\<open>probe_rows\<close>).

  Several theorems state behaviour that is hardly intended: \<open>last_batch_lost\<close>, \<open>lost_wakeup\<close>, \<open>mac_rollback_stuck\<close>, the
  exceptions of \<open>make_batch_outcome\<close> and \<open>abort_causes\<close>, the unbounded wait of \<open>read_tick_returns\<close>.

  \<^bold>\<open>Not modelled.\<close> The log lines, which only write text; the text of a JSON value and the UDP socket below
  \<^verbatim>\<open>async_send_to\<close>, which belong to libraries; NaN and infinities of floating point (also as a value in the YAML
  file); running out of memory, except at \<^verbatim>\<open>samples.reserve(count)\<close>, the one allocation whose size a setting chooses; the two tests of the drift fit, the scripts and the symbol dump \<^verbatim>\<open>test/main.cpp\<close>. The accessors of the headers that only return a field are the record's selectors.
\<close>

end
